(* ===== verification/Prelude.thy ===== *)
theory Prelude
  imports Main "HOL-Library.Word" "HOL-Library.Finite_Map"
begin

text \<open>
  Shared vocabulary of the development: Go's fixed-width integers, fixed-size byte arrays
  (\<^verbatim>\<open>[32]byte\<close>, \<^verbatim>\<open>[80]byte\<close>, \dots), the byte orders of
  \<^verbatim>\<open>encoding/binary\<close>, the error values of the program, and the named theorem
  collections that the component theories extend.
\<close>

unbundle bit_operations_syntax

named_theorems go_defs \<open>definitions of program operations, unfolded together\<close>
named_theorems len_simps \<open>lengths of encodings\<close>
named_theorems inj_simps \<open>injectivity of encodings\<close>

type_synonym byte = "8 word"
type_synonym uint16 = "16 word"
type_synonym uint32 = "32 word"
type_synonym uint64 = "64 word"
type_synonym int64 = "64 word"
type_synonym bytes = "byte list"

section \<open>Errors\<close>

text \<open>
  Go's \<^verbatim>\<open>error\<close> values: one constructor per sentinel or per place that builds
  an error, and \<open>PanicIndex\<close>, \<open>PanicNil\<close> for the run-time panics of an index or slice expression
  out of range and of a nil pointer.
  \<open>ErrBackend\<close> stands for any error that a storage backend, a remote operator or the
  network reports.
\<close>

datatype go_error =
    ErrEmpty | ErrLeafIndex | ErrFieldIndex
  | ErrShardK | ErrShardServers
  | ErrNotMined | ErrInconsistent
  | ErrInvalidBlock | ErrBelowFloor
  | ErrAmount | ErrDER
  | ErrInvalidKey | ErrSign | ErrSigLength | ErrPubKey
  | ErrBadSig | ErrUnderpaid | ErrExceedsDeposit | ErrClosed | ErrConfig | ErrNoCommitment
  | ErrNoChannel | ErrChannelBanned | ErrDepositTooSmall | ErrTooManyChannels
  | ErrNoContradiction | ErrBadAttestation | ErrOperatorMismatch
  | ErrNoProof
  | ErrBase58Char | ErrBase58Short | ErrBase58Checksum
  | ErrBackend nat
  | PanicIndex | PanicNil | PanicDivide

section \<open>Fixed-size byte arrays\<close>

text \<open>
  \<^verbatim>\<open>[n]byte\<close>: the length is part of the type. \<open>slice h\<close> is Go's
  \<^verbatim>\<open>h[:]\<close> and \<open>copy_from b\<close> is the idiom
  \<^verbatim>\<open>var h [n]byte; copy(h[:], b)\<close>: the first \<open>n\<close> bytes of \<open>b\<close>, the rest zero.
\<close>

typedef (overloaded) ('n::len) barray = "{bs :: bytes. length bs = LENGTH('n)}"
  morphisms slice Abs_barray
  by (rule exI [of _ "replicate LENGTH('n) 0"]) simp

lemma slice_length [simp, len_simps]: "length (slice (h :: ('n::len) barray)) = LENGTH('n)"
  using slice [of h] by simp

lemma slice_abstype [code abstype]: "Abs_barray (slice h) = h"
  by (rule slice_inverse)

definition copy_from :: "bytes \<Rightarrow> ('n::len) barray" where
  "copy_from b = Abs_barray (take LENGTH('n) (b @ replicate LENGTH('n) 0))"

lemma slice_copy_from [code abstract]:
  "slice (copy_from b :: ('n::len) barray) = take LENGTH('n) (b @ replicate LENGTH('n) 0)"
  by (simp add: copy_from_def Abs_barray_inverse)

instantiation barray :: (len) equal
begin

definition equal_barray :: "'a barray \<Rightarrow> 'a barray \<Rightarrow> bool" where
  "equal_barray h g \<longleftrightarrow> slice h = slice g"

instance
  by standard (simp add: equal_barray_def slice_inject)

end

type_synonym hash = "32 barray"
type_synonym header = "80 barray"

lemma slice_copy_from_exact [simp]:
  "length b = LENGTH('n) \<Longrightarrow> slice (copy_from b :: ('n::len) barray) = b"
  by (simp add: slice_copy_from)

lemma copy_from_slice [simp]: "copy_from (slice h) = h"
  by (simp add: slice_inject [symmetric])

lemma slice_eq_iff [simp, inj_simps]: "slice h = slice g \<longleftrightarrow> h = g"
  by (rule slice_inject)

lemma copy_from_single_eq [simp]:
  "(copy_from [a] :: ('n::len) barray) = copy_from [b] \<longleftrightarrow> a = b"
proof
  assume "(copy_from [a] :: 'n barray) = copy_from [b]"
  then have "slice (copy_from [a] :: 'n barray) = slice (copy_from [b] :: 'n barray)"
    by simp
  moreover have "LENGTH('n) \<noteq> 0" by simp
  ultimately show "a = b"
    by (cases "LENGTH('n)") (auto simp: slice_copy_from)
qed simp

section \<open>Byte orders\<close>

text \<open>
  \<open>le_bytes n v\<close> is the little-endian \<open>n\<close>-byte form of a machine word, \<open>be_bytes\<close> the
  big-endian one (\<^verbatim>\<open>binary.LittleEndian.PutUint32\<close> and its relatives).
\<close>

definition le_bytes :: "nat \<Rightarrow> ('a::len) word \<Rightarrow> bytes" where
  "le_bytes n v = map (\<lambda>i. ucast (drop_bit (8 * i) v)) [0..<n]"

definition be_bytes :: "nat \<Rightarrow> ('a::len) word \<Rightarrow> bytes" where
  "be_bytes n v = rev (le_bytes n v)"

primrec of_le_bytes :: "bytes \<Rightarrow> ('a::len) word" where
  "of_le_bytes [] = 0"
| "of_le_bytes (b # bs) = ucast b OR push_bit 8 (of_le_bytes bs)"

definition of_be_bytes :: "bytes \<Rightarrow> ('a::len) word" where
  "of_be_bytes bs = of_le_bytes (rev bs)"

lemma le_bytes_length [simp, len_simps]: "length (le_bytes n v) = n"
  by (simp add: le_bytes_def)

lemma be_bytes_length [simp, len_simps]: "length (be_bytes n v) = n"
  by (simp add: be_bytes_def)

lemma le_bytes_nth: "i < n \<Longrightarrow> le_bytes n v ! i = ucast (drop_bit (8 * i) v)"
  by (simp add: le_bytes_def)

lemma le_bytes_Suc: "le_bytes (Suc n) v = ucast v # le_bytes n (drop_bit 8 v)"
  by (rule nth_equalityI)
     (auto simp: le_bytes_nth nth_Cons add.commute split: nat.split)

lemma bit_of_le_bytes:
  "bit (of_le_bytes bs :: ('a::len) word) n \<longleftrightarrow>
     n < LENGTH('a) \<and> n div 8 < length bs \<and> bit (bs ! (n div 8)) (n mod 8)"
proof (induction bs arbitrary: n)
  case (Cons b bs)
  show ?case
  proof (cases "n < 8")
    case True
    then show ?thesis by (simp add: bit_simps)
  next
    case False
    then have "n div 8 = Suc ((n - 8) div 8)" and "(n - 8) mod 8 = n mod 8"
      by (auto simp: le_div_geq le_mod_geq)
    moreover have "\<not> bit b n" using False bit_imp_le_length [of b n] by auto
    moreover have "n < LENGTH('a) \<Longrightarrow> n - 8 < LENGTH('a)" by simp
    ultimately show ?thesis using False by (auto simp: bit_simps Cons.IH)
  qed
qed simp

lemma of_le_bytes_le_bytes: "of_le_bytes (le_bytes n v) = take_bit (8 * n) v"
proof (induction n arbitrary: v)
  case 0
  then show ?case by (simp add: le_bytes_def)
next
  case (Suc n)
  have "ucast (ucast v :: byte) OR push_bit 8 (take_bit (8 * n) (drop_bit 8 v)) = take_bit (8 * Suc n) v"
    by (rule bit_word_eqI) (auto simp: bit_simps)
  with Suc.IH show ?case by (simp add: le_bytes_Suc)
qed

lemma le_bytes_roundtrip:
  fixes v :: "('a::len) word"
  assumes "LENGTH('a) \<le> 8 * n"
  shows "of_le_bytes (le_bytes n v) = v"
  using assms by (simp add: of_le_bytes_le_bytes take_bit_word_eq_self)

lemma be_bytes_roundtrip:
  fixes v :: "('a::len) word"
  assumes "LENGTH('a) \<le> 8 * n"
  shows "of_be_bytes (be_bytes n v) = v"
  using assms by (simp add: of_be_bytes_def be_bytes_def le_bytes_roundtrip)

lemma le_bytes_inject:
  fixes v w :: "('a::len) word"
  assumes "LENGTH('a) \<le> 8 * n"
  shows "le_bytes n v = le_bytes n w \<longleftrightarrow> v = w"
  by (metis assms le_bytes_roundtrip)

lemma be_bytes_inject:
  fixes v w :: "('a::len) word"
  assumes "LENGTH('a) \<le> 8 * n"
  shows "be_bytes n v = be_bytes n w \<longleftrightarrow> v = w"
  by (metis assms be_bytes_roundtrip)

text \<open>The widths of the code, as simplification rules.\<close>

abbreviation le16 :: "uint16 \<Rightarrow> bytes" where "le16 \<equiv> le_bytes 2"
abbreviation le32 :: "uint32 \<Rightarrow> bytes" where "le32 \<equiv> le_bytes 4"
abbreviation le64 :: "uint64 \<Rightarrow> bytes" where "le64 \<equiv> le_bytes 8"
abbreviation be32 :: "uint32 \<Rightarrow> bytes" where "be32 \<equiv> be_bytes 4"
abbreviation be64 :: "uint64 \<Rightarrow> bytes" where "be64 \<equiv> be_bytes 8"

lemma le16_inject [simp, inj_simps]: "le16 v = le16 w \<longleftrightarrow> v = w"
  by (simp add: le_bytes_inject)

lemma le32_inject [simp, inj_simps]: "le32 v = le32 w \<longleftrightarrow> v = w"
  by (simp add: le_bytes_inject)

lemma le64_inject [simp, inj_simps]: "le64 v = le64 w \<longleftrightarrow> v = w"
  by (simp add: le_bytes_inject)

lemma be32_inject [simp, inj_simps]: "be32 v = be32 w \<longleftrightarrow> v = w"
  by (simp add: be_bytes_inject)

lemma be64_inject [simp, inj_simps]: "be64 v = be64 w \<longleftrightarrow> v = w"
  by (simp add: be_bytes_inject)

text \<open>Fixed-width fields can be cancelled one by one from the front of a message.\<close>

lemma append_field_eq:
  "length a = length b \<Longrightarrow> a @ x = b @ y \<longleftrightarrow> a = b \<and> x = y"
  by simp

text \<open>\<^verbatim>\<open>[]byte(s)\<close> for an ASCII string.\<close>

definition str_bytes :: "string \<Rightarrow> bytes" where
  "str_bytes s = map of_char s"

section \<open>Generic lemmas\<close>

lemma Inr_case_eq:
  "(case r of Inl e \<Rightarrow> Inl e | Inr x \<Rightarrow> f x) = Inr y \<longleftrightarrow> (\<exists>x. r = Inr x \<and> f x = Inr y)"
  by (cases r) auto

lemma sum_case_id [simp]: "(case r of Inl e \<Rightarrow> Inl e | Inr x \<Rightarrow> Inr x) = r"
  by (cases r) auto

lemma unat_2p: "k < LENGTH('a) \<Longrightarrow> unat ((2 :: ('a::len) word) ^ k) = 2 ^ k"
proof -
  assume k: "k < LENGTH('a)"
  have "(2 :: 'a word) ^ k = of_nat (2 ^ k)" by simp
  then have "unat ((2 :: 'a word) ^ k) = 2 ^ k mod 2 ^ LENGTH('a)"
    by (simp only: unat_of_nat)
  also from k have "(2 :: nat) ^ k < 2 ^ LENGTH('a)" by simp
  then have "2 ^ k mod 2 ^ LENGTH('a) = (2 :: nat) ^ k" by (rule mod_less)
  finally show ?thesis .
qed

lemma unat_minus_one_word: "unat (- 1 :: ('a::len) word) = 2 ^ LENGTH('a) - 1"
  by (simp add: unsigned_minus_1_eq_mask mask_eq_exp_minus_1)

lemma unat_Suc_word: "w \<noteq> -1 \<Longrightarrow> unat (w + 1) = Suc (unat (w :: ('a::len) word))"
  by (metis add.commute unatSuc add_eq_0_iff)

end
