(* ===== verification/Big.thy ===== *)
theory Big
  imports Prelude
begin

text \<open>
  The operations of Go's \<^verbatim>\<open>math/big\<close> that the sources use, on natural numbers and
  integers: big-endian bytes, bit length, and the modular inverse (by the extended Euclidean
  algorithm; Go documents only the result).
\<close>

section \<open>Big-endian bytes\<close>

text \<open>\<open>SetBytes\<close> reads any byte string, \<open>Bytes\<close> writes the shortest one.\<close>

definition SetBytes :: "bytes \<Rightarrow> nat" where
  "SetBytes bs = foldl (\<lambda>v b. v * 256 + unat b) 0 bs"

fun Bytes :: "nat \<Rightarrow> bytes" where
  "Bytes n = (if n = 0 then [] else Bytes (n div 256) @ [of_nat (n mod 256)])"

declare Bytes.simps [simp del]

definition FillBytes :: "nat \<Rightarrow> nat \<Rightarrow> bytes" where
  "FillBytes len x = replicate (len - length (Bytes x)) 0 @ Bytes x"

lemma SetBytes_Nil [simp]: "SetBytes [] = 0"
  by (simp add: SetBytes_def)

lemma SetBytes_snoc: "SetBytes (bs @ [b]) = SetBytes bs * 256 + unat b"
  by (simp add: SetBytes_def)

lemma SetBytes_append: "SetBytes (xs @ ys) = SetBytes xs * 256 ^ length ys + SetBytes ys"
proof (induction ys rule: rev_induct)
  case (snoc y ys)
  then show ?case by (simp add: SetBytes_snoc append_assoc [symmetric] algebra_simps del: append_assoc)
qed simp

lemma SetBytes_bound: "SetBytes bs < 256 ^ length bs"
proof (induction bs rule: rev_induct)
  case (snoc b bs)
  then have "SetBytes bs * 256 + unat b < 256 * 256 ^ length bs"
    using unsigned_less [of b, where 'a = nat] by simp
  then show ?case by (simp add: SetBytes_snoc)
qed simp

lemma SetBytes_zeros: "SetBytes (replicate n 0 @ bs) = SetBytes bs"
proof -
  have "SetBytes (replicate n 0) = 0"
    by (induction n) (simp_all add: SetBytes_snoc replicate_append_same [symmetric])
  then show ?thesis by (simp add: SetBytes_append)
qed

lemma SetBytes_Bytes [simp]: "SetBytes (Bytes n) = n"
proof (induction n rule: Bytes.induct)
  case (1 n)
  have "unat (of_nat (n mod 256) :: byte) = n mod 256" by (simp add: unat_of_nat)
  with 1 show ?case by (cases "n = 0") (simp_all add: Bytes.simps [of n] Bytes.simps [of 0] SetBytes_snoc)
qed

lemma SetBytes_inj: "length xs = length ys \<Longrightarrow> SetBytes xs = SetBytes ys \<Longrightarrow> xs = ys"
proof (induction xs arbitrary: ys rule: rev_induct)
  case (snoc x xs)
  then obtain zs z where ys: "ys = zs @ [z]" by (metis append_butlast_last_id length_0_conv length_append_singleton nat.distinct(1))
  have b: "unat x < 256" "unat z < 256" using unsigned_less [of x, where 'a = nat] unsigned_less [of z, where 'a = nat] by simp_all
  from snoc.prems ys have eq: "SetBytes xs * 256 + unat x = SetBytes zs * 256 + unat z" by (simp add: SetBytes_snoc)
  then have "(SetBytes xs * 256 + unat x) mod 256 = (SetBytes zs * 256 + unat z) mod 256" by simp
  with b have "unat x = unat z" by simp
  with eq snoc ys show ?case by (simp add: word_unat_eq_iff)
qed simp

lemma Bytes_length: "n < 256 ^ k \<Longrightarrow> length (Bytes n) \<le> k"
proof (induction n arbitrary: k rule: Bytes.induct)
  case (1 n)
  show ?case
  proof (cases "n = 0")
    case False
    with "1.prems" obtain j where k: "k = Suc j" by (cases k) auto
    with "1.prems" have "n div 256 < 256 ^ j" by (auto simp: less_mult_imp_div_less)
    with "1.IH" False k show ?thesis by (simp add: Bytes.simps [of n])
  qed (simp add: Bytes.simps)
qed

lemma Bytes_hd: "n \<noteq> 0 \<Longrightarrow> Bytes n \<noteq> [] \<and> hd (Bytes n) \<noteq> 0"
proof (induction n rule: Bytes.induct)
  case (1 n)
  show ?case
  proof (cases "n < 256")
    case True
    then have "unat (of_nat n :: byte) = n" by (simp add: unat_of_nat)
    with True "1.prems" show ?thesis by (simp add: Bytes.simps [of n] Bytes.simps [of 0] word_unat_eq_iff)
  next
    case False
    with 1 have "Bytes (n div 256) \<noteq> []" "hd (Bytes (n div 256)) \<noteq> 0" by simp_all
    with "1.prems" show ?thesis by (simp add: Bytes.simps [of n])
  qed
qed

lemma FillBytes_length: "n < 256 ^ k \<Longrightarrow> length (FillBytes k n) = k"
  by (simp add: FillBytes_def Bytes_length)

lemma SetBytes_FillBytes [simp]: "SetBytes (FillBytes k n) = n"
  by (simp add: FillBytes_def SetBytes_zeros)

lemma FillBytes_SetBytes: "FillBytes (length bs) (SetBytes bs) = bs"
  by (rule SetBytes_inj) (simp_all add: FillBytes_length SetBytes_bound)

section \<open>Bit length and modular inverse\<close>

fun BitLen :: "nat \<Rightarrow> nat" where
  "BitLen n = (if n = 0 then 0 else Suc (BitLen (n div 2)))"

declare BitLen.simps [simp del]

text \<open>One branch of the extended Euclidean algorithm: \<open>r\<close> stays congruent to \<open>s * a\<close>.\<close>

function egcd_loop :: "int \<Rightarrow> int \<Rightarrow> int \<Rightarrow> int \<Rightarrow> int \<times> int" where
  "egcd_loop r0 s0 r1 s1 =
     (if r1 \<le> 0 then (r0, s0) else egcd_loop r1 s1 (r0 mod r1) (s0 - (r0 div r1) * s1))"
  by pat_completeness auto
termination
  by (relation "measure (\<lambda>(r0, s0, r1, s1). nat r1)") auto

declare egcd_loop.simps [simp del]

definition ModInverse :: "int \<Rightarrow> int \<Rightarrow> int option" where
  "ModInverse a n =
     (let (g, s) = egcd_loop (a mod n) 1 n 0 in if g = 1 then Some (s mod n) else None)"

lemma egcd_loop_cong:
  assumes "egcd_loop r0 s0 r1 s1 = (g, s)" and "n dvd r0 - s0 * a" and "n dvd r1 - s1 * a"
  shows "n dvd g - s * a"
  using assms
proof (induction r0 s0 r1 s1 rule: egcd_loop.induct)
  case (1 r0 s0 r1 s1)
  show ?case
  proof (cases "r1 \<le> 0")
    case True
    with "1.prems" show ?thesis by (simp add: egcd_loop.simps [of r0])
  next
    case False
    have "r0 mod r1 - (s0 - r0 div r1 * s1) * a = (r0 - s0 * a) - r0 div r1 * (r1 - s1 * a)"
      by (simp add: algebra_simps minus_div_mult_eq_mod [symmetric])
    then have "n dvd r0 mod r1 - (s0 - r0 div r1 * s1) * a" using "1.prems"(2,3) by simp
    with 1 False show ?thesis by (simp add: egcd_loop.simps [of r0])
  qed
qed

lemma ModInverse_correct:
  assumes "ModInverse a n = Some w" and "1 < n"
  shows "a * w mod n = 1" and "0 \<le> w" and "w < n"
proof -
  obtain g s where e: "egcd_loop (a mod n) 1 n 0 = (g, s)" by (cases "egcd_loop (a mod n) 1 n 0")
  with assms(1) have g: "g = 1" and w: "w = s mod n" by (auto simp: ModInverse_def split: if_splits)
  have "n dvd g - s * a"
    by (rule egcd_loop_cong [OF e]) (simp_all add: mod_eq_dvd_iff [symmetric])
  then have "s * a mod n = 1 mod n" by (simp add: g mod_eq_dvd_iff [symmetric])
  then show "a * w mod n = 1" using assms(2) by (simp add: w mult.commute mod_mult_right_eq)
  show "0 \<le> w" "w < n" using assms(2) by (simp_all add: w)
qed

end
