(* ===== verification/Field.thy ===== *)
theory Field
  imports Big
begin

text \<open>
  \<^verbatim>\<open>crypto/ct.go\<close>: arithmetic modulo the secp256k1 prime on four 64-bit limbs, and the
  double-and-add-always scalar multiplication built on it. The limb operations use the carry,
  borrow and widening multiplication of Go's \<^verbatim>\<open>math/bits\<close> and are written as in the source,
  wrap-around included; the lemmas show that every carry chain is exact and every field
  operation is the operation modulo \<open>p\<close>.
\<close>

unbundle bit_operations_syntax

section \<open>Carry, borrow and widening product\<close>

definition Add64 :: "uint64 \<Rightarrow> uint64 \<Rightarrow> uint64 \<Rightarrow> uint64 \<times> uint64" where
  "Add64 x y carry = (x + y + carry, if 2 ^ 64 \<le> unat x + unat y + unat carry then 1 else 0)"

definition Sub64 :: "uint64 \<Rightarrow> uint64 \<Rightarrow> uint64 \<Rightarrow> uint64 \<times> uint64" where
  "Sub64 x y borrow = (x - y - borrow, if unat x < unat y + unat borrow then 1 else 0)"

definition Mul64 :: "uint64 \<Rightarrow> uint64 \<Rightarrow> uint64 \<times> uint64" where
  "Mul64 x y = (of_nat (unat x * unat y div 2 ^ 64), x * y)"

section \<open>Field elements\<close>

text \<open>A Go array \<^verbatim>\<open>[4]uint64\<close>, least significant limb first.\<close>

datatype fe = Fe (fe0: uint64) (fe1: uint64) (fe2: uint64) (fe3: uint64)

definition feC :: uint64 where
  "feC = 0x1000003D1"

definition pl :: fe where
  "pl = Fe 0xFFFFFFFEFFFFFC2F 0xFFFFFFFFFFFFFFFF 0xFFFFFFFFFFFFFFFF 0xFFFFFFFFFFFFFFFF"

definition be_word :: "bytes \<Rightarrow> uint64" where
  "be_word bs = of_be_bytes bs"

definition limbs_of :: "bytes \<Rightarrow> fe" where
  "limbs_of b = Fe (be_word (take 8 (drop 24 b))) (be_word (take 8 (drop 16 b)))
     (be_word (take 8 (drop 8 b))) (be_word (take 8 b))"

definition feFromBig :: "nat \<Rightarrow> fe" where
  "feFromBig x = limbs_of (FillBytes 32 x)"

definition fe_big :: "fe \<Rightarrow> nat" where
  "fe_big f = SetBytes (be64 (fe3 f) @ be64 (fe2 f) @ be64 (fe1 f) @ be64 (fe0 f))"

definition scalarBits :: "nat \<Rightarrow> fe" where
  "scalarBits k = limbs_of (FillBytes 32 k)"

definition feCondSubP :: "fe \<Rightarrow> fe" where
  "feCondSubP a =
     (let (r0, b) = Sub64 (fe0 a) (fe0 pl) 0;
          (r1, b) = Sub64 (fe1 a) (fe1 pl) b;
          (r2, b) = Sub64 (fe2 a) (fe2 pl) b;
          (r3, b) = Sub64 (fe3 a) (fe3 pl) b;
          mask = b - 1
      in Fe ((r0 AND mask) OR (fe0 a AND NOT mask)) ((r1 AND mask) OR (fe1 a AND NOT mask))
            ((r2 AND mask) OR (fe2 a AND NOT mask)) ((r3 AND mask) OR (fe3 a AND NOT mask)))"

text \<open>Adding one word and propagating the carry through the four limbs.\<close>

definition fold_word :: "fe \<Rightarrow> uint64 \<Rightarrow> uint64 \<Rightarrow> fe \<times> uint64" where
  "fold_word r w0 w1 =
     (let (r0, c) = Add64 (fe0 r) w0 0;
          (r1, c) = Add64 (fe1 r) w1 c;
          (r2, c) = Add64 (fe2 r) 0 c;
          (r3, c) = Add64 (fe3 r) 0 c
      in (Fe r0 r1 r2 r3, c))"

definition add4 :: "fe \<Rightarrow> fe \<Rightarrow> fe \<times> uint64" where
  "add4 a b =
     (let (r0, c) = Add64 (fe0 a) (fe0 b) 0;
          (r1, c) = Add64 (fe1 a) (fe1 b) c;
          (r2, c) = Add64 (fe2 a) (fe2 b) c;
          (r3, c) = Add64 (fe3 a) (fe3 b) c
      in (Fe r0 r1 r2 r3, c))"

definition feAdd :: "fe \<Rightarrow> fe \<Rightarrow> fe" where
  "feAdd a b =
     (let (r, c) = add4 a b;
          (r, c) = fold_word r (c * feC) 0;
          (r, c) = fold_word r (c * feC) 0
      in feCondSubP r)"

definition sub4 :: "fe \<Rightarrow> fe \<Rightarrow> fe \<times> uint64" where
  "sub4 a b =
     (let (r0, br) = Sub64 (fe0 a) (fe0 b) 0;
          (r1, br) = Sub64 (fe1 a) (fe1 b) br;
          (r2, br) = Sub64 (fe2 a) (fe2 b) br;
          (r3, br) = Sub64 (fe3 a) (fe3 b) br
      in (Fe r0 r1 r2 r3, br))"

definition feSub :: "fe \<Rightarrow> fe \<Rightarrow> fe" where
  "feSub a b =
     (let (r, br) = sub4 a b;
          mask = 0 - br
      in fst (add4 r (Fe (fe0 pl AND mask) (fe1 pl AND mask) (fe2 pl AND mask) (fe3 pl AND mask))))"

text \<open>The limb of an array by index; the loops of the source index within bounds.\<close>

definition limbs :: "fe \<Rightarrow> uint64 list" where
  "limbs f = [fe0 f, fe1 f, fe2 f, fe3 f]"

text \<open>\<^verbatim>\<open>mul256by64\<close>: the loop over the limbs of \<open>a\<close>, with the carry.\<close>

fun mul_word_loop :: "uint64 list \<Rightarrow> uint64 \<Rightarrow> uint64 \<Rightarrow> uint64 list" where
  "mul_word_loop [] b carry = [carry]"
| "mul_word_loop (x # xs) b carry =
     (let (hi, lo) = Mul64 x b;
          (s, c) = Add64 lo carry 0
      in s # mul_word_loop xs b (hi + c))"

definition mul256by64 :: "uint64 list \<Rightarrow> uint64 \<Rightarrow> uint64 list" where
  "mul256by64 a b = mul_word_loop a b 0"

text \<open>The inner loop of \<open>feMul\<close> over \<open>j\<close>, on the accumulator \<open>t\<close> at position \<open>k = i + j\<close>.\<close>

fun mul_inner :: "uint64 \<Rightarrow> uint64 list \<Rightarrow> nat \<Rightarrow> uint64 list \<Rightarrow> uint64 \<Rightarrow> uint64 list \<times> uint64" where
  "mul_inner ai [] k t carry = (t, carry)"
| "mul_inner ai (bj # bs) k t carry =
     (let (hi, lo) = Mul64 ai bj;
          (s, c1) = Add64 (t ! k) lo 0;
          (s, c2) = Add64 s carry 0
      in mul_inner ai bs (Suc k) (t[k := s]) (hi + c1 + c2))"

fun mul_outer :: "uint64 list \<Rightarrow> uint64 list \<Rightarrow> nat \<Rightarrow> uint64 list \<Rightarrow> uint64 list" where
  "mul_outer [] b i t = t"
| "mul_outer (ai # as) b i t =
     (let (t, carry) = mul_inner ai b i t 0
      in mul_outer as b (Suc i) (t[i + 4 := t ! (i + 4) + carry]))"

definition feMul :: "fe \<Rightarrow> fe \<Rightarrow> fe" where
  "feMul a b =
     (let t = mul_outer (limbs a) (limbs b) 0 (replicate 8 0);
          m = mul256by64 [t ! 4, t ! 5, t ! 6, t ! 7] feC;
          (r, c) = add4 (Fe (t ! 0) (t ! 1) (t ! 2) (t ! 3)) (Fe (m ! 0) (m ! 1) (m ! 2) (m ! 3));
          r4 = m ! 4 + c;
          (h4, l4) = Mul64 r4 feC;
          (r, c) = fold_word r l4 h4;
          (r, c) = fold_word r (c * feC) 0
      in feCondSubP r)"

definition feSqr :: "fe \<Rightarrow> fe" where
  "feSqr a = feMul a a"

text \<open>The bits of a four-limb number, most significant first, as the two nested loops visit them.\<close>

definition bits_desc :: "fe \<Rightarrow> bool list" where
  "bits_desc e = concat (map (\<lambda>w. map (\<lambda>i. bit w (63 - i)) [0..<64]) [fe3 e, fe2 e, fe1 e, fe0 e])"

definition feInv :: "fe \<Rightarrow> fe" where
  "feInv a =
     foldl (\<lambda>res b. let res = feSqr res in if b then feMul res a else res) (Fe 1 0 0 0)
       (bits_desc (Fe 0xFFFFFFFEFFFFFC2D 0xFFFFFFFFFFFFFFFF 0xFFFFFFFFFFFFFFFF 0xFFFFFFFFFFFFFFFF))"

definition feIsZero :: "fe \<Rightarrow> bool" where
  "feIsZero a = (fe0 a OR fe1 a OR fe2 a OR fe3 a = 0)"

definition feCSelect :: "uint64 \<Rightarrow> fe \<Rightarrow> fe \<Rightarrow> fe" where
  "feCSelect ch a b =
     (let mask = 0 - ch
      in Fe ((fe0 a AND mask) OR (fe0 b AND NOT mask)) ((fe1 a AND mask) OR (fe1 b AND NOT mask))
            ((fe2 a AND mask) OR (fe2 b AND NOT mask)) ((fe3 a AND mask) OR (fe3 b AND NOT mask)))"

section \<open>Points\<close>

record jac =
  jX :: fe
  jY :: fe
  jZ :: fe

definition feB3 :: fe where
  "feB3 = Fe 21 0 0 0"

definition completeAdd :: "jac \<Rightarrow> jac \<Rightarrow> jac" where
  "completeAdd p q =
     (let X1 = jX p; Y1 = jY p; Z1 = jZ p; X2 = jX q; Y2 = jY q; Z2 = jZ q;
          t0 = feMul X1 X2;
          t1 = feMul Y1 Y2;
          t2 = feMul Z1 Z2;
          t3 = feAdd X1 Y1;
          t4 = feAdd X2 Y2;
          t3 = feMul t3 t4;
          t4 = feAdd t0 t1;
          t3 = feSub t3 t4;
          t4 = feAdd Y1 Z1;
          X3 = feAdd Y2 Z2;
          t4 = feMul t4 X3;
          X3 = feAdd t1 t2;
          t4 = feSub t4 X3;
          X3 = feAdd X1 Z1;
          Y3 = feAdd X2 Z2;
          X3 = feMul X3 Y3;
          Y3 = feAdd t0 t2;
          Y3 = feSub X3 Y3;
          X3 = feAdd t0 t0;
          t0 = feAdd X3 t0;
          t2 = feMul feB3 t2;
          Z3 = feAdd t1 t2;
          t1 = feSub t1 t2;
          Y3 = feMul feB3 Y3;
          X3 = feMul t4 Y3;
          t2 = feMul t3 t1;
          X3 = feSub t2 X3;
          Y3 = feMul Y3 t0;
          t1 = feMul t1 Z3;
          Y3 = feAdd t1 Y3;
          t0 = feMul t0 t3;
          Z3 = feMul Z3 t4;
          Z3 = feAdd Z3 t0
      in \<lparr>jX = X3, jY = Y3, jZ = Z3\<rparr>)"

definition jacCSelect :: "uint64 \<Rightarrow> jac \<Rightarrow> jac \<Rightarrow> jac" where
  "jacCSelect ch a b =
     \<lparr>jX = feCSelect ch (jX a) (jX b), jY = feCSelect ch (jY a) (jY b), jZ = feCSelect ch (jZ a) (jZ b)\<rparr>"

definition jac_identity :: jac where
  "jac_identity = \<lparr>jX = Fe 0 0 0 0, jY = Fe 1 0 0 0, jZ = Fe 0 0 0 0\<rparr>"

definition scalarMultCT :: "fe \<Rightarrow> jac \<Rightarrow> jac" where
  "scalarMultCT kBits P =
     foldl (\<lambda>R (w, i).
         let R = completeAdd R R; T = completeAdd R P; b = (drop_bit i w) AND 1
         in jacCSelect b T R)
       jac_identity
       (concat (map (\<lambda>w. map (\<lambda>i. (w, 63 - i)) [0..<64]) [fe3 kBits, fe2 kBits, fe1 kBits, fe0 kBits]))"

definition affineX :: "jac \<Rightarrow> fe" where
  "affineX P = (let zi = feInv (jZ P) in feMul (jX P) zi)"

definition affineXY :: "jac \<Rightarrow> fe \<times> fe" where
  "affineXY P = (let zi = feInv (jZ P) in (feMul (jX P) zi, feMul (jY P) zi))"

section \<open>The limb operations are exact\<close>

definition fe_p :: int where
  "fe_p = 2 ^ 256 - 2 ^ 32 - 977"

definition val :: "fe \<Rightarrow> int" where
  "val f = uint (fe0 f) + 2 ^ 64 * uint (fe1 f) + 2 ^ 128 * uint (fe2 f) + 2 ^ 192 * uint (fe3 f)"

lemma uint64_bound: "0 \<le> uint (x :: uint64)" "uint (x :: uint64) < 2 ^ 64"
  using uint_range_size [of x] by (simp_all add: word_size)

lemma two64: "(2 :: int) ^ 64 = 18446744073709551616" "(2 :: nat) ^ 64 = 18446744073709551616"
  by simp_all

lemma val_bound: "0 \<le> val f" "val f < 2 ^ 256"
  using uint64_bound [of "fe0 f"] uint64_bound [of "fe1 f"] uint64_bound [of "fe2 f"] uint64_bound [of "fe3 f"]
  by (simp_all add: val_def)

lemma wrap_once:
  fixes X B :: int
  assumes "0 \<le> X" and "X < 2 * B"
  shows "X mod B + B * (if B \<le> X then 1 else 0) = X"
proof (cases "B \<le> X")
  case True
  have "X mod B = (X - B) mod B" by simp
  also have "\<dots> = X - B" using True assms by (intro mod_pos_pos_trivial) simp_all
  finally show ?thesis using True by simp
qed (use assms in simp)

lemma int_unat3: "int (unat x + unat y + unat z) = uint x + uint y + uint (z :: uint64)" for x y :: uint64
  by simp

lemma Add64_exact:
  assumes "Add64 x y c = (s, c')" and "uint c \<le> 1"
  shows "uint s + 2 ^ 64 * uint c' = uint x + uint y + uint c" and "uint c' \<le> 1"
proof -
  let ?X = "uint x + uint y + uint c"
  have X: "0 \<le> ?X" "?X < 2 * 2 ^ 64" using uint64_bound [of x] uint64_bound [of y] uint64_bound [of c] assms(2)
    unfolding two64 by linarith+
  have s: "uint s = ?X mod 2 ^ 64"
    using assms(1) by (auto simp: Add64_def uint_word_ariths mod_simps)
  have "(2 ^ 64 \<le> unat x + unat y + unat c) = (2 ^ 64 \<le> ?X)"
    using int_unat3 [of x y c] unfolding two64 by linarith
  then have c: "uint c' = (if 2 ^ 64 \<le> ?X then 1 else 0)"
    using assms(1) by (simp add: Add64_def split: if_splits)
  show "uint s + 2 ^ 64 * uint c' = ?X"
    unfolding s c by (rule wrap_once [OF X])
  show "uint c' \<le> 1" by (simp add: c)
qed

lemma Sub64_exact:
  assumes "Sub64 x y b = (s, b')" and "uint b \<le> 1"
  shows "uint s - 2 ^ 64 * uint b' = uint x - uint y - uint b" and "uint b' \<le> 1"
proof -
  let ?X = "uint x - uint y - uint b"
  have X: "0 \<le> ?X + 2 ^ 64" "?X + 2 ^ 64 < 2 * 2 ^ 64"
    using uint64_bound [of x] uint64_bound [of y] uint64_bound [of b] assms(2)
    unfolding two64 by linarith+
  have s: "uint s = (?X + 2 ^ 64) mod 2 ^ 64"
    using assms(1) by (auto simp: Sub64_def uint_word_ariths mod_simps)
  have "int (unat x) = uint x" "int (unat y + unat b) = uint y + uint b" by simp_all
  then have "(unat x < unat y + unat b) = (\<not> 2 ^ 64 \<le> ?X + 2 ^ 64)" unfolding two64 by linarith
  then have b: "uint b' = 1 - (if 2 ^ 64 \<le> ?X + 2 ^ 64 then 1 else 0)"
    using assms(1) by (simp add: Sub64_def split: if_splits)
  show "uint s - 2 ^ 64 * uint b' = ?X"
    using wrap_once [OF X] unfolding s b by (simp add: algebra_simps)
  show "uint b' \<le> 1" by (simp add: b)
qed

lemma Mul64_exact:
  assumes "Mul64 x y = (hi, lo)"
  shows "uint lo + 2 ^ 64 * uint hi = uint x * uint y"
proof -
  have lo: "uint lo = (uint x * uint y) mod 2 ^ 64"
    using assms by (auto simp: Mul64_def uint_word_ariths)
  have "unat x * unat y div 2 ^ 64 < 2 ^ 64"
  proof -
    have "unat x * unat y < 2 ^ 64 * 2 ^ 64"
      using unsigned_less [of x, where 'a = nat] unsigned_less [of y, where 'a = nat]
      by (intro mult_strict_mono) simp_all
    then show ?thesis by (simp add: less_mult_imp_div_less)
  qed
  then have "unat hi = unat x * unat y div 2 ^ 64"
    using assms by (auto simp: Mul64_def unat_of_nat)
  then have "uint hi = uint x * uint y div 2 ^ 64"
  proof -
    assume "unat hi = unat x * unat y div 2 ^ 64"
    then have "int (unat hi) = int (unat x) * int (unat y) div 2 ^ 64" by (simp add: zdiv_int)
    then show ?thesis by simp
  qed
  with lo show ?thesis by simp
qed

lemma Add64_exact0:
  assumes "Add64 x y 0 = (s, c')"
  shows "uint s + 2 ^ 64 * uint c' = uint x + uint y" and "uint c' \<le> 1"
  using Add64_exact [OF assms] by simp_all

lemma add4_exact:
  assumes "add4 a b = (r, c)"
  shows "val r + 2 ^ 256 * uint c = val a + val b" and "uint c \<le> 1"
proof -
  obtain r0 c0 where 0: "Add64 (fe0 a) (fe0 b) 0 = (r0, c0)" by (cases "Add64 (fe0 a) (fe0 b) 0")
  obtain r1 c1 where 1: "Add64 (fe1 a) (fe1 b) c0 = (r1, c1)" by (cases "Add64 (fe1 a) (fe1 b) c0")
  obtain r2 c2 where 2: "Add64 (fe2 a) (fe2 b) c1 = (r2, c2)" by (cases "Add64 (fe2 a) (fe2 b) c1")
  obtain r3 c3 where 3: "Add64 (fe3 a) (fe3 b) c2 = (r3, c3)" by (cases "Add64 (fe3 a) (fe3 b) c2")
  have r: "r = Fe r0 r1 r2 r3" "c = c3" using assms 0 1 2 3 by (auto simp: add4_def)
  have z: "uint (0 :: uint64) \<le> 1" by simp
  note e0 = Add64_exact [OF 0 z] note e1 = Add64_exact [OF 1 e0(2)]
  note e2 = Add64_exact [OF 2 e1(2)] note e3 = Add64_exact [OF 3 e2(2)]
  show "val r + 2 ^ 256 * uint c = val a + val b" using e0(1) e1(1) e2(1) e3(1) by (simp add: r val_def)
  show "uint c \<le> 1" using e3(2) by (simp add: r)
qed

lemma fold_word_add4: "fold_word r w0 w1 = add4 r (Fe w0 w1 0 0)"
  by (simp add: fold_word_def add4_def)

lemma fold_word_exact:
  assumes "fold_word r w0 w1 = (r', c)"
  shows "val r' + 2 ^ 256 * uint c = val r + uint w0 + 2 ^ 64 * uint w1" and "uint c \<le> 1"
  using add4_exact [OF assms [unfolded fold_word_add4]] by (simp_all add: val_def)

lemma sub4_exact:
  assumes "sub4 a b = (r, c)"
  shows "val r - 2 ^ 256 * uint c = val a - val b" and "uint c \<le> 1"
proof -
  obtain r0 c0 where 0: "Sub64 (fe0 a) (fe0 b) 0 = (r0, c0)" by (cases "Sub64 (fe0 a) (fe0 b) 0")
  obtain r1 c1 where 1: "Sub64 (fe1 a) (fe1 b) c0 = (r1, c1)" by (cases "Sub64 (fe1 a) (fe1 b) c0")
  obtain r2 c2 where 2: "Sub64 (fe2 a) (fe2 b) c1 = (r2, c2)" by (cases "Sub64 (fe2 a) (fe2 b) c1")
  obtain r3 c3 where 3: "Sub64 (fe3 a) (fe3 b) c2 = (r3, c3)" by (cases "Sub64 (fe3 a) (fe3 b) c2")
  have r: "r = Fe r0 r1 r2 r3" "c = c3" using assms 0 1 2 3 by (auto simp: sub4_def)
  have z: "uint (0 :: uint64) \<le> 1" by simp
  note e0 = Sub64_exact [OF 0 z] note e1 = Sub64_exact [OF 1 e0(2)]
  note e2 = Sub64_exact [OF 2 e1(2)] note e3 = Sub64_exact [OF 3 e2(2)]
  show "val r - 2 ^ 256 * uint c = val a - val b" using e0(1) e1(1) e2(1) e3(1) by (simp add: r val_def)
  show "uint c \<le> 1" using e3(2) by (simp add: r)
qed

lemma uint64_01: "uint (c :: uint64) \<le> 1 \<Longrightarrow> c = 0 \<or> c = 1"
proof -
  assume "uint c \<le> 1"
  then have "uint c = 0 \<or> uint c = 1" using uint64_bound(1) [of c] by linarith
  then show ?thesis by (auto simp: word_uint_eq_iff)
qed

lemma val_pl: "val pl = fe_p"
  by (simp add: pl_def val_def fe_p_def)

lemma feCondSubP_sub4:
  "feCondSubP a = (case sub4 a pl of (r, b) \<Rightarrow>
     Fe ((fe0 r AND (b - 1)) OR (fe0 a AND NOT (b - 1))) ((fe1 r AND (b - 1)) OR (fe1 a AND NOT (b - 1)))
        ((fe2 r AND (b - 1)) OR (fe2 a AND NOT (b - 1))) ((fe3 r AND (b - 1)) OR (fe3 a AND NOT (b - 1))))"
  by (simp add: feCondSubP_def sub4_def Let_def split: prod.split)

lemma p_bound: "2 ^ 255 < fe_p" "fe_p < 2 ^ 256"
  by (simp_all add: fe_p_def)

lemma feCondSubP_val: "val (feCondSubP a) = val a mod fe_p"
proof -
  obtain r b where s: "sub4 a pl = (r, b)" by (cases "sub4 a pl")
  note e = sub4_exact [OF s, unfolded val_pl]
  have "val (feCondSubP a) = (if b = 0 then val r else val a)"
    using uint64_01 [OF e(2)] by (auto simp: feCondSubP_sub4 s val_def)
  also have "\<dots> = val a mod fe_p"
  proof (cases "b = 0")
    case True
    then have v: "val r = val a - fe_p" using e(1) by simp
    have "0 \<le> val a - fe_p" using val_bound(1) [of r] v by simp
    moreover have "val a - fe_p < fe_p" using val_bound(2) [of a] by (simp add: fe_p_def)
    ultimately have "(val a - fe_p) mod fe_p = val a - fe_p" by (rule mod_pos_pos_trivial)
    then show ?thesis using True v by simp
  next
    case False
    then have "b = 1" using uint64_01 [OF e(2)] by simp
    then have "val a < fe_p" using e(1) val_bound(2) [of r] by simp
    then show ?thesis using False val_bound(1) [of a] by simp
  qed
  finally show ?thesis .
qed

lemma two256: "(2 :: int) ^ 256 = fe_p + uint feC"
  by (simp add: fe_p_def feC_def)

lemma uint_carry_feC: "uint c \<le> 1 \<Longrightarrow> uint (c * feC) = uint c * uint feC"
  by (drule uint64_01) auto

lemma feAdd_val: "val (feAdd a b) = (val a + val b) mod fe_p"
proof -
  obtain r c where 1: "add4 a b = (r, c)" by (cases "add4 a b")
  obtain r' c' where 2: "fold_word r (c * feC) 0 = (r', c')" by (cases "fold_word r (c * feC) 0")
  obtain r'' c'' where 3: "fold_word r' (c' * feC) 0 = (r'', c'')" by (cases "fold_word r' (c' * feC) 0")
  note e1 = add4_exact [OF 1] and e2 = fold_word_exact [OF 2] and e3 = fold_word_exact [OF 3]
  have C: "uint feC = 4294968273" by (simp add: feC_def)
  have v1: "val r + fe_p * uint c + uint c * uint feC = val a + val b" using e1(1) [unfolded two256] by (simp add: algebra_simps)
  have v2: "val r' + fe_p * uint c' + uint c' * uint feC = val r + uint c * uint feC"
    using e2(1) [unfolded two256 uint_carry_feC [OF e1(2)]] by (simp add: algebra_simps)
  have v3: "val r'' + 2 ^ 256 * uint c'' = val r' + uint c' * uint feC"
    using e3(1) [unfolded uint_carry_feC [OF e2(2)]] by simp
  have "uint c'' = 0"
  proof (cases "c' = 0")
    case True
    with v3 e3(2) val_bound [of r'] val_bound [of r''] uint64_01 [OF e3(2)] show ?thesis by auto
  next
    case False
    then have "c' = 1" using uint64_01 [OF e2(2)] by simp
    then have "val r' < uint feC"
      using v2 val_bound(2) [of r] uint64_01 [OF e1(2)] C by (auto simp: fe_p_def)
    with v3 \<open>c' = 1\<close> val_bound(1) [of r''] uint64_01 [OF e3(2)] C show ?thesis by auto
  qed
  then have "val r'' = val a + val b - fe_p * (uint c + uint c')" using v1 v2 v3 by (simp add: algebra_simps)
  then have "val r'' mod fe_p = (val a + val b) mod fe_p" by (simp add: mod_eq_dvd_iff)
  then show ?thesis by (simp add: feAdd_def 1 2 3 feCondSubP_val)
qed

lemma feSub_val:
  assumes "val a < fe_p" and "val b < fe_p"
  shows "val (feSub a b) = (val a - val b) mod fe_p"
proof -
  obtain r c where 1: "sub4 a b = (r, c)" by (cases "sub4 a b")
  note e = sub4_exact [OF 1]
  obtain r' c' where 2: "add4 r (Fe (fe0 pl AND (0 - c)) (fe1 pl AND (0 - c)) (fe2 pl AND (0 - c)) (fe3 pl AND (0 - c))) = (r', c')"
    by (cases "add4 r (Fe (fe0 pl AND (0 - c)) (fe1 pl AND (0 - c)) (fe2 pl AND (0 - c)) (fe3 pl AND (0 - c)))")
  have m: "val (Fe (fe0 pl AND (0 - c)) (fe1 pl AND (0 - c)) (fe2 pl AND (0 - c)) (fe3 pl AND (0 - c))) = fe_p * uint c"
    using uint64_01 [OF e(2)] val_pl by (auto simp: val_def)
  note f = add4_exact [OF 2, unfolded m]
  have "val r' = (val a - val b) mod fe_p"
  proof (cases "c = 0")
    case True
    then have "val r = val a - val b" using e(1) by simp
    then have "val r' = val a - val b"
      using True f val_bound [of r] val_bound [of r'] uint64_01 [OF f(2)] by auto
    moreover have "0 \<le> val a - val b" using \<open>val r = _\<close> val_bound(1) [of r] by simp
    ultimately show ?thesis using assms(1) val_bound(1) [of b] by simp
  next
    case False
    then have c: "c = 1" using uint64_01 [OF e(2)] by simp
    have "val r' = val a - val b + fe_p"
      using c e(1) f assms val_bound [of a] val_bound [of b] val_bound [of r'] uint64_01 [OF f(2)]
      by (auto simp: fe_p_def)
    moreover have "val a - val b < 0" using c e(1) val_bound(2) [of r] by simp
    moreover have "(val a - val b + fe_p) mod fe_p = val a - val b + fe_p"
      by (rule mod_pos_pos_trivial) (use calculation assms val_bound(1) [of a] in linarith)+
    ultimately show ?thesis by simp
  qed
  then show ?thesis using 2 by (simp add: feSub_def 1 Let_def)
qed

section \<open>Multiplication\<close>

text \<open>The value of a little-endian limb list.\<close>

fun lval :: "uint64 list \<Rightarrow> int" where
  "lval [] = 0"
| "lval (x # xs) = uint x + 2 ^ 64 * lval xs"

lemma lval_nonneg: "0 \<le> lval xs"
  by (induction xs) simp_all

lemma lval_bound: "lval xs < (2 ^ 64) ^ length xs"
proof (induction xs)
  case (Cons x xs)
  have "lval (x # xs) < 2 ^ 64 * (lval xs + 1)" using uint64_bound(2) [of x] by simp
  also have "\<dots> \<le> 2 ^ 64 * (2 ^ 64) ^ length xs" using Cons by (intro mult_left_mono) simp_all
  finally show ?case by simp
qed simp

lemma lval_limbs: "lval (limbs f) = val f"
  by (simp add: limbs_def val_def)

lemma lval_update:
  "k < length t \<Longrightarrow> lval (t[k := s]) = lval t + (uint s - uint (t ! k)) * (2 ^ 64) ^ k"
proof (induction t arbitrary: k)
  case (Cons x t)
  show ?case
  proof (cases k)
    case (Suc j)
    with Cons.prems Cons.IH [of j] have "lval (t[j := s]) = lval t + (uint s - uint (t ! j)) * (2 ^ 64) ^ j" by simp
    with Suc show ?thesis by (simp only: list_update.simps nat.case lval.simps nth_Cons_Suc power_Suc) (simp only: algebra_simps)
  qed (simp add: algebra_simps)
qed simp

lemma prod_bound: "uint x * uint y \<le> 340282366920938463426481119284349108225" for x y :: uint64
  using mult_mono [of "uint x" 18446744073709551615 "uint y" 18446744073709551615] uint64_bound [of x] uint64_bound [of y] by simp

lemma mul_word_loop_val:
  "lval (mul_word_loop xs b carry) = lval xs * uint b + uint carry \<and> length (mul_word_loop xs b carry) = Suc (length xs)"
proof (induction xs arbitrary: carry)
  case (Cons x xs)
  obtain hi lo where m: "Mul64 x b = (hi, lo)" by (cases "Mul64 x b")
  obtain s c where a: "Add64 lo carry 0 = (s, c)" by (cases "Add64 lo carry 0")
  note em = Mul64_exact [OF m] and ea = Add64_exact0 [OF a]
  have "uint hi + uint c < 2 ^ 64"
    using prod_bound [of x b] em ea uint64_bound [of carry] uint64_bound [of s]
    unfolding two64 by linarith
  then have hc: "uint (hi + c) = uint hi + uint c" by (simp add: uint_word_ariths)
  have "lval (s # mul_word_loop xs b (hi + c)) = lval (x # xs) * uint b + uint carry"
    using Cons.IH [of "hi + c", unfolded hc] em ea(1) by (simp add: distrib_left distrib_right mult.assoc)
  then show ?case using Cons.IH [of "hi + c"] by (simp add: m a)
qed simp

lemma mul_inner_val:
  "mul_inner ai bs k t carry = (t', carry') \<Longrightarrow> k + length bs \<le> length t \<Longrightarrow>
   lval t' + uint carry' * (2 ^ 64) ^ (k + length bs) = lval t + (uint ai * lval bs + uint carry) * (2 ^ 64) ^ k \<and>
   length t' = length t \<and> (\<forall>j \<ge> k + length bs. t' ! j = t ! j)"
proof (induction bs arbitrary: k t carry)
  case (Cons bj bs)
  obtain hi lo where m: "Mul64 ai bj = (hi, lo)" by (cases "Mul64 ai bj")
  obtain s c1 where a: "Add64 (t ! k) lo 0 = (s, c1)" by (cases "Add64 (t ! k) lo 0")
  obtain s' c2 where a': "Add64 s carry 0 = (s', c2)" by (cases "Add64 s carry 0")
  note em = Mul64_exact [OF m] and ea = Add64_exact0 [OF a] and ea' = Add64_exact0 [OF a']
  have b: "uint hi + uint c1 + uint c2 < 2 ^ 64"
    using prod_bound [of ai bj] em ea ea' uint64_bound [of carry] uint64_bound [of s'] uint64_bound [of "t ! k"]
    unfolding two64 by linarith
  then have hc: "uint (hi + c1 + c2) = uint hi + uint c1 + uint c2"
    using uint64_bound [of hi] uint64_bound [of c1] uint64_bound [of c2] by (simp add: uint_word_ariths mod_simps)
  have run: "mul_inner ai bs (Suc k) (t[k := s']) (hi + c1 + c2) = (t', carry')"
    using Cons.prems(1) by (simp add: m a a')
  have len: "Suc k + length bs \<le> length (t[k := s'])" "k < length t" using Cons.prems(2) by simp_all
  note IH = Cons.IH [OF run len(1)]
  have "lval t' + uint carry' * (2 ^ 64) ^ (Suc k + length bs) =
      lval t + (uint s' - uint (t ! k)) * (2 ^ 64) ^ k + (uint ai * lval bs + uint hi + uint c1 + uint c2) * (2 ^ 64) ^ Suc k"
    using IH [unfolded hc lval_update [OF len(2)]] by (simp only: add.assoc)
  also have "\<dots> = lval t + ((uint s' + 2 ^ 64 * (uint hi + uint c1 + uint c2) - uint (t ! k)) + uint ai * (2 ^ 64 * lval bs)) * (2 ^ 64) ^ k"
    by (simp only: power_Suc) (simp only: algebra_simps)
  also have "uint s' + 2 ^ 64 * (uint hi + uint c1 + uint c2) - uint (t ! k) = uint ai * uint bj + uint carry"
    using em ea(1) ea'(1) by (simp only: algebra_simps)
  finally have "lval t' + uint carry' * (2 ^ 64) ^ (k + length (bj # bs)) =
      lval t + (uint ai * lval (bj # bs) + uint carry) * (2 ^ 64) ^ k"
    by (simp only: lval.simps list.size add_Suc_right add_Suc add_0_right add_0 algebra_simps)
  then show ?case using IH by simp
qed simp

lemma mul_outer_val:
  "length b = 4 \<Longrightarrow> i + length as + 4 \<le> length t \<Longrightarrow> (\<forall>j < length t. i + 4 \<le> j \<longrightarrow> t ! j = 0) \<Longrightarrow>
   lval (mul_outer as b i t) = lval t + lval as * lval b * (2 ^ 64) ^ i \<and> length (mul_outer as b i t) = length t"
proof (induction as arbitrary: i t)
  case (Cons x as)
  obtain t' c where m: "mul_inner x b i t 0 = (t', c)" by (cases "mul_inner x b i t 0")
  have fit: "i + length b \<le> length t" and pos: "i + 4 < length t" using Cons.prems(1,2) by simp_all
  note inner = mul_inner_val [OF m fit]
  have z: "t' ! (i + 4) = 0" using inner Cons.prems(1,3) pos by simp
  define t'' where "t'' = t'[i + 4 := t' ! (i + 4) + c]"
  have "lval t'' = lval t' + uint c * (2 ^ 64) ^ (i + 4)"
    unfolding t''_def using lval_update [of "i + 4" t' "t' ! (i + 4) + c"] inner pos z by simp
  also have "\<dots> = lval t + (uint x * lval b) * (2 ^ 64) ^ i"
    using inner Cons.prems(1) by simp
  finally have v: "lval t'' = lval t + (uint x * lval b) * (2 ^ 64) ^ i" .
  have l: "length t'' = length t" using inner by (simp add: t''_def)
  have "\<forall>j < length t''. Suc i + 4 \<le> j \<longrightarrow> t'' ! j = 0"
    using inner Cons.prems(1,3) by (simp add: t''_def)
  with Cons.IH [of "Suc i" t''] Cons.prems(1,2) l
  have rest: "lval (mul_outer as b (Suc i) t'') = lval t'' + lval as * lval b * (2 ^ 64) ^ Suc i \<and>
      length (mul_outer as b (Suc i) t'') = length t''" by simp
  then have "lval (mul_outer as b (Suc i) t'') = lval t + lval (x # as) * lval b * (2 ^ 64) ^ i"
    using v by (simp only: lval.simps power_Suc) (simp only: algebra_simps)
  with l rest show ?case by (simp add: m t''_def)
qed simp

lemma fe_split4: "length t = 8 \<Longrightarrow>
   lval t = val (Fe (t ! 0) (t ! 1) (t ! 2) (t ! 3)) + 2 ^ 256 * lval [t ! 4, t ! 5, t ! 6, t ! 7]"
proof -
  assume "length t = 8"
  then obtain a b c d e f g h where "t = [a, b, c, d, e, f, g, h]"
    by (auto simp: length_Suc_conv numeral_eq_Suc)
  then show ?thesis by (simp add: val_def)
qed

lemma fe_split1: "length t = 5 \<Longrightarrow>
   lval t = val (Fe (t ! 0) (t ! 1) (t ! 2) (t ! 3)) + 2 ^ 256 * uint (t ! 4)"
proof -
  assume "length t = 5"
  then obtain a b c d e where "t = [a, b, c, d, e]"
    by (auto simp: length_Suc_conv numeral_eq_Suc)
  then show ?thesis by (simp add: val_def)
qed

lemma mod_minus_mult: "(x - m * k) mod m = x mod (m :: int)"
  by (simp add: mod_eq_dvd_iff)

lemma uint_feC: "uint feC = 4294968273"
  by (simp add: feC_def)

text \<open>Folding a value of at most 320 bits: two additions of the excess times \<open>feC\<close> are enough.\<close>

lemma reduce_tail:
  assumes r4: "uint r4 \<le> uint feC" and mu: "Mul64 r4 feC = (h4, l4)"
    and f1: "fold_word r l4 h4 = (r', c')" and f2: "fold_word r' (c' * feC) 0 = (r'', c'')"
  shows "val r'' mod fe_p = (val r + 2 ^ 256 * uint r4) mod fe_p"
proof -
  note e1 = fold_word_exact [OF f1] and e2 = fold_word_exact [OF f2] and em = Mul64_exact [OF mu]
  have v1: "val r' + 2 ^ 256 * uint c' = val r + uint r4 * uint feC" using e1(1) em by simp
  have v2: "val r'' + 2 ^ 256 * uint c'' = val r' + uint c' * uint feC"
    using e2(1) [unfolded uint_carry_feC [OF e1(2)]] by simp
  have small: "uint r4 * uint feC \<le> 4294968273 * 4294968273"
    using r4 unfolding uint_feC by (intro mult_mono) simp_all
  have "uint c'' = 0"
  proof (cases "c' = 0")
    case True
    with v2 val_bound [of r'] val_bound [of r''] uint64_01 [OF e2(2)] show ?thesis by auto
  next
    case False
    then have "c' = 1" using uint64_01 [OF e1(2)] by simp
    then have "val r' \<le> 4294968273 * 4294968273" using v1 val_bound(2) [of r] small by simp
    with v2 \<open>c' = 1\<close> val_bound(1) [of r''] uint64_01 [OF e2(2)] show ?thesis by (auto simp: uint_feC)
  qed
  then have "val r'' = val r + 2 ^ 256 * uint r4 - fe_p * (uint r4 + uint c')"
    using v1 v2 unfolding two256 by (simp add: algebra_simps)
  then show ?thesis by (simp add: mod_eq_dvd_iff)
qed

lemma feMul_val: "val (feMul a b) = (val a * val b) mod fe_p"
proof -
  define t where "t = mul_outer (limbs a) (limbs b) 0 (replicate 8 0)"
  define m where "m = mul256by64 [t ! 4, t ! 5, t ! 6, t ! 7] feC"
  let ?H = "lval [t ! 4, t ! 5, t ! 6, t ! 7]"
  obtain r c where 1: "add4 (Fe (t ! 0) (t ! 1) (t ! 2) (t ! 3)) (Fe (m ! 0) (m ! 1) (m ! 2) (m ! 3)) = (r, c)"
    by (cases "add4 (Fe (t ! 0) (t ! 1) (t ! 2) (t ! 3)) (Fe (m ! 0) (m ! 1) (m ! 2) (m ! 3))")
  obtain h4 l4 where 2: "Mul64 (m ! 4 + c) feC = (h4, l4)" by (cases "Mul64 (m ! 4 + c) feC")
  obtain r' c' where 3: "fold_word r l4 h4 = (r', c')" by (cases "fold_word r l4 h4")
  obtain r'' c'' where 4: "fold_word r' (c' * feC) 0 = (r'', c'')" by (cases "fold_word r' (c' * feC) 0")
  have zeros: "lval (replicate n 0) = 0" for n by (induction n) simp_all
  have t: "lval t = val a * val b \<and> length t = 8"
    using mul_outer_val [of "limbs b" 0 "limbs a" "replicate 8 0"] zeros [of 8]
    by (simp add: t_def lval_limbs limbs_def [THEN arg_cong [of _ _ length]])
  have m: "lval m = ?H * uint feC" "length m = 5"
    using mul_word_loop_val [of "[t ! 4, t ! 5, t ! 6, t ! 7]" feC 0] by (simp_all add: m_def mul256by64_def)
  note e = add4_exact [OF 1]
  have H: "?H < 2 ^ 256" using lval_bound [of "[t ! 4, t ! 5, t ! 6, t ! 7]"] by simp
  have "2 ^ 256 * uint (m ! 4) \<le> lval m" using fe_split1 [OF m(2)] val_bound(1) by simp
  also have "\<dots> < 2 ^ 256 * uint feC" using H by (simp add: m(1) uint_feC)
  finally have "uint (m ! 4) < uint feC" by simp
  then have r4: "uint (m ! 4 + c) = uint (m ! 4) + uint c" "uint (m ! 4 + c) \<le> uint feC"
    using e(2) uint64_bound(1) [of "m ! 4"] uint64_bound(1) [of c] by (simp_all add: uint_word_ariths uint_feC)
  have "val r + 2 ^ 256 * uint (m ! 4 + c) = val a * val b - fe_p * ?H"
    using fe_split4 [of t] t fe_split1 [OF m(2)] m(1) e(1) unfolding r4 two256 by (simp add: algebra_simps)
  then have "val r'' mod fe_p = (val a * val b) mod fe_p"
    using reduce_tail [OF r4(2) 2 3 4] by (simp only: mod_minus_mult)
  then show ?thesis
    unfolding feMul_def Let_def t_def [symmetric] m_def [symmetric] by (simp only: 1 2 3 4 prod.case feCondSubP_val)
qed

section \<open>Exponentiation and the ladder\<close>

text \<open>The number whose binary digits, most significant first, are given.\<close>

definition bits_val :: "nat \<Rightarrow> bool list \<Rightarrow> nat" where
  "bits_val = foldl (\<lambda>n b. 2 * n + of_bool b)"

lemma drop_bit_step:
  fixes w :: uint64
  assumes "k < 64"
  shows "unat (drop_bit k w) = 2 * unat (drop_bit (Suc k) w) + of_bool (bit w k)"
proof -
  have "unat (drop_bit k w) = unat w div 2 ^ k" for k by (subst unat_drop_bit_eq) (rule drop_bit_eq_div)
  moreover have "bit w k = odd (unat w div 2 ^ k)"
    by (simp add: bit_iff_odd [of "unat w", symmetric] bit_unsigned_iff)
  moreover have "unat w div 2 ^ Suc k = unat w div 2 ^ k div 2" by (metis div_mult2_eq power_Suc2)
  ultimately show ?thesis by simp
qed

lemma bits_val_word:
  fixes w :: uint64
  assumes "k \<le> 64"
  shows "bits_val n (map (\<lambda>i. bit w (63 - i)) [0..<k]) = n * 2 ^ k + unat (drop_bit (64 - k) w)"
  using assms
proof (induction k)
  case 0
  have "unat (drop_bit 64 w) = 0" using unsigned_less [of w, where 'a = nat] by (subst unat_drop_bit_eq) (simp add: drop_bit_eq_div)
  then show ?case by (simp add: bits_val_def)
next
  case (Suc k)
  have "64 - k = Suc (63 - k)" using Suc.prems by simp
  with drop_bit_step [of "63 - k" w] Suc show ?case by (simp add: bits_val_def)
qed

lemma bits_val_append: "bits_val n (xs @ ys) = bits_val (bits_val n xs) ys"
  by (simp add: bits_val_def)

lemma bits_val_desc: "int (bits_val 0 (bits_desc e)) = val e"
proof -
  have w: "bits_val n (map (\<lambda>i. bit w (63 - i)) [0..<64]) = n * 2 ^ 64 + unat w" for w :: uint64 and n
    using bits_val_word [of 64 n w] by simp
  have "bits_val 0 (bits_desc e) =
      ((unat (fe3 e) * 2 ^ 64 + unat (fe2 e)) * 2 ^ 64 + unat (fe1 e)) * 2 ^ 64 + unat (fe0 e)"
    unfolding bits_desc_def by (simp only: list.map concat.simps append_Nil2 bits_val_append w) simp
  then show ?thesis by (simp add: val_def algebra_simps)
qed

lemma feInv_chain:
  assumes "val r mod fe_p = val a ^ n mod fe_p"
  shows "val (foldl (\<lambda>res b. let res = feSqr res in if b then feMul res a else res) r bs) mod fe_p =
    val a ^ bits_val n bs mod fe_p"
  using assms
proof (induction bs arbitrary: r n)
  case (Cons b bs)
  have "val (feSqr r) mod fe_p = (val r * val r) mod fe_p" by (simp only: feSqr_def feMul_val mod_mod_trivial)
  also have "\<dots> = (val a ^ n * val a ^ n) mod fe_p" by (rule mod_mult_cong [OF Cons.prems Cons.prems])
  finally have sq: "val (feSqr r) mod fe_p = val a ^ (2 * n) mod fe_p" by (simp only: mult_2 power_add)
  have mu: "val (feMul (feSqr r) a) mod fe_p = val a ^ (2 * n + 1) mod fe_p"
    unfolding feMul_val using mod_mult_cong [OF sq, of "val a" "val a"] by (simp add: mult.commute)
  show ?case
    using Cons.IH [of "feSqr r" "2 * n"] Cons.IH [of "feMul (feSqr r) a" "2 * n + 1"] sq mu
    by (cases b) (simp_all add: Let_def bits_val_def)
qed (simp add: bits_val_def)

definition canonical :: "fe \<Rightarrow> bool" where
  "canonical a = (val a < fe_p)"

lemma canonical_ops [simp]:
  "canonical (feMul a b)" "canonical (feAdd a b)" "canonical (feSqr a)" "canonical (feCondSubP a)"
  "canonical a \<Longrightarrow> canonical b \<Longrightarrow> canonical (feSub a b)"
  by (simp_all add: canonical_def feMul_val feAdd_val feSqr_def feSub_val feCondSubP_val fe_p_def)

lemma canonical_foldl:
  "canonical r \<Longrightarrow> canonical (foldl (\<lambda>res b. let res = feSqr res in if b then feMul res a else res) r bs)"
  by (induction bs arbitrary: r) (simp_all add: Let_def)

lemma feInv_val: "val (feInv a) = val a ^ nat (fe_p - 2) mod fe_p"
proof -
  have e: "bits_val 0 (bits_desc (Fe 0xFFFFFFFEFFFFFC2D 0xFFFFFFFFFFFFFFFF 0xFFFFFFFFFFFFFFFF 0xFFFFFFFFFFFFFFFF)) = nat (fe_p - 2)"
    using bits_val_desc [of "Fe 0xFFFFFFFEFFFFFC2D 0xFFFFFFFFFFFFFFFF 0xFFFFFFFFFFFFFFFF 0xFFFFFFFFFFFFFFFF"]
    by (simp add: val_def fe_p_def nat_eq_iff2)
  have one: "val (Fe 1 0 0 0) mod fe_p = val a ^ 0 mod fe_p" by (simp add: val_def)
  have "val (feInv a) mod fe_p = val a ^ nat (fe_p - 2) mod fe_p"
    unfolding feInv_def using feInv_chain [OF one] e by simp
  moreover have "canonical (feInv a)"
    unfolding feInv_def by (rule canonical_foldl) (simp add: canonical_def val_def fe_p_def)
  ultimately show ?thesis using val_bound(1) [of "feInv a"] by (simp add: canonical_def)
qed

lemma feIsZero_val: "feIsZero a \<longleftrightarrow> val a = 0"
proof -
  have "feIsZero a \<longleftrightarrow> fe0 a = 0 \<and> fe1 a = 0 \<and> fe2 a = 0 \<and> fe3 a = 0"
    by (auto simp: feIsZero_def or_eq_0_iff)
  also have "\<dots> \<longleftrightarrow> val a = 0"
    using uint64_bound(1) [of "fe0 a"] uint64_bound(1) [of "fe1 a"] uint64_bound(1) [of "fe2 a"] uint64_bound(1) [of "fe3 a"]
    by (simp add: val_def add_nonneg_eq_0_iff word_uint_eq_iff)
  finally show ?thesis .
qed

lemma feCSelect_cases [simp]: "feCSelect 1 a b = a" "feCSelect 0 a b = b"
  by (simp_all add: feCSelect_def)

lemma jacCSelect_cases [simp]: "jacCSelect 1 a b = a" "jacCSelect 0 a b = b"
  by (simp_all add: jacCSelect_def)

lemma bit_mask: "(drop_bit i w) AND 1 = (of_bool (bit w i) :: uint64)"
  by (simp add: and_one_eq mod2_eq_if even_drop_bit_iff_not_bit)

text \<open>The masked ladder is the plain double-and-add loop over the bits of the scalar.\<close>

lemma scalarMultCT_ladder:
  "scalarMultCT k P =
     foldl (\<lambda>R b. let R = completeAdd R R in if b then completeAdd R P else R) jac_identity (bits_desc k)"
proof -
  let ?f = "\<lambda>R (w, i). let R = completeAdd R R; T = completeAdd R P; b = (drop_bit i w) AND 1 in jacCSelect b T R"
  let ?g = "\<lambda>R b. let R = completeAdd R R in if b then completeAdd R P else R"
  have "foldl ?f R xs = foldl ?g R (map (\<lambda>(w, i). bit w i) xs)" for R xs
    by (induction xs arbitrary: R) (auto simp: Let_def bit_mask)
  then show ?thesis
    unfolding scalarMultCT_def bits_desc_def by (simp add: map_concat comp_def)
qed

section \<open>The complete addition formula\<close>

text \<open>\<open>rep f x\<close>: the limbs hold the reduced residue of the integer \<open>x\<close>.\<close>

definition rep :: "fe \<Rightarrow> int \<Rightarrow> bool" where
  "rep f x = (val f = x mod fe_p)"

lemma rep_canonical: "rep f x \<Longrightarrow> canonical f"
  by (simp add: rep_def canonical_def fe_p_def)

lemma rep_mul: "rep a x \<Longrightarrow> rep b y \<Longrightarrow> rep (feMul a b) (x * y)"
  by (simp add: rep_def feMul_val mod_simps)

lemma rep_add: "rep a x \<Longrightarrow> rep b y \<Longrightarrow> rep (feAdd a b) (x + y)"
  by (simp add: rep_def feAdd_val mod_simps)

lemma rep_sub: "rep a x \<Longrightarrow> rep b y \<Longrightarrow> rep (feSub a b) (x - y)"
  using feSub_val rep_canonical [of a x] rep_canonical [of b y] by (simp add: rep_def canonical_def mod_simps)

lemma rep_B3: "rep feB3 21"
  by (simp add: rep_def feB3_def val_def fe_p_def)

lemmas rep_ops = rep_mul rep_add rep_sub rep_B3

lemma rep_eqI: "rep f x \<Longrightarrow> x = y \<Longrightarrow> rep f y"
  by simp

text \<open>The polynomials of Renes, Costello and Batina for \<open>a = 0\<close> and \<open>3 b = 21\<close>.\<close>

definition rcb :: "int \<times> int \<times> int \<Rightarrow> int \<times> int \<times> int \<Rightarrow> int \<times> int \<times> int" where
  "rcb = (\<lambda>(X1, Y1, Z1) (X2, Y2, Z2).
     ((X1 * Y2 + X2 * Y1) * (Y1 * Y2 - 21 * (Z1 * Z2)) - 21 * ((Y1 * Z2 + Y2 * Z1) * (X1 * Z2 + X2 * Z1)),
      (Y1 * Y2 + 21 * (Z1 * Z2)) * (Y1 * Y2 - 21 * (Z1 * Z2)) + 63 * (X1 * X2 * (X1 * Z2 + X2 * Z1)),
      (Y1 * Z2 + Y2 * Z1) * (Y1 * Y2 + 21 * (Z1 * Z2)) + 3 * (X1 * X2 * (X1 * Y2 + X2 * Y1))))"

definition jrep :: "jac \<Rightarrow> int \<times> int \<times> int \<Rightarrow> bool" where
  "jrep p = (\<lambda>(x, y, z). rep (jX p) x \<and> rep (jY p) y \<and> rep (jZ p) z)"

lemma completeAdd_rcb:
  assumes "jrep p P" and "jrep q Q"
  shows "jrep (completeAdd p q) (rcb P Q)"
proof -
  obtain X1 Y1 Z1 X2 Y2 Z2 where PQ: "P = (X1, Y1, Z1)" "Q = (X2, Y2, Z2)" by (cases P, cases Q) auto
  have r: "rep (jX p) X1" "rep (jY p) Y1" "rep (jZ p) Z1" "rep (jX q) X2" "rep (jY q) Y2" "rep (jZ q) Z2"
    using assms by (simp_all add: jrep_def PQ)
  show ?thesis
    unfolding completeAdd_def Let_def jrep_def rcb_def PQ prod.case jac.select_convs
    by (intro conjI; (rule rep_eqI, (rule r rep_ops)+, algebra))
qed

text \<open>
  C34. The limb arithmetic of \<^verbatim>\<open>ct.go\<close> loses no carry: on reduced operands \<open>feAdd\<close>,
  \<open>feSub\<close>, \<open>feMul\<close> and \<open>feInv\<close> return the reduced sum, difference, product and \<open>(p - 2)\<close>-th
  power modulo \<open>p = 2 ^ 256 - 2 ^ 32 - 977\<close>, and \<open>feIsZero\<close> tests the value.
\<close>

theorem fe_arithmetic_exact:
  assumes "canonical a" and "canonical b"
  shows "val (feAdd a b) = (val a + val b) mod fe_p \<and> val (feSub a b) = (val a - val b) mod fe_p \<and>
    val (feMul a b) = val a * val b mod fe_p \<and> val (feInv a) = val a ^ nat (fe_p - 2) mod fe_p \<and>
    (feIsZero a \<longleftrightarrow> val a = 0)"
  using assms by (simp add: feAdd_val feSub_val feMul_val feInv_val feIsZero_val canonical_def)

theorem fe_arithmetic_exact_witness:
  "val (feMul (Fe 0xFFFFFFFEFFFFFC2E 0xFFFFFFFFFFFFFFFF 0xFFFFFFFFFFFFFFFF 0xFFFFFFFFFFFFFFFF) (Fe 0xFFFFFFFEFFFFFC2E 0xFFFFFFFFFFFFFFFF 0xFFFFFFFFFFFFFFFF 0xFFFFFFFFFFFFFFFF)) = 1"
proof -
  let ?m = "Fe 0xFFFFFFFEFFFFFC2E 0xFFFFFFFFFFFFFFFF 0xFFFFFFFFFFFFFFFF 0xFFFFFFFFFFFFFFFF"
  have v: "val ?m = fe_p - 1" by (simp add: val_def fe_p_def)
  then have "canonical ?m" by (simp add: canonical_def)
  from fe_arithmetic_exact [OF this this] have "val (feMul ?m ?m) = (fe_p - 1) * (fe_p - 1) mod fe_p" by (simp only: v)
  also have "\<dots> = (fe_p * (fe_p - 2) + 1) mod fe_p" by (simp add: algebra_simps)
  also have "\<dots> = 1" by (simp only: mod_mult_self4) (simp add: fe_p_def)
  finally show ?thesis .
qed

end
