(* ===== verification/Sha256.thy ===== *)
theory Sha256
  imports Prelude
begin

text \<open>
  The part of Go's standard library the program hashes with: \<^verbatim>\<open>sha256.Sum256\<close>
  (FIPS 180-4) and \<^verbatim>\<open>hmac\<close> over it (RFC 2104), as executable functions on bytes.
  Every theorem of the development that depends on a digest treats these functions as they
  are; nothing is assumed about them.
\<close>

text \<open>The round constants and the initial state, in decimal.\<close>

definition sha_K :: "uint32 list" where
  "sha_K =
    [1116352408, 1899447441, 3049323471, 3921009573, 961987163, 1508970993,
     2453635748, 2870763221, 3624381080, 310598401, 607225278, 1426881987,
     1925078388, 2162078206, 2614888103, 3248222580, 3835390401, 4022224774,
     264347078, 604807628, 770255983, 1249150122, 1555081692, 1996064986,
     2554220882, 2821834349, 2952996808, 3210313671, 3336571891, 3584528711,
     113926993, 338241895, 666307205, 773529912, 1294757372, 1396182291,
     1695183700, 1986661051, 2177026350, 2456956037, 2730485921, 2820302411,
     3259730800, 3345764771, 3516065817, 3600352804, 4094571909, 275423344,
     430227734, 506948616, 659060556, 883997877, 958139571, 1322822218,
     1537002063, 1747873779, 1955562222, 2024104815, 2227730452, 2361852424,
     2428436474, 2756734187, 3204031479, 3329325298]"

definition sha_H0 :: "uint32 list" where
  "sha_H0 =
    [1779033703, 3144134277, 1013904242, 2773480762, 1359893119, 2600822924,
     528734635, 1541459225]"

definition rotr32 :: "nat \<Rightarrow> uint32 \<Rightarrow> uint32" where
  "rotr32 n x = (drop_bit n x) OR (push_bit (32 - n) x)"

definition sha_Ch :: "uint32 \<Rightarrow> uint32 \<Rightarrow> uint32 \<Rightarrow> uint32" where
  "sha_Ch x y z = (x AND y) XOR (NOT x AND z)"

definition sha_Maj :: "uint32 \<Rightarrow> uint32 \<Rightarrow> uint32 \<Rightarrow> uint32" where
  "sha_Maj x y z = (x AND y) XOR (x AND z) XOR (y AND z)"

definition sha_S0 :: "uint32 \<Rightarrow> uint32" where
  "sha_S0 x = rotr32 2 x XOR rotr32 13 x XOR rotr32 22 x"

definition sha_S1 :: "uint32 \<Rightarrow> uint32" where
  "sha_S1 x = rotr32 6 x XOR rotr32 11 x XOR rotr32 25 x"

definition sha_s0 :: "uint32 \<Rightarrow> uint32" where
  "sha_s0 x = rotr32 7 x XOR rotr32 18 x XOR drop_bit 3 x"

definition sha_s1 :: "uint32 \<Rightarrow> uint32" where
  "sha_s1 x = rotr32 17 x XOR rotr32 19 x XOR drop_bit 10 x"

text \<open>Message padding: a one bit, zeros, and the bit length in 64 bits, to whole 64-byte blocks.\<close>

definition sha_pad :: "bytes \<Rightarrow> bytes" where
  "sha_pad m = m @ [0x80] @ replicate ((119 - length m mod 64) mod 64) 0 @ be64 (of_nat (8 * length m))"

primrec sha_schedule :: "nat \<Rightarrow> uint32 list \<Rightarrow> uint32 list" where
  "sha_schedule 0 w = w"
| "sha_schedule (Suc n) w =
     sha_schedule n (w @ [sha_s1 (w ! (length w - 2)) + w ! (length w - 7) +
                          sha_s0 (w ! (length w - 15)) + w ! (length w - 16)])"

definition sha_round :: "uint32 list \<Rightarrow> uint32 \<times> uint32 \<Rightarrow> uint32 list" where
  "sha_round s kw =
     (let a = s ! 0; b = s ! 1; c = s ! 2; d = s ! 3; e = s ! 4; f = s ! 5; g = s ! 6; h = s ! 7;
          t1 = h + sha_S1 e + sha_Ch e f g + fst kw + snd kw;
          t2 = sha_S0 a + sha_Maj a b c
      in [t1 + t2, a, b, c, d + t1, e, f, g])"

fun words_of :: "bytes \<Rightarrow> uint32 list" where
  "words_of (a # b # c # d # rest) = of_be_bytes [a, b, c, d] # words_of rest"
| "words_of _ = []"

definition sha_block :: "uint32 list \<Rightarrow> bytes \<Rightarrow> uint32 list" where
  "sha_block h blk = map2 (+) h (foldl sha_round h (zip sha_K (sha_schedule 48 (words_of blk))))"

fun sha_blocks :: "uint32 list \<Rightarrow> bytes \<Rightarrow> uint32 list" where
  "sha_blocks h bs = (if bs = [] then h else sha_blocks (sha_block h (take 64 bs)) (drop 64 bs))"

declare sha_blocks.simps [simp del]

definition sha256 :: "bytes \<Rightarrow> hash" where
  "sha256 m = copy_from (concat (map be32 (sha_blocks sha_H0 (sha_pad m))))"

text \<open>HMAC with SHA-256: the key is hashed when longer than a block, then zero-padded.\<close>

definition hmac_sha256 :: "bytes \<Rightarrow> bytes \<Rightarrow> bytes" where
  "hmac_sha256 key msg =
     (let k0 = (if 64 < length key then slice (sha256 key) else key);
          k = k0 @ replicate (64 - length k0) 0
      in slice (sha256 (map (\<lambda>b. b XOR 0x5c) k @ slice (sha256 (map (\<lambda>b. b XOR 0x36) k @ msg)))))"

lemma sha_pad_gap: "(r :: nat) < 64 \<Longrightarrow> (r + (119 - r) mod 64 + 9) mod 64 = 0"
proof (cases "r \<le> 55")
  case True
  then have "119 - r = (55 - r) + 64" by simp
  then have "(119 - r) mod 64 = (55 - r) mod 64" by (simp only: mod_add_self2)
  with True show ?thesis by simp
qed simp

lemma sha_pad_blocks: "length (sha_pad m) mod 64 = 0"
proof -
  have "(length m mod 64 + (119 - length m mod 64) mod 64 + 9) mod 64 = 0"
    by (rule sha_pad_gap) simp
  then have "(length m + ((119 - length m mod 64) mod 64 + 9)) mod 64 = 0"
    by (metis add.assoc mod_add_left_eq)
  then show ?thesis
    by (simp add: sha_pad_def ac_simps)
qed

lemma hmac_length [simp, len_simps]: "length (hmac_sha256 key msg) = 32"
  by (simp add: hmac_sha256_def Let_def)

end
