(* ===== verification/Secp256k1.thy ===== *)
theory Secp256k1
  imports Field Sha256
begin

text \<open>
  \<^verbatim>\<open>crypto/secp256k1.go\<close>: affine point arithmetic on \<^verbatim>\<open>math/big\<close> integers, keys and
  their compressed form, the RFC 6979 nonce, ECDSA signing and verification, and the 64-byte
  signature form. The loop of the nonce has no bound in the code and is a partial function.
  The lemmas show that the affine operations stay on the curve, that the limb ladder of
  \<^verbatim>\<open>ct.go\<close> computes the same points, that signatures are canonical and that the encodings
  are inverse to each other.
\<close>

section \<open>Domain parameters\<close>

definition curveP :: int where
  "curveP = 0xFFFFFFFFFFFFFFFFFFFFFFFFFFFFFFFFFFFFFFFFFFFFFFFFFFFFFFFEFFFFFC2F"

definition curveN :: int where
  "curveN = 0xFFFFFFFFFFFFFFFFFFFFFFFFFFFFFFFEBAAEDCE6AF48A03BBFD25E8CD0364141"

definition curveB :: int where
  "curveB = 7"

definition curveGx :: int where
  "curveGx = 0x79BE667EF9DCBBAC55A06295CE870B07029BFCDB2DCE28D959F2815B16F81798"

definition curveGy :: int where
  "curveGy = 0x483ADA7726A3C4655DA4FBFC0E1108A8FD17B448A68554199C47D08FFB10D4B8"

definition nHalf :: int where
  "nHalf = drop_bit 1 curveN"

text \<open>\<^verbatim>\<open>z.ModInverse(z, n)\<close> leaves \<open>z\<close> as it was when there is no inverse.\<close>

definition invert :: "int \<Rightarrow> int" where
  "invert z = (case ModInverse z curveP of None \<Rightarrow> z | Some w \<Rightarrow> w)"

section \<open>Points\<close>

text \<open>The pair \<^verbatim>\<open>nil, nil\<close>, the point at infinity, is \<open>None\<close>.\<close>

type_synonym point = "(int \<times> int) option"

definition isInfinity :: "point \<Rightarrow> bool" where
  "isInfinity P = (P = None)"

definition pointDouble :: "point \<Rightarrow> point" where
  "pointDouble P =
     (case P of None \<Rightarrow> None
      | Some (x1, y1) \<Rightarrow>
          if y1 = 0 then None
          else
            let num = x1 * x1 * 3;
                den = invert (push_bit 1 y1);
                lam = num * den mod curveP;
                x3 = (lam * lam - push_bit 1 x1) mod curveP;
                y3 = ((x1 - x3) * lam - y1) mod curveP
            in Some (x3, y3))"

definition pointAdd :: "point \<Rightarrow> point \<Rightarrow> point" where
  "pointAdd P Q =
     (case (P, Q) of
        (None, _) \<Rightarrow> Q
      | (_, None) \<Rightarrow> P
      | (Some (x1, y1), Some (x2, y2)) \<Rightarrow>
          if x1 = x2 then (if y1 = y2 then pointDouble (Some (x1, y1)) else None)
          else
            let num = y2 - y1;
                den = invert (x2 - x1);
                lam = num * den mod curveP;
                x3 = (lam * lam - x1 - x2) mod curveP;
                y3 = ((x1 - x3) * lam - y1) mod curveP
            in Some (x3, y3))"

definition scalarMult :: "int \<Rightarrow> point \<Rightarrow> point" where
  "scalarMult k P =
     foldl (\<lambda>R i. let R = pointDouble R in if bit k i then pointAdd R P else R) None
       (rev [0..<BitLen (nat \<bar>k\<bar>)])"

definition scalarBaseMult :: "int \<Rightarrow> point" where
  "scalarBaseMult k = scalarMult k (Some (curveGx, curveGy))"

definition onCurve :: "int option \<Rightarrow> int option \<Rightarrow> bool" where
  "onCurve x y =
     (case (x, y) of
        (Some x, Some y) \<Rightarrow>
          if x < 0 \<or> y < 0 \<or> curveP \<le> x \<or> curveP \<le> y then False
          else y * y mod curveP = (x * x * x + curveB) mod curveP
      | _ \<Rightarrow> False)"

section \<open>Keys\<close>

record PrivateKey =
  sk_D :: int

record PublicKey =
  pk_X :: "int option"
  pk_Y :: "int option"

definition NewPrivateKey :: "bytes \<Rightarrow> PrivateKey" where
  "NewPrivateKey seed = \<lparr>sk_D = int (SetBytes seed) mod (curveN - 1) + 1\<rparr>"

definition public_of :: "point \<Rightarrow> PublicKey" where
  "public_of P = \<lparr>pk_X = map_option fst P, pk_Y = map_option snd P\<rparr>"

definition Public :: "PrivateKey \<Rightarrow> PublicKey" where
  "Public k = public_of (scalarBaseMult (sk_D k))"

text \<open>\<^verbatim>\<open>x.Bytes()\<close> is the absolute value.\<close>

definition abs_Bytes :: "int \<Rightarrow> bytes" where
  "abs_Bytes x = Bytes (nat \<bar>x\<bar>)"

definition SerializeCompressed :: "PublicKey \<Rightarrow> go_error + bytes" where
  "SerializeCompressed p =
     (case (pk_X p, pk_Y p) of
        (Some x, Some y) \<Rightarrow>
          (let xb = abs_Bytes x
           in if 33 < length xb then Inl PanicIndex
              else let out = (if bit y 0 then 0x03 else 0x02) # replicate 32 0
                   in Inr (take (33 - length xb) out @ xb))
      | _ \<Rightarrow> Inl PanicNil)"

text \<open>\<^verbatim>\<open>Exp(x, y, m)\<close> of \<^verbatim>\<open>math/big\<close>.\<close>

definition big_Exp :: "int \<Rightarrow> nat \<Rightarrow> int \<Rightarrow> int" where
  "big_Exp x y m = x ^ y mod m"

definition ParseCompressed :: "bytes \<Rightarrow> go_error + PublicKey" where
  "ParseCompressed b =
     (if length b \<noteq> 33 \<or> (b ! 0 \<noteq> 0x02 \<and> b ! 0 \<noteq> 0x03) then Inl ErrPubKey
      else
        let x = int (SetBytes (drop 1 b))
        in if curveP \<le> x then Inl ErrPubKey
           else
             let rhs = (x * x * x + curveB) mod curveP;
                 e = drop_bit 2 (nat (curveP + 1));
                 y = big_Exp rhs e curveP;
                 chk = y * y mod curveP
             in if chk \<noteq> rhs then Inl ErrPubKey
                else
                  let wantOdd = (b ! 0 = 0x03);
                      y = (if bit y 0 \<noteq> wantOdd then curveP - y else y);
                      pub = \<lparr>pk_X = Some x, pk_Y = Some y\<rparr>
                  in if \<not> onCurve (pk_X pub) (pk_Y pub) then Inl ErrPubKey else Inr pub)"

text \<open>Two keys with a nil pointer as receiver or argument are never equal.\<close>

definition pub_Equal :: "PublicKey option \<Rightarrow> PublicKey option \<Rightarrow> go_error + bool" where
  "pub_Equal p other =
     (case (p, other) of
        (Some p, Some q) \<Rightarrow>
          (case SerializeCompressed p of Inl e \<Rightarrow> Inl e
           | Inr a \<Rightarrow> (case SerializeCompressed q of Inl e \<Rightarrow> Inl e | Inr b \<Rightarrow> Inr (a = b)))
      | _ \<Rightarrow> Inr False)"

section \<open>The nonce of RFC 6979\<close>

definition hmacSHA :: "bytes \<Rightarrow> bytes \<Rightarrow> bytes" where
  "hmacSHA key msg = hmac_sha256 key msg"

definition bytes_repeat :: "byte \<Rightarrow> nat \<Rightarrow> bytes" where
  "bytes_repeat b n = replicate n b"

definition int2octets :: "int \<Rightarrow> nat \<Rightarrow> bytes" where
  "int2octets v rolen =
     (let b = abs_Bytes v
      in if length b < rolen then replicate (rolen - length b) 0 @ b
         else if rolen < length b then drop (length b - rolen) b
         else b)"

definition bits2int :: "bytes \<Rightarrow> nat \<Rightarrow> int" where
  "bits2int b qlen =
     (let v = int (SetBytes b) in if qlen < length b * 8 then drop_bit (length b * 8 - qlen) v else v)"

definition bits2octets :: "bytes \<Rightarrow> nat \<Rightarrow> bytes" where
  "bits2octets b rolen =
     (let z1 = bits2int b (BitLen (nat curveN)); z2 = z1 - curveN
      in if z2 < 0 then int2octets z1 rolen else int2octets z2 rolen)"

text \<open>The inner loop, which appends HMAC outputs until \<open>t\<close> has 32 bytes.\<close>

function nonce_fill :: "bytes \<Rightarrow> bytes \<Rightarrow> bytes \<Rightarrow> bytes \<times> bytes" where
  "nonce_fill kk v t =
     (if length t < 32 then nonce_fill kk (hmacSHA kk v) (t @ hmacSHA kk v) else (v, t))"
  by pat_completeness auto
termination
  by (relation "measure (\<lambda>(kk, v, t). 32 - length t)") (auto simp: hmacSHA_def)

declare nonce_fill.simps [simp del]

partial_function (option) nonce_loop :: "bytes \<Rightarrow> bytes \<Rightarrow> int option" where
  "nonce_loop kk v =
     (let (v, t) = nonce_fill kk v []; k = bits2int t (32 * 8)
      in if 0 < k \<and> k < curveN then Some k
         else let kk = hmacSHA kk (v @ [0x00]) in nonce_loop kk (hmacSHA kk v))"

definition rfc6979Nonce :: "int \<Rightarrow> bytes \<Rightarrow> int option" where
  "rfc6979Nonce d hash =
     (let bx = int2octets d 32 @ bits2octets hash 32;
          v = bytes_repeat 0x01 32;
          kk = bytes_repeat 0x00 32;
          kk = hmacSHA kk (v @ [0x00] @ bx);
          v = hmacSHA kk v;
          kk = hmacSHA kk (v @ [0x01] @ bx);
          v = hmacSHA kk v
      in nonce_loop kk v)"

section \<open>Signatures\<close>

record Signature =
  sig_R :: int
  sig_S :: int

definition ctBaseG :: jac where
  "ctBaseG = \<lparr>jX = feFromBig (nat curveGx), jY = feFromBig (nat curveGy), jZ = Fe 1 0 0 0\<rparr>"

text \<open>
  One attempt of the signing loop: \<open>None\<close> is the \<^verbatim>\<open>continue\<close> of the source. A nil inverse
  of the nonce panics.
\<close>

definition sign_attempt :: "int \<Rightarrow> int \<Rightarrow> int \<Rightarrow> (go_error + Signature) option" where
  "sign_attempt d z kNonce =
     (let R = scalarMultCT (scalarBits (nat kNonce)) ctBaseG;
          r = int (fe_big (affineX R)) mod curveN
      in if r = 0 then None
         else case ModInverse kNonce curveN of
           None \<Rightarrow> Some (Inl PanicNil)
         | Some kInv \<Rightarrow>
             let s = (r * d + z) * kInv mod curveN
             in if s = 0 then None
                else let s = (if nHalf < s then curveN - s else s)
                     in Some (Inr \<lparr>sig_R = r, sig_S = s\<rparr>))"

fun sign_loop :: "int \<Rightarrow> bytes \<Rightarrow> int \<Rightarrow> nat \<Rightarrow> nat \<Rightarrow> (go_error + Signature) option" where
  "sign_loop d hash z i 0 = Some (Inl ErrSign)"
| "sign_loop d hash z i (Suc n) =
     Option.bind (rfc6979Nonce d hash) (\<lambda>k0.
     Option.bind (if 0 < i then rfc6979Nonce d (slice (sha256 (hash @ [of_nat i]))) else Some k0) (\<lambda>kNonce.
     case sign_attempt d z kNonce of None \<Rightarrow> sign_loop d hash z (Suc i) n | Some r \<Rightarrow> Some r))"

text \<open>The result is \<open>None\<close> only when the search for a nonce does not end.\<close>

definition Sign :: "PrivateKey option \<Rightarrow> bytes \<Rightarrow> (go_error + Signature) option" where
  "Sign k hash =
     (case k of None \<Rightarrow> Some (Inl ErrInvalidKey)
      | Some k \<Rightarrow>
          if sk_D k = 0 \<or> curveN \<le> sk_D k then Some (Inl ErrInvalidKey)
          else sign_loop (sk_D k) hash (bits2int hash (BitLen (nat curveN))) 0 1000)"

definition ecdsa_Verify :: "PublicKey option \<Rightarrow> bytes \<Rightarrow> Signature option \<Rightarrow> go_error + bool" where
  "ecdsa_Verify pub hash sig =
     (case (pub, sig) of
        (Some pub, Some sig) \<Rightarrow>
          if \<not> onCurve (pk_X pub) (pk_Y pub) then Inr False
          else if sig_R sig \<le> 0 \<or> curveN \<le> sig_R sig \<or> sig_S sig \<le> 0 \<or> curveN \<le> sig_S sig then Inr False
          else
            let z = bits2int hash (BitLen (nat curveN))
            in case ModInverse (sig_S sig) curveN of
                 None \<Rightarrow> Inl PanicNil
               | Some w \<Rightarrow>
                   let u1 = z * w mod curveN;
                       u2 = sig_R sig * w mod curveN;
                       P1 = scalarBaseMult u1;
                       P2 = scalarMult u2 (Some (the (pk_X pub), the (pk_Y pub)))
                   in case pointAdd P1 P2 of
                        None \<Rightarrow> Inr False
                      | Some (x, _) \<Rightarrow> Inr (x mod curveN = sig_R sig)
      | _ \<Rightarrow> Inr False)"

definition IsLowS :: "Signature option \<Rightarrow> bool" where
  "IsLowS s = (case s of None \<Rightarrow> False | Some s \<Rightarrow> sig_S s \<le> nHalf)"

definition Serialize :: "Signature \<Rightarrow> go_error + bytes" where
  "Serialize s =
     (let rb = abs_Bytes (sig_R s); sb = abs_Bytes (sig_S s)
      in if 32 < length rb \<or> 64 < length sb then Inl PanicIndex
         else let out = replicate (32 - length rb) 0 @ rb @ replicate 32 0
              in Inr (take (64 - length sb) out @ sb))"

definition ParseSignature :: "bytes \<Rightarrow> go_error + Signature" where
  "ParseSignature b =
     (if length b \<noteq> 64 then Inl ErrSigLength
      else Inr \<lparr>sig_R = int (SetBytes (take 32 b)), sig_S = int (SetBytes (drop 32 b))\<rparr>)"

definition Malleate :: "bytes \<Rightarrow> go_error + bytes" where
  "Malleate sig64 =
     (case ParseSignature sig64 of Inl e \<Rightarrow> Inl e
      | Inr s \<Rightarrow> Serialize \<lparr>sig_R = sig_R s, sig_S = curveN - sig_S s\<rparr>)"

section \<open>Encodings\<close>

lemma curve_pos: "0 < curveP" "0 < curveN" "1 < curveP" "1 < curveN"
  by (simp_all add: curveP_def curveN_def)

lemma nHalf_val: "curveN = 2 * nHalf + 1"
  by (simp add: nHalf_def curveN_def drop_bit_eq_div)

lemma abs_Bytes_length: "\<bar>x\<bar> < 256 ^ n \<Longrightarrow> length (abs_Bytes x) \<le> n"
proof -
  assume "\<bar>x\<bar> < 256 ^ n"
  then have "nat \<bar>x\<bar> < 256 ^ n" by (simp add: nat_less_iff)
  then show ?thesis unfolding abs_Bytes_def by (rule Bytes_length)
qed

lemma abs_Bytes_FillBytes: "replicate (n - length (abs_Bytes x)) 0 @ abs_Bytes x = FillBytes n (nat \<bar>x\<bar>)"
  by (simp add: FillBytes_def abs_Bytes_def)

lemma Serialize_eq:
  assumes "\<bar>sig_R s\<bar> < 256 ^ 32" and "\<bar>sig_S s\<bar> < 256 ^ 32"
  shows "Serialize s = Inr (FillBytes 32 (nat \<bar>sig_R s\<bar>) @ FillBytes 32 (nat \<bar>sig_S s\<bar>))"
proof -
  note l = abs_Bytes_length [OF assms(1)] abs_Bytes_length [OF assms(2)]
  have "take (64 - length (abs_Bytes (sig_S s)))
      (replicate (32 - length (abs_Bytes (sig_R s))) 0 @ abs_Bytes (sig_R s) @ replicate 32 0) =
      (replicate (32 - length (abs_Bytes (sig_R s))) 0 @ abs_Bytes (sig_R s)) @
       replicate (32 - length (abs_Bytes (sig_S s))) 0"
    using l by (simp add: min_def) arith
  then show ?thesis
    using l abs_Bytes_FillBytes [of 32 "sig_R s"] abs_Bytes_FillBytes [of 32 "sig_S s"]
    unfolding Serialize_def Let_def by simp
qed

lemma FillBytes_length32: "n < 256 ^ 32 \<Longrightarrow> length (FillBytes 32 n) = 32"
  by (rule FillBytes_length)

lemma ParseSignature_bounds:
  assumes "ParseSignature b = Inr s"
  shows "0 \<le> sig_R s" "sig_R s < 256 ^ 32" "0 \<le> sig_S s" "sig_S s < 256 ^ 32"
proof -
  have l: "length b = 64" and s: "s = \<lparr>sig_R = int (SetBytes (take 32 b)), sig_S = int (SetBytes (drop 32 b))\<rparr>"
    using assms by (auto simp: ParseSignature_def split: if_splits)
  have "int (SetBytes (take 32 b)) < int (256 ^ 32)" "int (SetBytes (drop 32 b)) < int (256 ^ 32)"
    using SetBytes_bound [of "take 32 b"] SetBytes_bound [of "drop 32 b"] l by (simp_all only: of_nat_less_iff length_take length_drop) simp_all
  then show "0 \<le> sig_R s" "sig_R s < 256 ^ 32" "0 \<le> sig_S s" "sig_S s < 256 ^ 32"
    by (simp_all add: s)
qed

lemma Parse_Serialize:
  assumes "0 \<le> sig_R s" "sig_R s < 256 ^ 32" "0 \<le> sig_S s" "sig_S s < 256 ^ 32"
  obtains b where "Serialize s = Inr b" and "ParseSignature b = Inr s"
proof
  have n: "nat (sig_R s) < 256 ^ 32" "nat (sig_S s) < 256 ^ 32" using assms by (simp_all add: nat_less_iff)
  show "Serialize s = Inr (FillBytes 32 (nat (sig_R s)) @ FillBytes 32 (nat (sig_S s)))"
    using assms Serialize_eq [of s] by simp
  show "ParseSignature (FillBytes 32 (nat (sig_R s)) @ FillBytes 32 (nat (sig_S s))) = Inr s"
    using assms FillBytes_length32 [OF n(1)] FillBytes_length32 [OF n(2)] by (simp add: ParseSignature_def)
qed

lemma Serialize_Parse:
  assumes "ParseSignature b = Inr s"
  shows "Serialize s = Inr b"
proof -
  note bd = ParseSignature_bounds [OF assms]
  have l: "length b = 64" and s: "s = \<lparr>sig_R = int (SetBytes (take 32 b)), sig_S = int (SetBytes (drop 32 b))\<rparr>"
    using assms by (auto simp: ParseSignature_def split: if_splits)
  have "FillBytes 32 (SetBytes (take 32 b)) = take 32 b" "FillBytes 32 (SetBytes (drop 32 b)) = drop 32 b"
    using FillBytes_SetBytes [of "take 32 b"] FillBytes_SetBytes [of "drop 32 b"] l by simp_all
  then show ?thesis using Serialize_eq [of s] bd by (simp add: s)
qed

text \<open>
  Raw signatures and their 64-byte form: parsing inverts serialising on every signature whose
  components fit, serialising gives back every parsed byte string, and \<open>Malleate\<close> is an
  involution on signatures with \<open>0 < S < n\<close> that keeps \<open>R\<close> and always switches between the low
  and the high form, so that exactly one of the two passes \<open>IsLowS\<close>.
\<close>

theorem malleate_involution:
  assumes "ParseSignature b = Inr s" and "0 < sig_S s" and "sig_S s < curveN"
  shows "Serialize s = Inr b \<and> (\<exists>b' s'. Malleate b = Inr b' \<and> ParseSignature b' = Inr s' \<and> Serialize s' = Inr b' \<and>
    sig_R s' = sig_R s \<and> sig_S s' = curveN - sig_S s \<and>
    IsLowS (Some s') = (\<not> IsLowS (Some s)) \<and> Malleate b' = Inr b)"
proof -
  note bd = ParseSignature_bounds [OF assms(1)]
  define s' where "s' = \<lparr>sig_R = sig_R s, sig_S = curveN - sig_S s\<rparr>"
  have N: "curveN < 256 ^ 32" by (simp add: curveN_def)
  obtain b' where b': "Serialize s' = Inr b'" "ParseSignature b' = Inr s'"
    by (rule Parse_Serialize [of s']) (use bd assms(2,3) N in \<open>simp_all add: s'_def\<close>)
  have "Malleate b = Inr b'" using assms(1) b'(1) by (simp add: Malleate_def s'_def)
  moreover have "IsLowS (Some s') = (\<not> IsLowS (Some s))"
    using nHalf_val by (auto simp: IsLowS_def s'_def)
  moreover have "Malleate b' = Inr b"
    using b'(2) Serialize_Parse [OF assms(1)] by (cases s) (simp add: Malleate_def s'_def)
  ultimately show ?thesis using b' Serialize_Parse [OF assms(1)] by (intro conjI exI [of _ b'] exI [of _ s']) (simp_all add: s'_def)
qed

definition ex_sig64 :: bytes where
  "ex_sig64 = FillBytes 32 5 @ FillBytes 32 7"

theorem malleate_involution_witness:
  "IsLowS (Some \<lparr>sig_R = 5, sig_S = 7\<rparr>) \<and>
   (\<exists>b' s'. Malleate ex_sig64 = Inr b' \<and> ParseSignature b' = Inr s' \<and> sig_S s' = curveN - 7 \<and>
     \<not> IsLowS (Some s') \<and> Malleate b' = Inr ex_sig64)"
proof -
  have p: "ParseSignature ex_sig64 = Inr \<lparr>sig_R = 5, sig_S = 7\<rparr>"
    by (simp add: ParseSignature_def ex_sig64_def FillBytes_length)
  have l: "IsLowS (Some \<lparr>sig_R = 5, sig_S = 7\<rparr>)"
    by (simp add: IsLowS_def nHalf_def curveN_def drop_bit_eq_div)
  show ?thesis
    using malleate_involution [OF p] l by (auto simp: curveN_def)
qed

lemma nonce_range:
  assumes "nonce_loop kk v = Some k"
  shows "0 < k \<and> k < curveN"
  using assms
proof (rule nonce_loop.raw_induct [rotated])
  fix rec kk v k
  assume IH: "\<And>kk v k. rec kk v = Some k \<Longrightarrow> 0 < k \<and> k < curveN"
    and "(let (v, t) = nonce_fill kk v []; k = bits2int t (32 * 8)
      in if 0 < k \<and> k < curveN then Some k
         else let kk = hmacSHA kk (v @ [0x00]) in rec kk (hmacSHA kk v)) = Some k"
  then show "0 < k \<and> k < curveN"
    by (auto simp: Let_def split: prod.splits if_splits)
qed

lemma sign_attempt_spec:
  assumes "sign_attempt d z k = Some (Inr sig)"
  shows "0 < sig_R sig" "sig_R sig < curveN" "0 < sig_S sig" "sig_S sig \<le> nHalf"
    and "sig_R sig = int (fe_big (affineX (scalarMultCT (scalarBits (nat k)) ctBaseG))) mod curveN"
    and "sig_S sig * k mod curveN = (sig_R sig * d + z) mod curveN \<or>
         sig_S sig * k mod curveN = - (sig_R sig * d + z) mod curveN"
proof -
  define r where "r = int (fe_big (affineX (scalarMultCT (scalarBits (nat k)) ctBaseG))) mod curveN"
  from assms obtain w where w: "ModInverse k curveN = Some w" and r0: "r \<noteq> 0"
    by (auto simp: sign_attempt_def r_def [symmetric] Let_def split: if_splits option.splits)
  define s where "s = (r * d + z) * w mod curveN"
  have s0: "s \<noteq> 0" and sig: "sig = \<lparr>sig_R = r, sig_S = if nHalf < s then curveN - s else s\<rparr>"
    using assms w r0 by (auto simp: sign_attempt_def r_def [symmetric] s_def [symmetric] Let_def split: if_splits)
  have rb: "0 \<le> r" "r < curveN" and sb: "0 \<le> s" "s < curveN" using curve_pos by (simp_all add: r_def s_def)
  show "0 < sig_R sig" "sig_R sig < curveN" using rb r0 by (simp_all add: sig)
  show "0 < sig_S sig" "sig_S sig \<le> nHalf" using sb s0 nHalf_val by (auto simp: sig)
  show "sig_R sig = int (fe_big (affineX (scalarMultCT (scalarBits (nat k)) ctBaseG))) mod curveN"
    by (simp add: sig r_def)
  have kw: "k * w mod curveN = 1" using ModInverse_correct(1) [OF w] curve_pos by simp
  have "s * k mod curveN = (r * d + z) * (k * w mod curveN) mod curveN"
    by (simp add: s_def mod_simps ac_simps)
  then have sk: "s * k mod curveN = (r * d + z) mod curveN" by (simp add: kw)
  have "(curveN - s) * k mod curveN = - (s * k mod curveN) mod curveN"
    using mod_mult_self2 [of "- (s * k)" curveN k] by (simp add: left_diff_distrib mod_simps)
  then have "(curveN - s) * k mod curveN = - (r * d + z) mod curveN" by (simp only: sk mod_minus_eq)
  with sk show "sig_S sig * k mod curveN = (sig_R sig * d + z) mod curveN \<or>
      sig_S sig * k mod curveN = - (sig_R sig * d + z) mod curveN"
    by (simp add: sig)
qed

section \<open>The curve equation\<close>

lemma fe_p_curveP: "fe_p = curveP"
  by (simp add: fe_p_def curveP_def)

text \<open>Residues with an inverse.\<close>

definition unit :: "int \<Rightarrow> bool" where
  "unit z = (\<exists>w. curveP dvd z * w - 1)"

definition curve_eq :: "int \<Rightarrow> int \<Rightarrow> bool" where
  "curve_eq x y = (curveP dvd y ^ 2 - x ^ 3 - 7)"

lemma onCurve_iff:
  "onCurve (Some x) (Some y) \<longleftrightarrow> 0 \<le> x \<and> x < curveP \<and> 0 \<le> y \<and> y < curveP \<and> curve_eq x y"
  by (auto simp: onCurve_def curve_eq_def curveB_def mod_eq_dvd_iff power2_eq_square power3_eq_cube algebra_simps not_le)

lemma unit_cancel:
  assumes "unit d" and "curveP dvd d * t"
  shows "curveP dvd t"
proof -
  obtain w where w: "curveP dvd d * w - 1" using assms(1) by (auto simp: unit_def)
  have "t = w * (d * t) - t * (d * w - 1)" by (simp add: algebra_simps)
  then show ?thesis using w assms(2) by (metis dvd_diff dvd_mult)
qed

lemma unit_mult: "unit a \<Longrightarrow> unit b \<Longrightarrow> unit (a * b)"
proof -
  assume "unit a" "unit b"
  then obtain v w where v: "curveP dvd a * v - 1" and w: "curveP dvd b * w - 1" by (auto simp: unit_def)
  have "(a * b) * (v * w) - 1 = (a * v - 1) * (b * w) + (b * w - 1)" by (simp add: algebra_simps)
  then have "curveP dvd (a * b) * (v * w) - 1" using v w by (metis dvd_add dvd_mult2)
  then show ?thesis by (auto simp: unit_def)
qed

lemma unit_power: "unit a \<Longrightarrow> unit (a ^ n)"
proof (induction n)
  case 0
  have "curveP dvd 1 * 1 - 1" by simp
  then show ?case unfolding unit_def by (metis power_0)
qed (simp add: unit_mult)

lemma unit_cong: "unit a \<Longrightarrow> curveP dvd a - b \<Longrightarrow> unit b"
proof -
  assume "unit a" "curveP dvd a - b"
  then obtain w where "curveP dvd a * w - 1" by (auto simp: unit_def)
  moreover have "b * w - 1 = (a * w - 1) - (a - b) * w" by (simp add: algebra_simps)
  ultimately have "curveP dvd b * w - 1" using \<open>curveP dvd a - b\<close> by (metis dvd_diff dvd_mult2)
  then show ?thesis by (auto simp: unit_def)
qed

lemma ModInverse_unit:
  assumes "ModInverse d curveP = Some w"
  shows "curveP dvd d * w - 1" and "unit d" and "invert d = w"
proof -
  show "curveP dvd d * w - 1"
    using ModInverse_correct(1) [OF assms] curve_pos by (simp add: mod_eq_dvd_iff [symmetric])
  then show "unit d" by (auto simp: unit_def)
qed (simp add: invert_def assms)

text \<open>The line of slope \<open>l\<close> through two points of the curve, or the tangent at one.\<close>

lemma chord_on_curve:
  fixes x1 x2 y1 y2 l :: int
  assumes "curve_eq x1 y1" and "curve_eq x2 y2" and "unit (x2 - x1)"
    and l: "curveP dvd l * (x2 - x1) - (y2 - y1)"
    and x3: "x3 = l * l - x1 - x2" and y3: "y3 = (x1 - x3) * l - y1"
  shows "curve_eq x3 y3"
proof -
  have "(x2 - x1) * (y3 ^ 2 - x3 ^ 3 - 7) =
      (x3 - x1) * ((y2 ^ 2 - x2 ^ 3 - 7) + (l * (x2 - x1) - (y2 - y1)) * (y2 + l * (x2 - x1) + y1)) +
      (x2 - x3) * (y1 ^ 2 - x1 ^ 3 - 7)"
    unfolding y3 x3 by algebra
  then have "curveP dvd (x2 - x1) * (y3 ^ 2 - x3 ^ 3 - 7)"
    using assms(1,2) l by (auto simp: curve_eq_def)
  then show ?thesis unfolding curve_eq_def by (rule unit_cancel [OF assms(3)])
qed

lemma tangent_on_curve:
  fixes x y l :: int
  assumes "curve_eq x y" and l: "curveP dvd l * (2 * y) - 3 * x ^ 2"
    and x3: "x3 = l * l - 2 * x" and y3: "y3 = (x - x3) * l - y"
  shows "curve_eq x3 y3"
proof -
  have "y3 ^ 2 - x3 ^ 3 - 7 = (y ^ 2 - x ^ 3 - 7) + (l * (2 * y) - 3 * x ^ 2) * (x3 - x)"
    unfolding y3 x3 by algebra
  then show ?thesis using assms(1) l unfolding curve_eq_def by (simp only: dvd_add dvd_mult2)
qed

lemma onCurve_mod: "curve_eq x y \<Longrightarrow> onCurve (Some (x mod curveP)) (Some (y mod curveP))"
proof -
  assume "curve_eq x y"
  then have "y ^ 2 mod curveP = (x ^ 3 + 7) mod curveP" by (simp add: curve_eq_def mod_eq_dvd_iff algebra_simps)
  then have "(y mod curveP) ^ 2 mod curveP = ((x mod curveP) ^ 3 + 7) mod curveP"
    by (simp add: power_mod) (metis mod_add_left_eq power_mod)
  then show ?thesis
    using curve_pos by (simp add: onCurve_iff curve_eq_def mod_eq_dvd_iff algebra_simps)
qed

definition on_curve_pt :: "point \<Rightarrow> bool" where
  "on_curve_pt P = (case P of None \<Rightarrow> True | Some (x, y) \<Rightarrow> onCurve (Some x) (Some y))"

text \<open>The operations are defined at a point when the denominators they divide by are units.\<close>

definition dbl_ok :: "point \<Rightarrow> bool" where
  "dbl_ok P = (case P of None \<Rightarrow> True | Some (x, y) \<Rightarrow> y \<noteq> 0 \<and> ModInverse (2 * y) curveP \<noteq> None)"

lemma mod_line:
  fixes l m :: int
  shows "((l mod m) * (l mod m) - a) mod m = (l * l - a) mod m"
    and "((x - X mod m) * (l mod m) - y) mod m = ((x - X) * l - y) mod m"
proof -
  show "((l mod m) * (l mod m) - a) mod m = (l * l - a) mod m"
    by (rule mod_diff_cong [OF mod_mult_eq refl])
  have "((x - X mod m) * (l mod m)) mod m = ((x - X) * l) mod m"
    by (rule mod_mult_cong [OF mod_diff_right_eq mod_mod_trivial])
  then show "((x - X mod m) * (l mod m) - y) mod m = ((x - X) * l - y) mod m"
    by (rule mod_diff_cong [OF _ refl])
qed

lemma push1: "push_bit 1 (x :: int) = 2 * x"
  by simp

lemma pointDouble_eq:
  assumes "dbl_ok (Some (x, y))"
  obtains l w where "ModInverse (2 * y) curveP = Some w" and "l = x * x * 3 * w"
    and "curveP dvd l * (2 * y) - 3 * x ^ 2"
    and "pointDouble (Some (x, y)) = Some ((l * l - 2 * x) mod curveP, ((x - (l * l - 2 * x)) * l - y) mod curveP)"
proof -
  obtain w where y: "y \<noteq> 0" and w: "ModInverse (2 * y) curveP = Some w" using assms by (auto simp: dbl_ok_def)
  define l where "l = x * x * 3 * w"
  have "l * (2 * y) - 3 * x ^ 2 = 3 * x ^ 2 * ((2 * y) * w - 1)" by (simp add: l_def algebra_simps power2_eq_square)
  then have d: "curveP dvd l * (2 * y) - 3 * x ^ 2" using ModInverse_unit(1) [OF w] by simp
  have "pointDouble (Some (x, y)) = Some ((l * l - 2 * x) mod curveP, ((x - (l * l - 2 * x)) * l - y) mod curveP)"
    unfolding pointDouble_def option.case prod.case Let_def push1 ModInverse_unit(3) [OF w] l_def [symmetric]
    using y by (simp only: mod_line if_False)
  with that w d show thesis by (simp add: l_def)
qed

lemma pointAdd_eq:
  assumes "x1 \<noteq> x2" and w: "ModInverse (x2 - x1) curveP = Some w" and l: "l = (y2 - y1) * w"
  shows "curveP dvd l * (x2 - x1) - (y2 - y1)"
    and "pointAdd (Some (x1, y1)) (Some (x2, y2)) =
      Some ((l * l - x1 - x2) mod curveP, ((x1 - (l * l - x1 - x2)) * l - y1) mod curveP)"
proof -
  have "l * (x2 - x1) - (y2 - y1) = (y2 - y1) * ((x2 - x1) * w - 1)" by (simp add: l algebra_simps)
  then show "curveP dvd l * (x2 - x1) - (y2 - y1)" using ModInverse_unit(1) [OF w] by simp
  show "pointAdd (Some (x1, y1)) (Some (x2, y2)) =
      Some ((l * l - x1 - x2) mod curveP, ((x1 - (l * l - x1 - x2)) * l - y1) mod curveP)"
    unfolding pointAdd_def option.case prod.case Let_def ModInverse_unit(3) [OF w] l [symmetric]
    using assms(1) by (simp only: mod_line if_False diff_diff_eq)
qed

section \<open>The limb ladder computes affine points\<close>

text \<open>
  A projective triple of limbs represents an affine point when it is a unit multiple of it.
\<close>

definition represents :: "jac \<Rightarrow> point \<Rightarrow> bool" where
  "represents j P = (case P of
     None \<Rightarrow> \<exists>y. unit y \<and> jrep j (0, y, 0)
   | Some (x, y) \<Rightarrow> \<exists>z. unit z \<and> jrep j (x * z, y * z, z))"

lemma jrep_cong:
  assumes "jrep j (a, b, c)" and "curveP dvd a - a'" "curveP dvd b - b'" "curveP dvd c - c'"
  shows "jrep j (a', b', c')"
  using assms by (simp add: jrep_def rep_def fe_p_curveP mod_eq_dvd_iff)

lemma rcb_scale:
  "rcb (x1 * z1, y1 * z1, z1) (x2 * z2, y2 * z2, z2) =
     (case rcb (x1, y1, 1) (x2, y2, 1) of (X, Y, Z) \<Rightarrow>
       (X * (z1 * z2) ^ 2, Y * (z1 * z2) ^ 2, Z * (z1 * z2) ^ 2))"
  unfolding rcb_def prod.case prod.inject by (intro conjI; algebra)

lemma represents_scaled:
  assumes "jrep j (X * s, Y * s, Z * s)" and "unit s" and "unit Z"
    and "curveP dvd X - x * Z" and "curveP dvd Y - y * Z"
  shows "represents j (Some (x mod curveP, y mod curveP))"
proof -
  have m: "curveP dvd u - u mod curveP" for u by (simp add: mod_eq_dvd_iff [symmetric])
  have "X * s - x mod curveP * (Z * s) = ((X - x * Z) + (x - x mod curveP) * Z) * s"
    and "Y * s - y mod curveP * (Z * s) = ((Y - y * Z) + (y - y mod curveP) * Z) * s"
    by (simp_all add: algebra_simps)
  then have "curveP dvd X * s - x mod curveP * (Z * s)" "curveP dvd Y * s - y mod curveP * (Z * s)"
    using assms(4,5) m [of x] m [of y] by (simp_all only: dvd_add dvd_mult2)
  then have "jrep j (x mod curveP * (Z * s), y mod curveP * (Z * s), Z * s)"
    by (rule jrep_cong [OF assms(1)]) simp
  then show ?thesis using unit_mult [OF assms(3,2)] by (auto simp: represents_def)
qed

lemma rcb_tangent:
  fixes x y l :: int
  assumes e: "curve_eq x y" and l: "curveP dvd l * (2 * y) - 3 * x ^ 2" and u: "unit (2 * y)"
    and r: "rcb (x, y, 1) (x, y, 1) = (X, Y, Z)"
    and x3: "x3 = l * l - 2 * x" and y3: "y3 = (x - x3) * l - y"
  shows "curveP dvd X - x3 * Z" "curveP dvd Y - y3 * Z" "unit Z"
proof -
  have XYZ: "X = (x * y + x * y) * (y * y - 21) - 21 * ((y + y) * (x + x))"
      "Y = (y * y + 21) * (y * y - 21) + 63 * (x * x * (x + x))"
      "Z = (y + y) * (y * y + 21) + 3 * (x * x * (x * y + x * y))"
    using r by (simp_all add: rcb_def)
  have "(2 * y) ^ 2 * (X - x3 * Z) =
      (y ^ 2 - x ^ 3 - 7) * (54 * x ^ 4 * y + 24 * x * y ^ 3) -
      (l * (2 * y) - 3 * x ^ 2) * ((l * (2 * y) + 3 * x ^ 2) * Z)"
    unfolding x3 XYZ by algebra
  then have "curveP dvd (2 * y) ^ 2 * (X - x3 * Z)"
    using e l unfolding curve_eq_def by (simp only: dvd_diff dvd_mult2)
  then show "curveP dvd X - x3 * Z" by (rule unit_cancel [OF unit_power [OF u]])
  have "(2 * y) ^ 3 * (Y - y3 * Z) =
      (y ^ 2 - x ^ 3 - 7) * (24 * y ^ 5 + 504 * y ^ 3 - 162 * x ^ 6 * y) -
      (l * (2 * y) - 3 * x ^ 2) *
        ((3 * x * (2 * y) ^ 2 - ((l * (2 * y)) ^ 2 + (l * (2 * y)) * (3 * x ^ 2) + (3 * x ^ 2) ^ 2)) * Z)"
    unfolding y3 x3 XYZ by algebra
  then have "curveP dvd (2 * y) ^ 3 * (Y - y3 * Z)"
    using e l unfolding curve_eq_def by (simp only: dvd_diff dvd_mult2)
  then show "curveP dvd Y - y3 * Z" by (rule unit_cancel [OF unit_power [OF u]])
  have "(2 * y) ^ 3 - Z = (y ^ 2 - x ^ 3 - 7) * (6 * y)" unfolding XYZ by algebra
  then have "curveP dvd (2 * y) ^ 3 - Z" using e unfolding curve_eq_def by (simp only: dvd_mult2)
  then show "unit Z" by (rule unit_cong [OF unit_power [OF u]])
qed

lemma rcb_chord:
  fixes x1 y1 x2 y2 l l' :: int
  assumes e: "curve_eq x1 y1" "curve_eq x2 y2" and d: "d = x2 - x1" and u: "unit d"
    and l: "curveP dvd l * d - (y2 - y1)" and l': "curveP dvd l' * d + (y2 + y1)"
    and u': "unit ((x1 - (l' * l' - x1 - x2)) * l' - y1)"
    and r: "rcb (x1, y1, 1) (x2, y2, 1) = (X, Y, Z)"
    and x3: "x3 = l * l - x1 - x2" and y3: "y3 = (x1 - x3) * l - y1"
  shows "curveP dvd X - x3 * Z" "curveP dvd Y - y3 * Z" "unit Z"
proof -
  have XYZ: "X = (x1 * y2 + x2 * y1) * (y1 * y2 - 21) - 21 * ((y1 + y2) * (x1 + x2))"
      "Y = (y1 * y2 + 21) * (y1 * y2 - 21) + 63 * (x1 * x2 * (x1 + x2))"
      "Z = (y1 + y2) * (y1 * y2 + 21) + 3 * (x1 * x2 * (x1 * y2 + x2 * y1))"
    using r by (simp_all add: rcb_def)
  have "d ^ 2 * (X - x3 * Z) =
      (y1 ^ 2 - x1 ^ 3 - 7) * (2 * x2 ^ 3 * y2 + y2 ^ 3 + 14 * y2 + y1 * y2 ^ 2 - 21 * y1 - y1 ^ 2 * y2 +
        3 * x1 * x2 ^ 2 * y2 - 3 * x1 * y1 * x2 ^ 2 - 3 * x1 ^ 2 * x2 * y2) +
      (y2 ^ 2 - x2 ^ 3 - 7) * (3 * x1 ^ 3 * y1 + x1 ^ 3 * y2 + 3 * x1 ^ 2 * y1 * x2 - 3 * x1 ^ 2 * x2 * y2 -
        3 * x1 * y1 * x2 ^ 2 - y1 * y2 ^ 2 + 21 * y1 - 14 * y2) -
      (l * d - (y2 - y1)) * ((l * d + (y2 - y1)) * Z)"
    unfolding x3 XYZ d by algebra
  then have "curveP dvd d ^ 2 * (X - x3 * Z)"
    using e l unfolding curve_eq_def by (simp only: dvd_diff dvd_add dvd_mult2)
  then show "curveP dvd X - x3 * Z" by (rule unit_cancel [OF unit_power [OF u]])
  have "d ^ 3 * (Y - y3 * Z) =
      (y1 ^ 2 - x1 ^ 3 - 7) * (15 * x1 ^ 2 * x2 * y2 ^ 2 - 3 * x1 ^ 2 * y1 * x2 * y2 - 9 * x1 ^ 2 * x2 ^ 4 -
        3 * x1 * y1 ^ 2 * x2 ^ 2 + 6 * x1 * y1 * x2 ^ 2 * y2 + 6 * x1 * x2 ^ 5 - 15 * x1 * x2 ^ 2 * y2 ^ 2 -
        84 * x1 * x2 ^ 2 - y1 ^ 3 * y2 + 2 * y1 ^ 2 * y2 ^ 2 - 21 * y1 ^ 2 + 2 * y1 * x2 ^ 3 * y2 +
        35 * y1 * y2 + 2 * x2 ^ 3 * y2 ^ 2 + 42 * x2 ^ 3 - 2 * y2 ^ 4 + 14 * y2 ^ 2 - 147) +
      (y2 ^ 2 - x2 ^ 3 - 7) * (9 * x1 ^ 5 * x2 - 6 * x1 ^ 4 * x2 ^ 2 - 2 * x1 ^ 3 * y1 * y2 -
        2 * x1 ^ 3 * y2 ^ 2 - 42 * x1 ^ 3 - 6 * x1 ^ 2 * y1 * x2 * y2 + 3 * x1 ^ 2 * x2 * y2 ^ 2 +
        189 * x1 ^ 2 * x2 + 3 * x1 * y1 * x2 ^ 2 * y2 - 105 * x1 * x2 ^ 2 + y1 * y2 ^ 3 - 35 * y1 * y2 +
        7 * y2 ^ 2 + 147) -
      (l * d - (y2 - y1)) *
        (((2 * x1 + x2) * d ^ 2 - ((l * d) ^ 2 + (l * d) * (y2 - y1) + (y2 - y1) ^ 2)) * Z)"
    unfolding y3 x3 XYZ d by algebra
  then have "curveP dvd d ^ 3 * (Y - y3 * Z)"
    using e l unfolding curve_eq_def by (simp only: dvd_diff dvd_add dvd_mult2)
  then show "curveP dvd Y - y3 * Z" by (rule unit_cancel [OF unit_power [OF u]])
  have "d ^ 3 * ((x1 - (l' * l' - x1 - x2)) * l' - y1) - Z =
      (y1 ^ 2 - x1 ^ 3 - 7) * (y1 + 2 * y2) + (y2 ^ 2 - x2 ^ 3 - 7) * (2 * y1 + y2) +
      (l' * d + (y2 + y1)) *
        ((2 * x1 + x2) * d ^ 2 - ((l' * d) ^ 2 - (l' * d) * (y2 + y1) + (y2 + y1) ^ 2))"
    unfolding XYZ d by algebra
  then have "curveP dvd d ^ 3 * ((x1 - (l' * l' - x1 - x2)) * l' - y1) - Z"
    using e l' unfolding curve_eq_def by (simp only: dvd_add dvd_mult2)
  then show "unit Z" by (rule unit_cong [OF unit_mult [OF unit_power [OF u] u']])
qed

text \<open>
  The side conditions of one addition, as an executable check: the denominators of the affine
  sum, and the ordinate of the difference of the two points, have inverses.
\<close>

definition add_ok :: "point \<Rightarrow> point \<Rightarrow> bool" where
  "add_ok R P = (case (R, P) of
     (None, Some (x2, y2)) \<Rightarrow> ModInverse y2 curveP \<noteq> None
   | (Some (x1, y1), Some (x2, y2)) \<Rightarrow>
       if x1 = x2 then y1 = y2 \<and> dbl_ok R
       else ModInverse (x2 - x1) curveP \<noteq> None \<and>
         (case pointAdd R (Some (x2, - y2)) of None \<Rightarrow> False | Some (_, y) \<Rightarrow> ModInverse y curveP \<noteq> None)
   | _ \<Rightarrow> False)"

lemma double_represents:
  assumes rep: "represents j P" "represents k P" and on: "on_curve_pt P" and ok: "dbl_ok P"
  shows "represents (completeAdd j k) (pointDouble P) \<and> on_curve_pt (pointDouble P)"
proof (cases P)
  case None
  then obtain y y' where y: "unit y" "jrep j (0, y, 0)" and y': "unit y'" "jrep k (0, y', 0)"
    using rep by (auto simp: represents_def)
  from completeAdd_rcb [OF y(2) y'(2)] have "jrep (completeAdd j k) (0, (y * y') * (y * y'), 0)" by (simp add: rcb_def)
  then show ?thesis using None unit_mult [OF unit_mult unit_mult, OF y(1) y'(1) y(1) y'(1)]
    by (auto simp: represents_def pointDouble_def on_curve_pt_def)
next
  case (Some q)
  then obtain x y where P: "P = Some (x, y)" by (cases q) auto
  obtain z z' where z: "unit z" "jrep j (x * z, y * z, z)" and z': "unit z'" "jrep k (x * z', y * z', z')"
    using rep P by (auto simp: represents_def)
  obtain l w where w: "ModInverse (2 * y) curveP = Some w" and l: "curveP dvd l * (2 * y) - 3 * x ^ 2"
    and dbl: "pointDouble P = Some ((l * l - 2 * x) mod curveP, ((x - (l * l - 2 * x)) * l - y) mod curveP)"
    using pointDouble_eq [OF ok [unfolded P]] P by metis
  have e: "curve_eq x y" using on P by (simp add: on_curve_pt_def onCurve_iff)
  obtain X Y Z where r: "rcb (x, y, 1) (x, y, 1) = (X, Y, Z)" by (cases "rcb (x, y, 1) (x, y, 1)") auto
  note t = rcb_tangent [OF e l ModInverse_unit(2) [OF w] r refl refl]
  have "jrep (completeAdd j k) (X * (z * z') ^ 2, Y * (z * z') ^ 2, Z * (z * z') ^ 2)"
    using completeAdd_rcb [OF z(2) z'(2)] by (simp only: rcb_scale r prod.case)
  from represents_scaled [OF this unit_power [OF unit_mult [OF z(1) z'(1)]] t(3) t(1) t(2)]
  have "represents (completeAdd j k) (pointDouble P)" by (simp only: dbl)
  moreover have "on_curve_pt (pointDouble P)"
    unfolding dbl on_curve_pt_def option.case prod.case
    by (rule onCurve_mod) (rule tangent_on_curve [OF e l refl refl])
  ultimately show ?thesis ..
qed

lemma chord_represents:
  assumes rep: "represents j (Some (x1, y1))" "represents k (Some (x2, y2))"
    and on: "on_curve_pt (Some (x1, y1))" "on_curve_pt (Some (x2, y2))"
    and ne: "x1 \<noteq> x2" and ok: "add_ok (Some (x1, y1)) (Some (x2, y2))"
  shows "represents (completeAdd j k) (pointAdd (Some (x1, y1)) (Some (x2, y2))) \<and>
    on_curve_pt (pointAdd (Some (x1, y1)) (Some (x2, y2)))"
proof -
  obtain w where w: "ModInverse (x2 - x1) curveP = Some w" using ok ne by (auto simp: add_ok_def)
  define l where "l = (y2 - y1) * w"
  define l' where "l' = (- y2 - y1) * w"
  note a = pointAdd_eq [OF ne w l_def] and a' = pointAdd_eq [OF ne w l'_def]
  have u: "unit (x2 - x1)" by (rule ModInverse_unit(2) [OF w])
  have e: "curve_eq x1 y1" "curve_eq x2 y2" using on by (simp_all add: on_curve_pt_def onCurve_iff)
  let ?y = "(x1 - (l' * l' - x1 - x2)) * l' - y1"
  have "unit (?y mod curveP)" using ok ne a'(2) ModInverse_unit(2) by (auto simp: add_ok_def)
  then have u': "unit ?y" by (rule unit_cong) (simp add: mod_eq_dvd_iff [symmetric])
  have l': "curveP dvd l' * (x2 - x1) + (y2 + y1)" using a'(1) by (simp add: algebra_simps)
  obtain X Y Z where r: "rcb (x1, y1, 1) (x2, y2, 1) = (X, Y, Z)" by (cases "rcb (x1, y1, 1) (x2, y2, 1)") auto
  note t = rcb_chord [OF e refl u a(1) l' u' r refl refl]
  obtain z z' where z: "unit z" "jrep j (x1 * z, y1 * z, z)" and z': "unit z'" "jrep k (x2 * z', y2 * z', z')"
    using rep by (auto simp: represents_def)
  have "jrep (completeAdd j k) (X * (z * z') ^ 2, Y * (z * z') ^ 2, Z * (z * z') ^ 2)"
    using completeAdd_rcb [OF z(2) z'(2)] by (simp only: rcb_scale r prod.case)
  from represents_scaled [OF this unit_power [OF unit_mult [OF z(1) z'(1)]] t(3) t(1) t(2)]
  have "represents (completeAdd j k) (pointAdd (Some (x1, y1)) (Some (x2, y2)))" by (simp only: a(2))
  moreover have "on_curve_pt (pointAdd (Some (x1, y1)) (Some (x2, y2)))"
    unfolding a(2) on_curve_pt_def option.case prod.case
    by (rule onCurve_mod) (rule chord_on_curve [OF e u a(1) refl refl])
  ultimately show ?thesis ..
qed

lemma pointAdd_same: "pointAdd (Some (x, y)) (Some (x, y)) = pointDouble (Some (x, y))"
  by (simp add: pointAdd_def)

lemma add_represents:
  assumes rep: "represents j R" "represents k P" and on: "on_curve_pt R" "on_curve_pt P" and ok: "add_ok R P"
  shows "represents (completeAdd j k) (pointAdd R P) \<and> on_curve_pt (pointAdd R P)"
proof -
  from ok obtain x2 y2 where P: "P = Some (x2, y2)"
    by (auto simp: add_ok_def split: option.splits prod.splits)
  obtain z2 where z2: "unit z2" "jrep k (x2 * z2, y2 * z2, z2)" using rep(2) P by (auto simp: represents_def)
  have e2: "curve_eq x2 y2" using on(2) P by (simp add: on_curve_pt_def onCurve_iff)
  show ?thesis
  proof (cases R)
    case None
    then obtain y where y: "unit y" "jrep j (0, y, 0)" using rep(1) by (auto simp: represents_def)
    have u: "unit y2" using ok None P ModInverse_unit(2) by (auto simp: add_ok_def)
    from completeAdd_rcb [OF y(2) z2(2)] 
    have "jrep (completeAdd j k) (x2 * (z2 * (y * y * (y2 * z2))), y2 * (z2 * (y * y * (y2 * z2))), z2 * (y * y * (y2 * z2)))"
      by (simp add: rcb_def ac_simps)
    moreover have "unit (z2 * (y * y * (y2 * z2)))" using y(1) z2(1) u by (intro unit_mult)
    ultimately show ?thesis using None P on(2) by (auto simp: represents_def pointAdd_def)
  next
    case (Some q)
    then obtain x1 y1 where R: "R = Some (x1, y1)" by (cases q) auto
    show ?thesis
    proof (cases "x1 = x2")
      case True
      then have same: "R = P" "dbl_ok P" using ok R P by (auto simp: add_ok_def)
      then show ?thesis using double_represents [OF rep(1) [unfolded same] rep(2) on(2) same(2)] P
        by (simp add: pointAdd_same)
    next
      case False
      with chord_represents rep on ok show ?thesis by (simp add: R P)
    qed
  qed
qed

text \<open>The side conditions along a whole run of the double-and-add loop.\<close>

fun ladder_ok :: "point \<Rightarrow> point \<Rightarrow> bool list \<Rightarrow> bool" where
  "ladder_ok P R [] = True"
| "ladder_ok P R (b # bs) =
     (dbl_ok R \<and>
      (if b then add_ok (pointDouble R) P \<and> ladder_ok P (pointAdd (pointDouble R) P) bs
       else ladder_ok P (pointDouble R) bs))"

lemma ladder_represents:
  assumes "represents j R" "represents k P" "on_curve_pt R" "on_curve_pt P" "ladder_ok P R bs"
  shows "represents (foldl (\<lambda>R b. let R = completeAdd R R in if b then completeAdd R k else R) j bs)
      (foldl (\<lambda>R b. let R = pointDouble R in if b then pointAdd R P else R) R bs) \<and>
    on_curve_pt (foldl (\<lambda>R b. let R = pointDouble R in if b then pointAdd R P else R) R bs)"
  using assms
proof (induction bs arbitrary: j R)
  case (Cons b bs)
  have d: "represents (completeAdd j j) (pointDouble R) \<and> on_curve_pt (pointDouble R)"
    using double_represents [OF Cons.prems(1) Cons.prems(1) Cons.prems(3)] Cons.prems(5) by simp
  show ?case
  proof (cases b)
    case True
    then have "add_ok (pointDouble R) P" using Cons.prems(5) by simp
    note a = add_represents [OF conjunct1 [OF d] Cons.prems(2) conjunct2 [OF d] Cons.prems(4) this]
    show ?thesis
      using Cons.IH [OF conjunct1 [OF a] Cons.prems(2) conjunct2 [OF a] Cons.prems(4)] Cons.prems(5) True
      by (simp add: Let_def)
  next
    case False
    then show ?thesis
      using Cons.IH [OF conjunct1 [OF d] Cons.prems(2) conjunct2 [OF d] Cons.prems(4)] Cons.prems(5)
      by (simp add: Let_def)
  qed
qed simp

section \<open>Limbs and scalars\<close>

lemma unat_be_word: "length bs \<le> 8 \<Longrightarrow> unat (of_be_bytes bs :: uint64) = SetBytes bs"
proof (induction bs rule: rev_induct)
  case (snoc b bs)
  let ?w = "of_be_bytes bs :: uint64"
  have IH: "unat ?w = SetBytes bs" using snoc by simp
  have "SetBytes bs < 256 ^ 7"
    using SetBytes_bound [of bs] power_increasing [of "length bs" 7 "256 :: nat"] snoc.prems by simp
  then have small: "SetBytes bs * 256 + unat b < 2 ^ 64" using unsigned_less [of b, where 'a = nat] by simp
  have "of_be_bytes (bs @ [b]) = (ucast b OR push_bit 8 ?w :: uint64)" by (simp add: of_be_bytes_def)
  also have "\<dots> = ucast b + push_bit 8 ?w"
    by (rule disjunctive_add_eq_or [symmetric])
       (auto simp: bit_eq_iff bit_simps dest: bit_imp_le_length)
  also have "\<dots> = of_nat (SetBytes bs * 256 + unat b)"
    by (simp add: push_bit_eq_mult IH [symmetric] of_nat_unat)
  finally have "unat (of_be_bytes (bs @ [b]) :: uint64) = (SetBytes bs * 256 + unat b) mod 2 ^ 64"
    by (simp only: unat_of_nat) simp
  with small show ?case by (simp add: SetBytes_snoc)
qed (simp add: of_be_bytes_def)

lemma uint_be_word: "length bs \<le> 8 \<Longrightarrow> uint (of_be_bytes bs :: uint64) = int (SetBytes bs)"
  using unat_be_word [of bs] by (metis uint_nat)

lemma val_limbs_of: "length b = 32 \<Longrightarrow> val (limbs_of b) = int (SetBytes b)"
proof -
  assume l: "length b = 32"
  have 1: "SetBytes b = SetBytes (take 8 b) * 2 ^ 192 + SetBytes (drop 8 b)"
    using SetBytes_append [of "take 8 b" "drop 8 b"] l by simp
  have 2: "SetBytes (drop 8 b) = SetBytes (take 8 (drop 8 b)) * 2 ^ 128 + SetBytes (drop 16 b)"
    using SetBytes_append [of "take 8 (drop 8 b)" "drop 8 (drop 8 b)"] l
    by (simp only: append_take_drop_id) simp
  have 3: "SetBytes (drop 16 b) = SetBytes (take 8 (drop 16 b)) * 2 ^ 64 + SetBytes (take 8 (drop 24 b))"
    using SetBytes_append [of "take 8 (drop 16 b)" "drop 8 (drop 16 b)"] l
    by (simp only: append_take_drop_id) simp
  show ?thesis
    using 1 2 3 l by (simp add: limbs_of_def val_def be_word_def uint_be_word)
qed

lemma val_feFromBig: "x < 256 ^ 32 \<Longrightarrow> val (feFromBig x) = int x"
  by (simp add: feFromBig_def val_limbs_of FillBytes_length)

lemma val_scalarBits: "x < 256 ^ 32 \<Longrightarrow> val (scalarBits x) = int x"
  by (simp add: scalarBits_def val_limbs_of FillBytes_length)

lemma bits_val_inj: "length xs = length ys \<Longrightarrow> bits_val 0 xs = bits_val 0 ys \<Longrightarrow> xs = ys"
proof (induction xs arbitrary: ys rule: rev_induct)
  case (snoc x xs)
  then obtain zs z where ys: "ys = zs @ [z]"
    by (metis append_butlast_last_id length_0_conv length_append_singleton nat.distinct(1))
  from snoc.prems ys have eq: "2 * bits_val 0 xs + of_bool x = 2 * bits_val 0 zs + of_bool z"
    by (simp add: bits_val_def)
  then have "(2 * bits_val 0 xs + of_bool x) mod 2 = (2 * bits_val 0 zs + of_bool z) mod 2" by simp
  then have "x = z" by (cases x; cases z) simp_all
  with eq snoc ys show ?case by simp
qed simp

lemma bits_val_bits: "bits_val 0 (map (bit (k :: nat)) (rev [0..<n])) = k mod 2 ^ n"
proof (induction n arbitrary: k)
  case (Suc n)
  have "map (bit k) (rev [0..<Suc n]) = map (bit (k div 2)) (rev [0..<n]) @ [odd k]"
  proof -
    have "rev [0..<Suc n] = map Suc (rev [0..<n]) @ [0]" by (simp only: upt_rec [of 0 "Suc n"]) (simp add: map_Suc_upt flip: rev_map)
    then show ?thesis by (simp add: bit_Suc bit_0 comp_def)
  qed
  then have "bits_val 0 (map (bit k) (rev [0..<Suc n])) = 2 * (k div 2 mod 2 ^ n) + k mod 2"
    using Suc [of "k div 2"] by (simp add: bits_val_def mod2_eq_if)
  then show ?case by (simp add: mod_mult2_eq [of k 2 "2 ^ n"])
qed (simp add: bits_val_def)

lemma BitLen_bound: "k < 2 ^ BitLen k"
proof (induction k rule: BitLen.induct)
  case (1 n)
  show ?case
  proof (cases "n = 0")
    case False
    with 1 have "n div 2 < 2 ^ BitLen (n div 2)" by simp
    then have "n < 2 * 2 ^ BitLen (n div 2)" by simp
    with False show ?thesis by (simp add: BitLen.simps [of n])
  qed simp
qed

lemma BitLen_le: "k < 2 ^ n \<Longrightarrow> BitLen k \<le> n"
proof (induction k arbitrary: n rule: BitLen.induct)
  case (1 k)
  show ?case
  proof (cases "k = 0")
    case False
    with "1.prems" obtain m where n: "n = Suc m" by (cases n) auto
    with "1.prems" have "k div 2 < 2 ^ m" by (auto simp: less_mult_imp_div_less)
    with "1.IH" False n show ?thesis by (simp add: BitLen.simps [of k])
  qed (simp add: BitLen.simps)
qed

lemma bits_val_zeros: "bits_val 0 (replicate n False @ xs) = bits_val 0 xs"
  by (induction n) (simp_all add: bits_val_def)

lemma bits_desc_scalar:
  assumes "k < 2 ^ 256"
  shows "bits_desc (scalarBits k) = replicate (256 - BitLen k) False @ map (bit k) (rev [0..<BitLen k])"
proof (rule bits_val_inj)
  show "length (bits_desc (scalarBits k)) = length (replicate (256 - BitLen k) False @ map (bit k) (rev [0..<BitLen k]))"
    using BitLen_le [OF assms] by (simp add: bits_desc_def)
  have "int (bits_val 0 (bits_desc (scalarBits k))) = int k"
    using assms by (simp only: bits_val_desc) (simp add: val_scalarBits)
  then show "bits_val 0 (bits_desc (scalarBits k)) =
      bits_val 0 (replicate (256 - BitLen k) False @ map (bit k) (rev [0..<BitLen k]))"
    using BitLen_bound [of k] by (simp add: bits_val_zeros bits_val_bits)
qed

definition lift_pt :: "int \<Rightarrow> int \<Rightarrow> jac" where
  "lift_pt x y = \<lparr>jX = feFromBig (nat x), jY = feFromBig (nat y), jZ = Fe 1 0 0 0\<rparr>"

lemma ctBaseG_lift: "ctBaseG = lift_pt curveGx curveGy"
  by (simp add: ctBaseG_def lift_pt_def)

lemma lift_represents: "onCurve (Some x) (Some y) \<Longrightarrow> represents (lift_pt x y) (Some (x, y))"
proof -
  assume "onCurve (Some x) (Some y)"
  then have b: "0 \<le> x" "x < curveP" "0 \<le> y" "y < curveP" by (simp_all add: onCurve_iff)
  then have n: "nat x < 256 ^ 32" "nat y < 256 ^ 32" by (simp_all add: curveP_def nat_less_iff)
  have "jrep (lift_pt x y) (x, y, 1)"
    using b n by (simp add: jrep_def rep_def lift_pt_def val_feFromBig fe_p_curveP) (simp add: val_def curveP_def)
  moreover have "unit 1" unfolding unit_def by (rule exI [of _ 1]) simp
  ultimately show ?thesis by (auto simp: represents_def intro!: exI [of _ 1])
qed

lemma identity_represents: "represents jac_identity None"
proof -
  have "unit 1" unfolding unit_def by (rule exI [of _ 1]) simp
  moreover have "jrep jac_identity (0, 1, 0)" by (simp add: jrep_def rep_def jac_identity_def val_def fe_p_def)
  ultimately show ?thesis by (auto simp: represents_def)
qed

lemma ladder_zeros:
  "ladder_ok P None (replicate n False @ bs) = ladder_ok P None bs"
  "foldl (\<lambda>R b. let R = pointDouble R in if b then pointAdd R P else R) None (replicate n False @ bs) =
   foldl (\<lambda>R b. let R = pointDouble R in if b then pointAdd R P else R) None bs"
  by (induction n) (simp_all add: dbl_ok_def pointDouble_def)

definition scalar_bits :: "int \<Rightarrow> bool list" where
  "scalar_bits k = map (bit k) (rev [0..<BitLen (nat \<bar>k\<bar>)])"

lemma scalarMult_bits:
  "scalarMult k P = foldl (\<lambda>R b. let R = pointDouble R in if b then pointAdd R P else R) None (scalar_bits k)"
  unfolding scalarMult_def scalar_bits_def foldl_map by (rule refl)

lemma ladder_agrees:
  assumes "onCurve (Some x) (Some y)" and "0 \<le> k" and "k < 2 ^ 256"
    and "ladder_ok (Some (x, y)) None (scalar_bits k)"
  shows "represents (scalarMultCT (scalarBits (nat k)) (lift_pt x y)) (scalarMult k (Some (x, y))) \<and>
    on_curve_pt (scalarMult k (Some (x, y)))"
proof -
  have n: "nat k < 2 ^ 256" using assms(2,3) by (simp add: nat_less_iff)
  have b: "bit (nat k) = bit k" using assms(2) by (auto simp: fun_eq_iff bit_nat_iff)
  have bits: "bits_desc (scalarBits (nat k)) = replicate (256 - BitLen (nat k)) False @ scalar_bits k"
    using bits_desc_scalar [OF n] assms(2) by (simp add: scalar_bits_def b)
  have "ladder_ok (Some (x, y)) None (bits_desc (scalarBits (nat k)))"
    unfolding bits ladder_zeros by (rule assms(4))
  note L = ladder_represents [OF identity_represents lift_represents [OF assms(1)] _ _ this]
  have "foldl (\<lambda>R b. let R = pointDouble R in if b then pointAdd R (Some (x, y)) else R) None
      (bits_desc (scalarBits (nat k))) = scalarMult k (Some (x, y))"
    unfolding bits scalarMult_bits by (rule ladder_zeros(2))
  with L show ?thesis using assms(1) by (simp add: scalarMultCT_ladder on_curve_pt_def)
qed

text \<open>
  C16. The constant-time ladder agrees with the reference: for a point on the curve and a scalar of
  at most 256 bits along whose bits every denominator is invertible, \<open>scalarMultCT\<close> ends in a
  triple \<open>(X, Y, Z)\<close> with \<open>Z\<close> invertible whose quotients are exactly the affine point that the
  big-integer \<open>scalarMult\<close> returns, and that point is on the curve.
\<close>

theorem ct_ladder_agrees:
  assumes "onCurve (Some x) (Some y)" and "0 \<le> k" and "k < 2 ^ 256"
    and "ladder_ok (Some (x, y)) None (scalar_bits k)"
  shows "represents (scalarMultCT (scalarBits (nat k)) (lift_pt x y)) (scalarMult k (Some (x, y))) \<and>
    on_curve_pt (scalarMult k (Some (x, y)))"
  using assms by (rule ladder_agrees)

lemma G_on_curve: "onCurve (Some curveGx) (Some curveGy)"
proof -
  have "curveGy ^ 2 - curveGx ^ 3 - 7 = curveP * (-1442042049659660869506300006036683750029629333882594701370927246876626245108435922902327776681700708714008192087431130951749952236093997894375239788520937)"
    by (simp add: curveGx_def curveGy_def curveP_def)
  then have "curve_eq curveGx curveGy" unfolding curve_eq_def by (metis dvd_triv_left)
  then show ?thesis by (simp add: onCurve_iff) (simp add: curveGx_def curveGy_def curveP_def)
qed

theorem ct_ladder_agrees_witness:
  "represents (scalarMultCT (scalarBits 2) ctBaseG) (scalarMult 2 (Some (curveGx, curveGy))) \<and>
   on_curve_pt (scalarMult 2 (Some (curveGx, curveGy)))"
proof -
  have "ModInverse curveGy curveP \<noteq> None" "ModInverse (2 * curveGy) curveP \<noteq> None" by code_simp+
  moreover have "curveGy \<noteq> 0" by (simp add: curveGy_def)
  moreover have "scalar_bits 2 = [True, False]" by code_simp
  ultimately have "ladder_ok (Some (curveGx, curveGy)) None (scalar_bits 2)"
    by (simp add: dbl_ok_def add_ok_def pointDouble_def pointAdd_def)
  from ct_ladder_agrees [OF G_on_curve _ _ this] show ?thesis by (simp add: ctBaseG_lift)
qed

section \<open>Signatures and keys\<close>

lemma curveN_BitLen: "BitLen (nat curveN) = 256"
proof (rule antisym)
  show "BitLen (nat curveN) \<le> 256" by (rule BitLen_le) (simp add: curveN_def)
  show "256 \<le> BitLen (nat curveN)"
  proof (rule ccontr)
    assume "\<not> 256 \<le> BitLen (nat curveN)"
    then have "2 ^ BitLen (nat curveN) \<le> (2 :: nat) ^ 255" by (intro power_increasing) simp_all
    with BitLen_bound [of "nat curveN"] show False by (simp add: curveN_def)
  qed
qed

lemma rfc6979_range: "rfc6979Nonce d h = Some k \<Longrightarrow> 0 < k \<and> k < curveN"
  unfolding rfc6979Nonce_def Let_def by (rule nonce_range)

lemma sign_loop_attempt:
  assumes "sign_loop d hash z i n = Some (Inr sig)"
  shows "\<exists>k. 0 < k \<and> k < curveN \<and> sign_attempt d z k = Some (Inr sig)"
  using assms
proof (induction n arbitrary: i)
  case (Suc n)
  obtain k where "rfc6979Nonce d hash = Some k \<or> rfc6979Nonce d (slice (sha256 (hash @ [of_nat i]))) = Some k"
    and r: "(case sign_attempt d z k of None \<Rightarrow> sign_loop d hash z (Suc i) n | Some r \<Rightarrow> Some r) = Some (Inr sig)"
    using Suc.prems by (auto simp: bind_eq_Some_conv split: if_splits)
  then have "0 < k \<and> k < curveN" using rfc6979_range by blast
  with r Suc.IH show ?case by (cases "sign_attempt d z k") auto
qed simp

lemma sign_loop_not_key: "sign_loop d hash z i n \<noteq> Some (Inl ErrInvalidKey)"
proof (induction n arbitrary: i)
  case (Suc n)
  have "sign_attempt d z k \<noteq> Some (Inl ErrInvalidKey)" for k
    by (auto simp: sign_attempt_def Let_def split: option.splits if_splits)
  then show ?case using Suc by (auto simp: bind_eq_Some_conv split: option.splits)
qed simp

text \<open>
  C35. What \<open>Sign\<close> returns: an unusable key, and nothing else, is reported as invalid; a signature is
  always in canonical form, \<open>0 < R < n\<close> and \<open>0 < S \<le> n / 2\<close>, its \<open>R\<close> is the abscissa of the nonce
  point modulo \<open>n\<close>, and it satisfies the ECDSA equation \<open>S k = \<plusminus> (R d + z)\<close> modulo \<open>n\<close> for a nonce
  \<open>k\<close> in range.
\<close>

theorem sign_canonical:
  "(Sign key hash = Some (Inl ErrInvalidKey) \<longleftrightarrow>
     (case key of None \<Rightarrow> True | Some sk \<Rightarrow> sk_D sk = 0 \<or> curveN \<le> sk_D sk)) \<and>
   (case Sign key hash of
      Some (Inr sig) \<Rightarrow>
        0 < sig_R sig \<and> sig_R sig < curveN \<and> 0 < sig_S sig \<and> IsLowS (Some sig) \<and>
        (\<exists>sk k. key = Some sk \<and> 0 < k \<and> k < curveN \<and>
           sig_R sig = int (fe_big (affineX (scalarMultCT (scalarBits (nat k)) ctBaseG))) mod curveN \<and>
           sig_S sig * k mod curveN \<in>
             {(sig_R sig * sk_D sk + bits2int hash 256) mod curveN,
              - (sig_R sig * sk_D sk + bits2int hash 256) mod curveN})
    | _ \<Rightarrow> True)"
proof
  show "Sign key hash = Some (Inl ErrInvalidKey) \<longleftrightarrow>
     (case key of None \<Rightarrow> True | Some sk \<Rightarrow> sk_D sk = 0 \<or> curveN \<le> sk_D sk)"
    using sign_loop_not_key by (auto simp: Sign_def split: option.splits)
  show "case Sign key hash of
      Some (Inr sig) \<Rightarrow>
        0 < sig_R sig \<and> sig_R sig < curveN \<and> 0 < sig_S sig \<and> IsLowS (Some sig) \<and>
        (\<exists>sk k. key = Some sk \<and> 0 < k \<and> k < curveN \<and>
           sig_R sig = int (fe_big (affineX (scalarMultCT (scalarBits (nat k)) ctBaseG))) mod curveN \<and>
           sig_S sig * k mod curveN \<in>
             {(sig_R sig * sk_D sk + bits2int hash 256) mod curveN,
              - (sig_R sig * sk_D sk + bits2int hash 256) mod curveN})
    | _ \<Rightarrow> True"
  proof (cases "\<exists>sig. Sign key hash = Some (Inr sig)")
    case True
    then obtain sig where s: "Sign key hash = Some (Inr sig)" ..
    then obtain sk where sk: "key = Some sk"
      and "sign_loop (sk_D sk) hash (bits2int hash 256) 0 1000 = Some (Inr sig)"
      by (auto simp: Sign_def curveN_BitLen split: option.splits if_splits)
    from sign_loop_attempt [OF this(2)] obtain k
      where k: "0 < k" "k < curveN" "sign_attempt (sk_D sk) (bits2int hash 256) k = Some (Inr sig)" by blast
    note a = sign_attempt_spec [OF k(3)]
    have "IsLowS (Some sig)" using a(4) by (simp add: IsLowS_def)
    with a(1-3,5,6) k(1,2) sk show ?thesis
      unfolding s option.case sum.case insert_iff empty_iff by blast
  next
    case False
    then show ?thesis by (auto split: option.split sum.split)
  qed
qed

lemma bit0_odd: "bit (y :: int) 0 = odd y"
  by (simp add: bit_0)

lemma SerializeCompressed_eq:
  assumes "0 \<le> x" and "x < 256 ^ 32"
  shows "SerializeCompressed \<lparr>pk_X = Some x, pk_Y = Some y\<rparr> =
    Inr ((if odd y then 0x03 else 0x02) # FillBytes 32 (nat x))"
proof -
  have l: "length (abs_Bytes x) \<le> 32" using assms by (intro abs_Bytes_length) simp
  then have "take (33 - length (abs_Bytes x)) (t # replicate 32 0) @ abs_Bytes x = t # FillBytes 32 (nat x)" for t :: byte
    using abs_Bytes_FillBytes [of 32 x] assms(1) by (simp add: Suc_diff_le take_Cons' min_def)
  then show ?thesis using l by (simp add: SerializeCompressed_def Let_def bit0_odd)
qed

text \<open>
  C36. A compressed public key has one encoding: whatever \<open>ParseCompressed\<close> accepts is a point on
  the curve in field range, and serialising that point gives the parsed bytes back, so two
  different byte strings never parse to the same key.
\<close>

theorem parse_compressed_canonical:
  "case ParseCompressed b of
     Inl e \<Rightarrow> e = ErrPubKey
   | Inr pub \<Rightarrow> onCurve (pk_X pub) (pk_Y pub) \<and> SerializeCompressed pub = Inr b"
proof (cases "ParseCompressed b")
  case (Inl e)
  then show ?thesis by (auto simp: ParseCompressed_def Let_def split: if_splits)
next
  case (Inr pub)
  define x where "x = int (SetBytes (drop 1 b))"
  define r where "r = (x * x * x + curveB) mod curveP"
  define y0 where "y0 = big_Exp r (drop_bit 2 (nat (curveP + 1))) curveP"
  define y where "y = (if bit y0 0 \<noteq> (b ! 0 = 0x03) then curveP - y0 else y0)"
  have l: "length b = 33" and t: "b ! 0 = 0x02 \<or> b ! 0 = 0x03"
    and pub: "pub = \<lparr>pk_X = Some x, pk_Y = Some y\<rparr>" and on: "onCurve (Some x) (Some y)"
    using Inr unfolding ParseCompressed_def x_def [symmetric] r_def [symmetric] y0_def [symmetric]
      y_def [symmetric] Let_def by (auto split: if_splits)
  have P: "odd curveP" by (simp add: curveP_def)
  then have odd: "odd y \<longleftrightarrow> b ! 0 = 0x03" by (auto simp: y_def bit0_odd)
  have "SetBytes (drop 1 b) < 256 ^ 32" using SetBytes_bound [of "drop 1 b"] l by simp
  then have "x < 256 ^ 32" "0 \<le> x" "nat x = SetBytes (drop 1 b)" unfolding x_def by simp_all
  moreover have "FillBytes 32 (SetBytes (drop 1 b)) = drop 1 b"
    using FillBytes_SetBytes [of "drop 1 b"] l by simp
  moreover have "b ! 0 # drop 1 b = b" using l by (cases b) simp_all
  ultimately have "SerializeCompressed pub = Inr b"
    using SerializeCompressed_eq [of x y] odd t by (auto simp: pub)
  then show ?thesis using Inr on by (simp add: pub)
qed

end
