(* ===== verification/Commitment.thy ===== *)
theory Commitment
  imports Sha256
begin

text \<open>
  \<^verbatim>\<open>commitment/commitment.go\<close>: the SHA-256d Merkle core. Trees duplicate the odd last
  node of a level; a path lists the siblings from the leaf to the root; \<open>Fold\<close> collapses a
  leaf along a path. The L0 field tree and the L0--L2 verifiers are built from these.
\<close>

section \<open>The Merkle core\<close>

record PathElem =
  pe_Sibling :: hash
  pe_Right :: bool

record FieldLeaf =
  fl_Index :: byte
  fl_Bytes :: bytes

type_synonym TxFields = "FieldLeaf list"

definition MaxDepth :: nat where
  "MaxDepth = 255"

definition DoubleSHA256 :: "bytes \<Rightarrow> hash" where
  "DoubleSHA256 b = sha256 (slice (sha256 b))"

definition HashPair :: "hash \<Rightarrow> hash \<Rightarrow> hash" where
  "HashPair left right = DoubleSHA256 (slice left @ slice right)"

definition leafHash :: "FieldLeaf \<Rightarrow> hash" where
  "leafHash f = DoubleSHA256 (fl_Index f # fl_Bytes f)"

text \<open>The inner loop of \<open>BuildMerkleTree\<close>: one level from the level below it.\<close>

fun next_level :: "hash list \<Rightarrow> hash list" where
  "next_level [] = []"
| "next_level [left] = [HashPair left left]"
| "next_level (left # right # rest) = HashPair left right # next_level rest"

lemma next_level_length: "length (next_level l) = (length l + 1) div 2"
  by (induction l rule: next_level.induct) auto

text \<open>The outer loop: levels are added while the last one has more than one node.\<close>

function build_layers :: "hash list \<Rightarrow> hash list list" where
  "build_layers level =
     (if 1 < length level then level # build_layers (next_level level) else [level])"
  by pat_completeness auto
termination
  by (relation "measure length") (auto simp: next_level_length)

declare build_layers.simps [simp del]

definition BuildMerkleTree :: "hash list \<Rightarrow> go_error + hash \<times> hash list list" where
  "BuildMerkleTree leaves =
     (if leaves = [] then Inl ErrEmpty
      else let layers = build_layers leaves in Inr (hd (last layers), layers))"

definition MerkleRoot :: "hash list \<Rightarrow> go_error + hash" where
  "MerkleRoot leaves = (case BuildMerkleTree leaves of Inl e \<Rightarrow> Inl e | Inr (root, _) \<Rightarrow> Inr root)"

text \<open>
  The loop of \<open>MerklePath\<close>, over all levels but the last. An index expression out of range
  is a panic; \<open>merkle_path_folds\<close> below shows it cannot happen on the levels of a tree.
\<close>

definition path_elem :: "hash list \<Rightarrow> nat \<Rightarrow> go_error + PathElem" where
  "path_elem cur idx =
     (if idx mod 2 = 0 then
        (let sib = (if idx + 1 < length cur then idx + 1 else idx) in
         if sib < length cur then Inr \<lparr>pe_Sibling = cur ! sib, pe_Right = True\<rparr> else Inl PanicIndex)
      else
        (if idx - 1 < length cur then Inr \<lparr>pe_Sibling = cur ! (idx - 1), pe_Right = False\<rparr>
         else Inl PanicIndex))"

fun path_loop :: "hash list list \<Rightarrow> nat \<Rightarrow> go_error + PathElem list" where
  "path_loop (cur # nxt # rest) idx =
     (case path_elem cur idx of Inl e \<Rightarrow> Inl e
      | Inr e \<Rightarrow> (case path_loop (nxt # rest) (idx div 2) of Inl x \<Rightarrow> Inl x | Inr p \<Rightarrow> Inr (e # p)))"
| "path_loop _ idx = Inr []"

definition MerklePath :: "hash list list \<Rightarrow> int \<Rightarrow> go_error + PathElem list" where
  "MerklePath layers index =
     (if layers = [] \<or> index < 0 \<or> int (length (hd layers)) \<le> index then Inl ErrLeafIndex
      else path_loop layers (nat index))"

text \<open>
  \<open>MerklePathInto\<close> appends to the caller's buffer, resliced to length zero, instead of a fresh
  slice. The buffer's contents before the call do not matter; its length afterwards does.
\<close>

fun path_into_loop :: "hash list list \<Rightarrow> nat \<Rightarrow> PathElem list \<Rightarrow> go_error + PathElem list" where
  "path_into_loop (cur # nxt # rest) idx dst =
     (case path_elem cur idx of Inl e \<Rightarrow> Inl e
      | Inr e \<Rightarrow> path_into_loop (nxt # rest) (idx div 2) (dst @ [e]))"
| "path_into_loop _ idx dst = Inr dst"

definition MerklePathInto :: "hash list list \<Rightarrow> int \<Rightarrow> PathElem list \<Rightarrow> go_error + PathElem list" where
  "MerklePathInto layers index dst =
     (if layers = [] \<or> index < 0 \<or> int (length (hd layers)) \<le> index then Inl ErrLeafIndex
      else path_into_loop layers (nat index) (take 0 dst))"

fun Fold :: "hash \<Rightarrow> PathElem list \<Rightarrow> hash" where
  "Fold node [] = node"
| "Fold node (e # path) =
     Fold (if pe_Right e then HashPair node (pe_Sibling e) else HashPair (pe_Sibling e) node) path"

text \<open>\<^verbatim>\<open>bits.Len64\<close>: the number of bits needed to represent a value.\<close>

fun bit_len :: "nat \<Rightarrow> nat" where
  "bit_len n = (if n = 0 then 0 else Suc (bit_len (n div 2)))"

declare bit_len.simps [simp del]

definition CeilLog2 :: "uint64 \<Rightarrow> nat" where
  "CeilLog2 n = (if n \<le> 1 then 0 else bit_len (unat (n - 1)))"

section \<open>L0 to L2\<close>

definition BuildMTxID :: "TxFields \<Rightarrow> go_error + hash \<times> hash list list" where
  "BuildMTxID flds =
     (if flds = [] then Inl ErrEmpty else BuildMerkleTree (map leafHash flds))"

definition MTxIDPath :: "TxFields \<Rightarrow> byte \<Rightarrow> go_error + hash \<times> PathElem list \<times> hash" where
  "MTxIDPath flds fieldIndex =
     (if length flds \<le> unat fieldIndex then Inl ErrFieldIndex
      else (case BuildMTxID flds of Inl e \<Rightarrow> Inl e
        | Inr (root, layers) \<Rightarrow>
            (case MerklePath layers (int (unat fieldIndex)) of Inl e \<Rightarrow> Inl e
             | Inr path \<Rightarrow> Inr (leafHash (flds ! unat fieldIndex), path, root))))"

definition LeafForField :: "FieldLeaf \<Rightarrow> hash" where
  "LeafForField f = leafHash f"

definition VerifyMTxIDPath :: "hash \<Rightarrow> PathElem list \<Rightarrow> hash \<Rightarrow> bool" where
  "VerifyMTxIDPath leaf path mtxid = (if MaxDepth < length path then False else Fold leaf path = mtxid)"

definition VerifySubtreePath :: "hash \<Rightarrow> PathElem list \<Rightarrow> hash \<Rightarrow> bool" where
  "VerifySubtreePath txid path subtreeRoot =
     (if 20 < length path then False else Fold txid path = subtreeRoot)"

definition VerifyBlockPath :: "hash \<Rightarrow> PathElem list \<Rightarrow> hash \<Rightarrow> bool" where
  "VerifyBlockPath subtreeRoot path blockMerkleRoot =
     (if MaxDepth < length path then False else Fold subtreeRoot path = blockMerkleRoot)"

definition VerifyToBlockRoot ::
  "hash \<Rightarrow> PathElem list \<Rightarrow> PathElem list \<Rightarrow> PathElem list \<Rightarrow> hash \<Rightarrow> bool \<times> nat" where
  "VerifyToBlockRoot leaf l0 l1 l2 blockMerkleRoot =
     (let depth = length l0 + length l1 + length l2 in
      if MaxDepth < depth \<or> 20 < length l1 then (False, depth)
      else (Fold (Fold (Fold leaf l0) l1) l2 = blockMerkleRoot, depth))"

section \<open>Trees and paths\<close>

lemma build_layers_nonempty [simp]: "build_layers l \<noteq> []"
  by (subst build_layers.simps) simp

lemma hd_build_layers [simp]: "hd (build_layers l) = l"
  by (subst build_layers.simps) simp

lemma build_layers_unfold:
  "1 < length l \<Longrightarrow> build_layers l = l # build_layers (next_level l)"
  by (subst build_layers.simps) simp

lemma build_layers_single: "\<not> 1 < length l \<Longrightarrow> build_layers l = [l]"
  by (subst build_layers.simps) simp

lemma next_level_nth:
  "i < length l \<Longrightarrow>
   next_level l ! (i div 2) =
     (if even i then HashPair (l ! i) (l ! (if i + 1 < length l then i + 1 else i))
      else HashPair (l ! (i - 1)) (l ! i))"
proof (induction l arbitrary: i rule: next_level.induct)
  case (3 left right rest)
  show ?case
  proof (cases "i < 2")
    case True
    then have "i = 0 \<or> i = 1" by auto
    then show ?thesis by auto
  next
    case False
    then obtain j where j: "i = Suc (Suc j)" by (metis add_2_eq_Suc le_Suc_ex not_less)
    with "3.prems" have "j < length rest" by simp
    from "3.IH" [OF this] show ?thesis
      by (cases j) (auto simp: j)
  qed
qed auto

lemma path_step:
  assumes "i < length l"
  shows "\<exists>e. path_elem l i = Inr e \<and>
    (if pe_Right e then HashPair (l ! i) (pe_Sibling e) else HashPair (pe_Sibling e) (l ! i))
      = next_level l ! (i div 2)"
  using assms next_level_nth [OF assms]
  by (auto simp: path_elem_def Let_def even_iff_mod_2_eq_zero)

text \<open>The number of levels above the leaves is the depth law of the scaling model.\<close>

lemma layers_depth: "l \<noteq> [] \<Longrightarrow> length (build_layers l) = Suc (bit_len (length l - 1))"
proof (induction l rule: build_layers.induct)
  case (1 l)
  show ?case
  proof (cases "1 < length l")
    case True
    then have ne: "next_level l \<noteq> []"
      using next_level_length [of l] by (cases "next_level l") auto
    have "(length l + 1) div 2 - 1 = (length l - 1) div 2" using True by linarith
    with "1.IH" [OF True ne] True show ?thesis
      by (simp add: build_layers_unfold next_level_length bit_len.simps [of "length l - Suc 0"])
  next
    case False
    with "1.prems" have "length l = 1" by (cases l) auto
    then show ?thesis by (simp add: build_layers_single bit_len.simps)
  qed
qed

lemma path_loop_build:
  assumes "i < length l"
  shows "\<exists>p. path_loop (build_layers l) i = Inr p \<and> Fold (l ! i) p = hd (last (build_layers l)) \<and>
    length p = length (build_layers l) - 1"
  using assms
proof (induction l arbitrary: i rule: build_layers.induct)
  case (1 l)
  show ?case
  proof (cases "1 < length l")
    case True
    from path_step [OF "1.prems"] obtain e where e: "path_elem l i = Inr e"
      and step: "(if pe_Right e then HashPair (l ! i) (pe_Sibling e)
                  else HashPair (pe_Sibling e) (l ! i)) = next_level l ! (i div 2)" by blast
    have "i div 2 < length (next_level l)"
      using "1.prems" by (simp add: next_level_length)
    from "1.IH" [OF True this] obtain p where
      p: "path_loop (build_layers (next_level l)) (i div 2) = Inr p"
      and f: "Fold (next_level l ! (i div 2)) p = hd (last (build_layers (next_level l)))"
      and len: "length p = length (build_layers (next_level l)) - 1" by blast
    obtain nxt rest where ar: "build_layers (next_level l) = nxt # rest"
      by (cases "build_layers (next_level l)") simp_all
    have "path_loop (build_layers l) i = Inr (e # p)"
      using p by (simp add: build_layers_unfold [OF True] ar e)
    moreover have "Fold (l ! i) (e # p) = hd (last (build_layers l))"
      using f by (simp add: build_layers_unfold [OF True] step [symmetric])
    moreover have "length (e # p) = length (build_layers l) - 1"
      using len by (simp add: build_layers_unfold [OF True] ar)
    ultimately show ?thesis by blast
  next
    case False
    with "1.prems" have "length l = 1" "i = 0" by auto
    then show ?thesis by (simp add: build_layers_single hd_conv_nth [of l] length_greater_0_conv [symmetric] del: length_greater_0_conv)
  qed
qed

lemma bit_len_bound: "n < 2 ^ k \<Longrightarrow> bit_len n \<le> k"
proof (induction n arbitrary: k rule: bit_len.induct)
  case (1 n)
  show ?case
  proof (cases "n = 0")
    case False
    with "1.prems" obtain j where k: "k = Suc j" by (cases k) auto
    with "1.prems" have "n div 2 < 2 ^ j" by auto
    with "1.IH" False k show ?thesis by (simp add: bit_len.simps [of n])
  qed (simp add: bit_len.simps)
qed

lemma bit_len_CeilLog2:
  assumes "0 < n" and "n < 2 ^ 64"
  shows "CeilLog2 (of_nat n) = bit_len (n - 1)"
proof (cases "n = 1")
  case True
  then show ?thesis by (simp add: CeilLog2_def bit_len.simps)
next
  case False
  with assms have n: "unat (of_nat n :: uint64) = n" "1 < n"
    by (simp_all add: unat_of_nat)
  then have gt: "\<not> (of_nat n :: uint64) \<le> 1"
    by (metis not_le unat_1 word_less_nat_alt)
  then have "unat ((of_nat n :: uint64) - 1) = n - 1"
    using n by (simp add: unat_sub word_le_nat_alt)
  with gt show ?thesis by (simp add: CeilLog2_def)
qed

lemma BuildMerkleTree_Inr:
  "BuildMerkleTree leaves = Inr (root, layers) \<longleftrightarrow>
   leaves \<noteq> [] \<and> layers = build_layers leaves \<and> root = hd (last (build_layers leaves))"
  by (auto simp: BuildMerkleTree_def Let_def)

lemma MerkleRoot_Inr:
  "MerkleRoot leaves = Inr root \<longleftrightarrow> leaves \<noteq> [] \<and> root = hd (last (build_layers leaves))"
  by (auto simp: MerkleRoot_def BuildMerkleTree_def Let_def)

lemma MerklePath_build:
  assumes "i < length leaves"
  shows "\<exists>p. MerklePath (build_layers leaves) (int i) = Inr p \<and>
    Fold (leaves ! i) p = hd (last (build_layers leaves)) \<and> length p = bit_len (length leaves - 1)"
proof -
  from path_loop_build [OF assms] obtain p where
    "path_loop (build_layers leaves) i = Inr p"
    "Fold (leaves ! i) p = hd (last (build_layers leaves))"
    "length p = length (build_layers leaves) - 1" by blast
  moreover from assms have "leaves \<noteq> []" by auto
  ultimately show ?thesis
    using assms layers_depth [of leaves] by (simp add: MerklePath_def)
qed

lemma path_into_loop_eq:
  "path_into_loop layers idx dst =
     (case path_loop layers idx of Inl e \<Rightarrow> Inl e | Inr p \<Rightarrow> Inr (dst @ p))"
  by (induction layers idx arbitrary: dst rule: path_loop.induct) (auto split: sum.splits)

lemma Fold_append: "Fold x (p @ q) = Fold (Fold x p) q"
  by (induction x p rule: Fold.induct) simp_all

lemma next_level_duplicate_tail: "odd (length l) \<Longrightarrow> next_level (l @ [last l]) = next_level l"
  by (induction l rule: next_level.induct) auto

section \<open>Binding\<close>

text \<open>
  SHA-256d has collisions, so uniqueness of a leaf under a root is stated constructively: from
  two different openings of one root along the same positions, \<open>fold_collision\<close> computes two
  different byte strings with the same digest.
\<close>

definition node_preimage :: "hash \<Rightarrow> PathElem \<Rightarrow> bytes" where
  "node_preimage node e =
     (if pe_Right e then slice node @ slice (pe_Sibling e) else slice (pe_Sibling e) @ slice node)"

fun fold_collision :: "hash \<Rightarrow> PathElem list \<Rightarrow> hash \<Rightarrow> PathElem list \<Rightarrow> bytes \<times> bytes" where
  "fold_collision a (e # p) b (f # q) =
     (let x = node_preimage a e; y = node_preimage b f in
      if x \<noteq> y \<and> DoubleSHA256 x = DoubleSHA256 y then (x, y)
      else fold_collision (DoubleSHA256 x) p (DoubleSHA256 y) q)"
| "fold_collision _ _ _ _ = ([], [])"

definition collision :: "bytes \<times> bytes \<Rightarrow> bool" where
  "collision xy \<longleftrightarrow> fst xy \<noteq> snd xy \<and> DoubleSHA256 (fst xy) = DoubleSHA256 (snd xy)"

lemma Fold_preimage: "Fold a (e # p) = Fold (DoubleSHA256 (node_preimage a e)) p"
  by (simp add: node_preimage_def HashPair_def)

lemma node_preimage_inject:
  assumes "pe_Right e = pe_Right f" and "node_preimage a e = node_preimage b f"
  shows "a = b \<and> e = f"
  using assms by (auto simp: node_preimage_def split: if_splits)

lemma fold_collision_found:
  assumes "map pe_Right p = map pe_Right q" and "Fold a p = Fold b q" and "(a, p) \<noteq> (b, q)"
  shows "collision (fold_collision a p b q)"
  using assms
proof (induction a p b q rule: fold_collision.induct)
  case (1 a e p b f q)
  let ?x = "node_preimage a e" and ?y = "node_preimage b f"
  show ?case
  proof (cases "?x \<noteq> ?y \<and> DoubleSHA256 ?x = DoubleSHA256 ?y")
    case True
    then show ?thesis by (simp add: collision_def)
  next
    case False
    have "(DoubleSHA256 ?x, p) \<noteq> (DoubleSHA256 ?y, q)"
    proof (cases "?x = ?y")
      case True
      have "a = b \<and> e = f"
        by (rule node_preimage_inject) (use "1.prems"(1) True in simp_all)
      with "1.prems"(3) show ?thesis by auto
    qed (use False in auto)
    then have "collision (fold_collision (DoubleSHA256 ?x) p (DoubleSHA256 ?y) q)"
      using "1.prems"(1,2) False
      by (intro "1.IH") (simp_all add: Fold_preimage del: Fold.simps)
    moreover have "fold_collision a (e # p) b (f # q) = fold_collision (DoubleSHA256 ?x) p (DoubleSHA256 ?y) q"
      using False by (auto simp: Let_def)
    ultimately show ?thesis by simp
  qed
qed auto

section \<open>Properties\<close>

text \<open>
  C11. For every non-empty list of leaves and every position in it, \<open>MerklePath\<close> on the levels
  built by \<open>BuildMerkleTree\<close> returns a path (no out-of-range index is reached), folding the leaf
  along it gives the root, and the path has exactly \<open>CeilLog2\<close> of the number of leaves elements.
\<close>

theorem merkle_path_folds:
  assumes "BuildMerkleTree leaves = Inr (root, layers)" and "i < length leaves"
    and "length leaves < 2 ^ 64"
  shows "\<exists>p. MerklePath layers (int i) = Inr p \<and> Fold (leaves ! i) p = root \<and>
    length p = CeilLog2 (of_nat (length leaves))"
proof -
  from assms(1) have t: "layers = build_layers leaves" "root = hd (last (build_layers leaves))"
    by (simp_all add: BuildMerkleTree_Inr)
  from assms(2) have "0 < length leaves" by auto
  with MerklePath_build [OF assms(2)] assms(3) show ?thesis
    by (simp add: t bit_len_CeilLog2)
qed

theorem merkle_path_folds_witness:
  "\<exists>p. MerklePath (build_layers [copy_from [1], copy_from [2], copy_from [3]]) 2 = Inr p \<and>
     Fold (copy_from [3]) p = hd (last (build_layers [copy_from [1], copy_from [2], copy_from [3]])) \<and>
     length p = CeilLog2 3"
  using merkle_path_folds
    [of "[copy_from [1], copy_from [2], copy_from [3]]" _
        "build_layers [copy_from [1], copy_from [2], copy_from [3]]" 2]
  by (simp add: BuildMerkleTree_Inr)



text \<open>
  The allocation-free \<open>MerklePathInto\<close> returns the same path, or the same error, as
  \<open>MerklePath\<close>, whatever the caller's buffer held.
\<close>

theorem merkle_path_into_eq: "MerklePathInto layers index dst = MerklePath layers index"
  by (auto simp: MerklePathInto_def MerklePath_def path_into_loop_eq split: sum.splits)

text \<open>
  The duplication rule makes roots malleable: appending a copy of the last leaf to a list of
  odd length (above one) leaves the Merkle root unchanged, so a root alone does not determine the
  list of leaves.
\<close>

theorem merkle_root_duplicate_tail:
  assumes "odd (length leaves)" and "1 < length leaves"
  shows "MerkleRoot (leaves @ [last leaves]) = MerkleRoot leaves"
proof -
  have dup: "build_layers (leaves @ [last leaves]) = (leaves @ [last leaves]) # build_layers (next_level leaves)"
    using assms by (subst build_layers_unfold) (auto simp: next_level_duplicate_tail)
  have "build_layers leaves = leaves # build_layers (next_level leaves)"
    using assms(2) by (rule build_layers_unfold)
  moreover have "leaves \<noteq> []" using assms(2) by auto
  ultimately show ?thesis
    using dup by (simp add: MerkleRoot_def BuildMerkleTree_def Let_def)
qed

theorem merkle_root_duplicate_tail_witness:
  "MerkleRoot ([copy_from [1], copy_from [2], copy_from [3]] @ [last [copy_from [1], copy_from [2], copy_from [3]]])
     = MerkleRoot [copy_from [1], copy_from [2], copy_from [3]]"
  by (rule merkle_root_duplicate_tail) simp_all

text \<open>
  Revealing one field: for every field position of a transaction, \<open>MTxIDPath\<close> returns the
  field's leaf digest, a path and the transaction id that \<open>BuildMTxID\<close> computes, and
  \<open>VerifyMTxIDPath\<close> accepts the three; a position past the fields is the range error.
\<close>

theorem mtxid_path_verifies:
  assumes "flds \<noteq> []" and "length flds < 2 ^ 64"
  shows "if unat i < length flds
     then \<exists>path mtxid layers. MTxIDPath flds i = Inr (LeafForField (flds ! unat i), path, mtxid) \<and>
       BuildMTxID flds = Inr (mtxid, layers) \<and> VerifyMTxIDPath (LeafForField (flds ! unat i)) path mtxid
     else MTxIDPath flds i = Inl ErrFieldIndex"
proof (cases "unat i < length flds")
  case True
  then have i: "unat i < length (map leafHash flds)" by simp
  from MerklePath_build [OF i] obtain p where
    p: "MerklePath (build_layers (map leafHash flds)) (int (unat i)) = Inr p"
    "Fold (map leafHash flds ! unat i) p = hd (last (build_layers (map leafHash flds)))"
    and len: "length p = bit_len (length flds - 1)" by auto
  have "length flds - 1 < 2 ^ 64" using assms(2) by linarith
  then have "length p \<le> 64" unfolding len by (rule bit_len_bound)
  with p True assms(1) show ?thesis
    by (simp add: MTxIDPath_def BuildMTxID_def BuildMerkleTree_def Let_def LeafForField_def
        VerifyMTxIDPath_def MaxDepth_def)
next
  case False
  then show ?thesis by (simp add: MTxIDPath_def)
qed

theorem mtxid_path_verifies_witness:
  "\<exists>path mtxid layers.
     MTxIDPath [\<lparr>fl_Index = 0, fl_Bytes = [7]\<rparr>, \<lparr>fl_Index = 1, fl_Bytes = []\<rparr>] 1
       = Inr (LeafForField \<lparr>fl_Index = 1, fl_Bytes = []\<rparr>, path, mtxid) \<and>
     BuildMTxID [\<lparr>fl_Index = 0, fl_Bytes = [7]\<rparr>, \<lparr>fl_Index = 1, fl_Bytes = []\<rparr>] = Inr (mtxid, layers) \<and>
     VerifyMTxIDPath (LeafForField \<lparr>fl_Index = 1, fl_Bytes = []\<rparr>) path mtxid"
  using mtxid_path_verifies [of "[\<lparr>fl_Index = 0, fl_Bytes = [7]\<rparr>, \<lparr>fl_Index = 1, fl_Bytes = []\<rparr>]" 1]
  by simp

end
