(* ===== verification/Go_Monad.thy ===== *)
theory Go_Monad
  imports Prelude
begin

text \<open>
  Stateful Go code as explicit state passing: an operation takes the state of the object it
  mutates and returns the new state together with either an error (\<open>Inl\<close>) or its result.
  An error keeps the state reached so far, as an early \<^verbatim>\<open>return err\<close> does.
  The second half relates two runs of the same client code over two implementations of an
  interface: \<open>implements iv af m f\<close> says that \<open>m\<close>, started in a state that satisfies the
  invariant, does exactly what \<open>f\<close> does on the abstraction of that state.
\<close>

named_theorems gom_simps \<open>evaluation of operations in the state and error monad\<close>
named_theorems sim_intros \<open>rules that build a simulation from simulations of its parts\<close>

type_synonym ('s, 'a) gom = "'s \<Rightarrow> 's \<times> (go_error + 'a)"

definition ret :: "'a \<Rightarrow> ('s, 'a) gom" where
  "ret x s = (s, Inr x)"

definition throw :: "go_error \<Rightarrow> ('s, 'a) gom" where
  "throw e s = (s, Inl e)"

definition bindM :: "('s, 'a) gom \<Rightarrow> ('a \<Rightarrow> ('s, 'b) gom) \<Rightarrow> ('s, 'b) gom" where
  "bindM m f s = (case m s of (s', Inl e) \<Rightarrow> (s', Inl e) | (s', Inr x) \<Rightarrow> f x s')"

definition modifyM :: "('s \<Rightarrow> 's) \<Rightarrow> ('s, unit) gom" where
  "modifyM f s = (f s, Inr ())"

definition getM :: "('s \<Rightarrow> 'a) \<Rightarrow> ('s, 'a) gom" where
  "getM f s = (s, Inr (f s))"

text \<open>The error of a call as a value, for code that goes on after it.\<close>

definition tryM :: "('s, 'a) gom \<Rightarrow> ('s, go_error + 'a) gom" where
  "tryM m s = (case m s of (s', r) \<Rightarrow> (s', Inr r))"

text \<open>The result of a pure call that may fail.\<close>

definition liftE :: "go_error + 'a \<Rightarrow> ('s, 'a) gom" where
  "liftE r s = (s, r)"

text \<open>\<^verbatim>\<open>for _, x := range xs { ... }\<close> with an early return on an error.\<close>

primrec forM :: "'x list \<Rightarrow> ('x \<Rightarrow> ('s, unit) gom) \<Rightarrow> ('s, unit) gom" where
  "forM [] f = ret ()"
| "forM (x # xs) f = bindM (f x) (\<lambda>_. forM xs f)"

text \<open>\<^verbatim>\<open>for i, x := range xs { ... }\<close>: the body also gets the index, from \<open>i\<close> on.\<close>

primrec forIdxM :: "nat \<Rightarrow> 'x list \<Rightarrow> (nat \<Rightarrow> 'x \<Rightarrow> ('s, unit) gom) \<Rightarrow> ('s, unit) gom" where
  "forIdxM i [] f = ret ()"
| "forIdxM i (x # xs) f = bindM (f i x) (\<lambda>_. forIdxM (Suc i) xs f)"

text \<open>An operation on one component of a pair of objects.\<close>

definition on_fst :: "('s, 'a) gom \<Rightarrow> ('s \<times> 'r, 'a) gom" where
  "on_fst m p = (case m (fst p) of (s', r) \<Rightarrow> ((s', snd p), r))"

definition on_snd :: "('r, 'a) gom \<Rightarrow> ('s \<times> 'r, 'a) gom" where
  "on_snd m p = (case m (snd p) of (r', x) \<Rightarrow> ((fst p, r'), x))"

lemma gom_eval [gom_simps]:
  "ret x s = (s, Inr x)"
  "throw e s = (s, Inl e)"
  "modifyM f s = (f s, Inr ())"
  "getM g s = (s, Inr (g s))"
  "liftE r s = (s, r)"
  by (simp_all add: liftE_def ret_def throw_def modifyM_def getM_def)

lemma tryM_eval [gom_simps]: "m s = (s', r) \<Longrightarrow> tryM m s = (s', Inr r)"
  by (simp add: tryM_def)

lemma bindM_Inr [gom_simps]: "m s = (s', Inr x) \<Longrightarrow> bindM m f s = f x s'"
  by (simp add: bindM_def)

lemma bindM_Inl [gom_simps]: "m s = (s', Inl e) \<Longrightarrow> bindM m f s = (s', Inl e)"
  by (simp add: bindM_def)

lemma bindM_eq_Inr:
  "bindM m f s = (t, Inr y) \<longleftrightarrow> (\<exists>s' x. m s = (s', Inr x) \<and> f x s' = (t, Inr y))"
  by (auto simp: bindM_def split: prod.splits sum.splits)

lemma forM_append: "forM (xs @ ys) f = bindM (forM xs f) (\<lambda>_. forM ys f)"
proof (induction xs)
  case Nil
  then show ?case by (auto simp: bindM_def ret_def)
next
  case (Cons x xs)
  then show ?case by (auto simp: bindM_def fun_eq_iff split: prod.splits sum.splits)
qed

text \<open>
  A loop whose body always succeeds and acts on the state as \<open>g x\<close> is the fold of \<open>g\<close>.
\<close>

lemma forM_total:
  assumes "\<And>x s. x \<in> set xs \<Longrightarrow> f x s = (g x s, Inr ())"
  shows "forM xs f s = (fold g xs s, Inr ())"
  using assms
proof (induction xs arbitrary: s)
  case Nil
  then show ?case by (simp add: gom_simps)
next
  case (Cons x xs)
  then have "f x s = (g x s, Inr ())" by simp
  moreover from Cons have "forM xs f (g x s) = (fold g xs (g x s), Inr ())" by simp
  ultimately show ?case by (simp add: gom_simps)
qed

lemma forIdxM_total:
  assumes "\<And>j x s. j < length xs \<Longrightarrow> x = xs ! j \<Longrightarrow> f (i + j) x s = (g (i + j) x s, Inr ())"
  shows "forIdxM i xs f s = (fold (\<lambda>(j, x). g j x) (zip [i..<i + length xs] xs) s, Inr ())"
  using assms
proof (induction xs arbitrary: i s)
  case Nil
  then show ?case by (simp add: gom_simps)
next
  case (Cons x xs)
  from Cons.prems [of 0 x] have x: "\<And>s. f i x s = (g i x s, Inr ())" by simp
  have "f (Suc i + j) y t = (g (Suc i + j) y t, Inr ())"
    if "j < length xs" "y = xs ! j" for j y t
    using Cons.prems [of "Suc j" y t] that by simp
  then have "forIdxM (Suc i) xs f (g i x s) =
      (fold (\<lambda>(j, x). g j x) (zip [Suc i..<Suc i + length xs] xs) (g i x s), Inr ())"
    by (rule Cons.IH)
  then show ?case
    by (simp add: gom_simps x upt_conv_Cons del: upt_Suc)
qed

section \<open>Simulation\<close>

definition implements ::
  "('s \<Rightarrow> bool) \<Rightarrow> ('s \<Rightarrow> 't) \<Rightarrow> ('s, 'a) gom \<Rightarrow> ('t, 'a) gom \<Rightarrow> bool" where
  "implements iv af m f \<longleftrightarrow>
     (\<forall>s. iv s \<longrightarrow> iv (fst (m s)) \<and> f (af s) = (af (fst (m s)), snd (m s)))"

lemma implementsI:
  assumes "\<And>s. iv s \<Longrightarrow> iv (fst (m s))"
    and "\<And>s. iv s \<Longrightarrow> f (af s) = (af (fst (m s)), snd (m s))"
  shows "implements iv af m f"
  using assms by (simp add: implements_def)

lemma implementsD:
  assumes "implements iv af m f" and "iv s" and "m s = (s', r)"
  shows "iv s'" and "f (af s) = (af s', r)"
  using assms by (auto simp: implements_def)

lemma implements_ret [sim_intros]: "implements iv af (ret x) (ret x)"
  by (simp add: implements_def ret_def)

lemma implements_throw [sim_intros]: "implements iv af (throw e) (throw e)"
  by (simp add: implements_def throw_def)

lemma implements_bindM [sim_intros]:
  assumes "implements iv af m m'" and "\<And>x. implements iv af (f x) (f' x)"
  shows "implements iv af (bindM m f) (bindM m' f')"
proof (rule implementsI)
  fix s assume s: "iv s"
  obtain s1 r where m: "m s = (s1, r)" by (cases "m s")
  from implementsD [OF assms(1) s m] have s1: "iv s1" and m': "m' (af s) = (af s1, r)" .
  show "iv (fst (bindM m f s))"
    using assms(2) s1 by (cases r) (auto simp: bindM_def m implements_def)
  show "bindM m' f' (af s) = (af (fst (bindM m f s)), snd (bindM m f s))"
    using assms(2) s1 by (cases r) (auto simp: bindM_def m m' implements_def)
qed

lemma implements_if [sim_intros]:
  "(b \<Longrightarrow> implements iv af m m') \<Longrightarrow> (\<not> b \<Longrightarrow> implements iv af n n') \<Longrightarrow>
   implements iv af (if b then m else n) (if b then m' else n')"
  by simp

lemma implements_liftE [sim_intros]: "implements iv af (liftE r) (liftE r)"
  by (simp add: implements_def liftE_def)

lemma implements_tryM [sim_intros]: "implements iv af m m' \<Longrightarrow> implements iv af (tryM m) (tryM m')"
  by (auto simp: implements_def tryM_def split: prod.splits)

lemma implements_case_sum [sim_intros]:
  "(\<And>e. r = Inl e \<Longrightarrow> implements iv af (f e) (f' e)) \<Longrightarrow> (\<And>x. r = Inr x \<Longrightarrow> implements iv af (g x) (g' x)) \<Longrightarrow>
   implements iv af (case r of Inl e \<Rightarrow> f e | Inr x \<Rightarrow> g x) (case r of Inl e \<Rightarrow> f' e | Inr x \<Rightarrow> g' x)"
  by (cases r) simp_all

lemma implements_case_option [sim_intros]:
  "(r = None \<Longrightarrow> implements iv af f f') \<Longrightarrow> (\<And>x. r = Some x \<Longrightarrow> implements iv af (g x) (g' x)) \<Longrightarrow>
   implements iv af (case r of None \<Rightarrow> f | Some x \<Rightarrow> g x) (case r of None \<Rightarrow> f' | Some x \<Rightarrow> g' x)"
  by (cases r) simp_all

lemma implements_case_prod [sim_intros]:
  "(\<And>x y. p = (x, y) \<Longrightarrow> implements iv af (f x y) (f' x y)) \<Longrightarrow>
   implements iv af (case p of (x, y) \<Rightarrow> f x y) (case p of (x, y) \<Rightarrow> f' x y)"
  by (cases p) simp

lemma implements_Let [sim_intros]:
  "implements iv af (f x) (f' x) \<Longrightarrow> implements iv af (let y = x in f y) (let y = x in f' y)"
  by simp

lemma implements_forM [sim_intros]:
  assumes "\<And>x. implements iv af (f x) (f' x)"
  shows "implements iv af (forM xs f) (forM xs f')"
  by (induction xs) (auto intro!: sim_intros assms)

lemma implements_forIdxM [sim_intros]:
  assumes "\<And>i x. implements iv af (f i x) (f' i x)"
  shows "implements iv af (forIdxM i xs f) (forIdxM i xs f')"
  by (induction xs arbitrary: i) (auto intro!: sim_intros assms)

text \<open>Pairs: the abstraction acts on the first component only.\<close>

abbreviation inv_fst :: "('s \<Rightarrow> bool) \<Rightarrow> 's \<times> 'r \<Rightarrow> bool" where
  "inv_fst iv p \<equiv> iv (fst p)"

abbreviation abs_fst :: "('s \<Rightarrow> 't) \<Rightarrow> 's \<times> 'r \<Rightarrow> 't \<times> 'r" where
  "abs_fst af p \<equiv> (af (fst p), snd p)"

lemma implements_on_fst [sim_intros]:
  assumes "implements iv af m m'"
  shows "implements (inv_fst iv) (abs_fst af) (on_fst m) (on_fst m')"
  using assms by (auto simp: implements_def on_fst_def split: prod.splits)

lemma implements_on_snd [sim_intros]:
  "implements (inv_fst iv) (abs_fst af) (on_snd m) (on_snd m)"
  by (auto simp: implements_def on_snd_def split: prod.splits)

end
