(* ===== verification/Store.thy ===== *)
theory Store
  imports Go_Monad
begin

text \<open>
  \<^verbatim>\<open>store/store.go\<close>: the records a store holds and the \<open>Store\<close> interface. The interface is a
  record of operations over an abstract state \<open>'s\<close>, so code written against it (ingest, api, proof,
  prune) is written once and runs on every backend, as in Go. \<open>flat_ops\<close> is the reference
  backend: one map per kind of record, with the contract of the interface's comments; the locale
  \<open>store_backend\<close> says what it means for a backend to implement it.
\<close>

section \<open>Records\<close>

record Outpoint =
  op_TxID :: hash
  op_Vout :: uint32

record TxIndex =
  ti_Mined :: bool
  ti_BlockHash :: hash
  ti_Height :: uint32
  ti_BlockTime :: uint32
  ti_SubtreeIndex :: uint32
  ti_LeafIndex :: uint32
  ti_SeenTime :: int64

record UTXO =
  u_Value :: uint64
  u_ScriptHash :: hash
  u_Spent :: bool
  u_SpentBy :: hash
  u_SpentHeight :: uint32

record BlockRec =
  br_Hash :: hash
  br_Height :: uint32
  br_Time :: uint32
  br_MerkleRoot :: hash
  br_SubtreeRoots :: "hash list"
  br_Header :: header

record Stats =
  sts_TxIndex :: nat
  sts_UTXOLive :: nat
  sts_UTXOSpent :: nat
  sts_Subtrees :: nat
  sts_Blocks :: nat
  sts_Headers :: nat

section \<open>The interface\<close>

text \<open>
  One field per method. A Go result \<^verbatim>\<open>(v, ok bool, err error)\<close> is an option inside the
  monad: \<open>None\<close> is \<^verbatim>\<open>ok == false\<close>.
\<close>

record 's store_ops =
  so_PutTxIndex :: "hash \<Rightarrow> TxIndex \<Rightarrow> ('s, unit) gom"
  so_GetTxIndex :: "hash \<Rightarrow> ('s, TxIndex option) gom"
  so_PutUTXO :: "Outpoint \<Rightarrow> UTXO \<Rightarrow> ('s, unit) gom"
  so_GetUTXO :: "Outpoint \<Rightarrow> ('s, UTXO option) gom"
  so_SpendUTXO :: "Outpoint \<Rightarrow> hash \<Rightarrow> uint32 \<Rightarrow> ('s, bool) gom"
  so_UnspendUTXO :: "Outpoint \<Rightarrow> ('s, bool) gom"
  so_DeleteUTXO :: "Outpoint \<Rightarrow> ('s, bool) gom"
  so_DeleteTxIndex :: "hash \<Rightarrow> ('s, bool) gom"
  so_PutSubtree :: "hash \<Rightarrow> hash list \<Rightarrow> ('s, unit) gom"
  so_GetSubtree :: "hash \<Rightarrow> ('s, hash list option) gom"
  so_PutBlock :: "BlockRec \<Rightarrow> ('s, unit) gom"
  so_GetBlock :: "hash \<Rightarrow> ('s, BlockRec option) gom"
  so_PutHeader :: "uint32 \<Rightarrow> header \<Rightarrow> ('s, unit) gom"
  so_GetHeader :: "uint32 \<Rightarrow> ('s, header option) gom"
  so_PruneSpentAtHeight :: "uint32 \<Rightarrow> ('s, nat) gom"
  so_PruneIndexAtHeight :: "uint32 \<Rightarrow> ('s, nat) gom"
  so_Stats :: "'s \<Rightarrow> Stats"

text \<open>A call of an interface method, its answer, and a sequence of calls on one store.\<close>

datatype store_call =
    CPutTxIndex hash TxIndex | CGetTxIndex hash
  | CPutUTXO Outpoint UTXO | CGetUTXO Outpoint
  | CSpendUTXO Outpoint hash uint32 | CUnspendUTXO Outpoint | CDeleteUTXO Outpoint
  | CDeleteTxIndex hash
  | CPutSubtree hash "hash list" | CGetSubtree hash
  | CPutBlock BlockRec | CGetBlock hash
  | CPutHeader uint32 header | CGetHeader uint32
  | CPruneSpentAtHeight uint32 | CPruneIndexAtHeight uint32

datatype store_answer =
    ADone unit | ATxIndex "TxIndex option" | AUTXO "UTXO option" | AFound bool
  | ASubtree "hash list option" | ABlock "BlockRec option" | AHeader "header option" | ACount nat

definition answering :: "('a \<Rightarrow> store_answer) \<Rightarrow> ('s, 'a) gom \<Rightarrow> ('s, store_answer) gom" where
  "answering c m = bindM m (\<lambda>x. ret (c x))"

fun perform :: "'s store_ops \<Rightarrow> store_call \<Rightarrow> ('s, store_answer) gom" where
  "perform ops (CPutTxIndex txid ix) = answering ADone (so_PutTxIndex ops txid ix)"
| "perform ops (CGetTxIndex txid) = answering ATxIndex (so_GetTxIndex ops txid)"
| "perform ops (CPutUTXO op u) = answering ADone (so_PutUTXO ops op u)"
| "perform ops (CGetUTXO op) = answering AUTXO (so_GetUTXO ops op)"
| "perform ops (CSpendUTXO op by h) = answering AFound (so_SpendUTXO ops op by h)"
| "perform ops (CUnspendUTXO op) = answering AFound (so_UnspendUTXO ops op)"
| "perform ops (CDeleteUTXO op) = answering AFound (so_DeleteUTXO ops op)"
| "perform ops (CDeleteTxIndex txid) = answering AFound (so_DeleteTxIndex ops txid)"
| "perform ops (CPutSubtree root leaves) = answering ADone (so_PutSubtree ops root leaves)"
| "perform ops (CGetSubtree root) = answering ASubtree (so_GetSubtree ops root)"
| "perform ops (CPutBlock b) = answering ADone (so_PutBlock ops b)"
| "perform ops (CGetBlock hash) = answering ABlock (so_GetBlock ops hash)"
| "perform ops (CPutHeader h hdr) = answering ADone (so_PutHeader ops h hdr)"
| "perform ops (CGetHeader h) = answering AHeader (so_GetHeader ops h)"
| "perform ops (CPruneSpentAtHeight h) = answering ACount (so_PruneSpentAtHeight ops h)"
| "perform ops (CPruneIndexAtHeight h) = answering ACount (so_PruneIndexAtHeight ops h)"

fun run_calls :: "'s store_ops \<Rightarrow> store_call list \<Rightarrow> 's \<Rightarrow> 's \<times> (go_error + store_answer) list" where
  "run_calls ops [] s = (s, [])"
| "run_calls ops (c # cs) s =
     (let (s1, r) = perform ops c s; (s2, rs) = run_calls ops cs s1 in (s2, r # rs))"

section \<open>The reference backend\<close>

text \<open>
  \<open>heightEntry\<close> lists the records stored for one block height, for retention by depth
  (\<^verbatim>\<open>store/mem/mem.go\<close>); the reference backend keeps the same index.
\<close>

record heightEntry =
  he_block :: hash
  he_hasBlock :: bool
  he_subtrees :: "hash list"
  he_txids :: "hash list"

definition emptyEntry :: heightEntry where
  "emptyEntry = \<lparr>he_block = copy_from [], he_hasBlock = False, he_subtrees = [], he_txids = []\<rparr>"

record FlatStore =
  fs_txindex :: "hash \<rightharpoonup> TxIndex"
  fs_utxo :: "Outpoint \<rightharpoonup> UTXO"
  fs_subtree :: "hash \<rightharpoonup> hash list"
  fs_blocks :: "hash \<rightharpoonup> BlockRec"
  fs_hdr :: "uint32 \<rightharpoonup> header"
  fs_hidx :: "uint32 \<rightharpoonup> heightEntry"

definition emptyFlat :: FlatStore where
  "emptyFlat = \<lparr>fs_txindex = Map.empty, fs_utxo = Map.empty, fs_subtree = Map.empty,
     fs_blocks = Map.empty, fs_hdr = Map.empty, fs_hidx = Map.empty\<rparr>"

definition spend :: "hash \<Rightarrow> uint32 \<Rightarrow> UTXO \<Rightarrow> UTXO" where
  "spend by h u = u\<lparr>u_Spent := True, u_SpentBy := by, u_SpentHeight := h\<rparr>"

definition unspend :: "UTXO \<Rightarrow> UTXO" where
  "unspend u = u\<lparr>u_Spent := False, u_SpentBy := copy_from [], u_SpentHeight := 0\<rparr>"

definition spent_at :: "uint32 \<Rightarrow> UTXO option \<Rightarrow> bool" where
  "spent_at h r = (case r of None \<Rightarrow> False | Some u \<Rightarrow> u_Spent u \<and> u_SpentHeight u = h)"

definition entry_of :: "heightEntry option \<Rightarrow> heightEntry" where
  "entry_of r = (case r of None \<Rightarrow> emptyEntry | Some e \<Rightarrow> e)"

definition add_txid :: "hash \<Rightarrow> heightEntry \<Rightarrow> heightEntry" where
  "add_txid txid e = e\<lparr>he_txids := he_txids e @ [txid]\<rparr>"

definition set_block :: "BlockRec \<Rightarrow> heightEntry \<Rightarrow> heightEntry" where
  "set_block b e = e\<lparr>he_block := br_Hash b, he_hasBlock := True, he_subtrees := br_SubtreeRoots b\<rparr>"

definition flat_PutTxIndex :: "hash \<Rightarrow> TxIndex \<Rightarrow> (FlatStore, unit) gom" where
  "flat_PutTxIndex txid ix s =
     (s\<lparr>fs_txindex := (fs_txindex s)(txid \<mapsto> ix),
        fs_hidx := (if ti_Mined ix \<and> fs_txindex s txid = None
          then (fs_hidx s)(ti_Height ix \<mapsto> add_txid txid (entry_of (fs_hidx s (ti_Height ix))))
          else fs_hidx s)\<rparr>, Inr ())"

definition flat_SpendUTXO :: "Outpoint \<Rightarrow> hash \<Rightarrow> uint32 \<Rightarrow> (FlatStore, bool) gom" where
  "flat_SpendUTXO op by h s =
     (case fs_utxo s op of None \<Rightarrow> (s, Inr False)
      | Some u \<Rightarrow> (s\<lparr>fs_utxo := (fs_utxo s)(op \<mapsto> spend by h u)\<rparr>, Inr True))"

definition flat_UnspendUTXO :: "Outpoint \<Rightarrow> (FlatStore, bool) gom" where
  "flat_UnspendUTXO op s =
     (case fs_utxo s op of None \<Rightarrow> (s, Inr False)
      | Some u \<Rightarrow> (s\<lparr>fs_utxo := (fs_utxo s)(op \<mapsto> unspend u)\<rparr>, Inr True))"

definition flat_PutBlock :: "BlockRec \<Rightarrow> (FlatStore, unit) gom" where
  "flat_PutBlock b s =
     (s\<lparr>fs_blocks := (fs_blocks s)(br_Hash b \<mapsto> b),
        fs_hidx := (fs_hidx s)(br_Height b \<mapsto> set_block b (entry_of (fs_hidx s (br_Height b))))\<rparr>, Inr ())"

definition flat_PruneSpentAtHeight :: "uint32 \<Rightarrow> (FlatStore, nat) gom" where
  "flat_PruneSpentAtHeight h s =
     (s\<lparr>fs_utxo := (\<lambda>op. if spent_at h (fs_utxo s op) then None else fs_utxo s op)\<rparr>,
      Inr (card {op. spent_at h (fs_utxo s op)}))"

text \<open>Number of distinct keys of a list that are present in a map, and the map without them.\<close>

definition present :: "('k \<rightharpoonup> 'v) \<Rightarrow> 'k list \<Rightarrow> nat" where
  "present m ks = card (set ks \<inter> dom m)"

definition flat_PruneIndexAtHeight :: "uint32 \<Rightarrow> (FlatStore, nat) gom" where
  "flat_PruneIndexAtHeight h s =
     (let e = entry_of (fs_hidx s h);
          blks = (if he_hasBlock e then [he_block e] else [])
      in (s\<lparr>fs_blocks := (fs_blocks s) |` (- set blks),
            fs_subtree := (fs_subtree s) |` (- set (he_subtrees e)),
            fs_txindex := (fs_txindex s) |` (- set (he_txids e)),
            fs_hdr := (fs_hdr s)(h := None),
            fs_hidx := (fs_hidx s)(h := None)\<rparr>,
          Inr (present (fs_blocks s) blks + present (fs_subtree s) (he_subtrees e) +
               present (fs_txindex s) (he_txids e) + present (fs_hdr s) [h])))"

definition flat_Stats :: "FlatStore \<Rightarrow> Stats" where
  "flat_Stats s =
     \<lparr>sts_TxIndex = card (dom (fs_txindex s)),
      sts_UTXOLive = card {op. \<exists>u. fs_utxo s op = Some u \<and> \<not> u_Spent u},
      sts_UTXOSpent = card {op. \<exists>u. fs_utxo s op = Some u \<and> u_Spent u},
      sts_Subtrees = card (dom (fs_subtree s)),
      sts_Blocks = card (dom (fs_blocks s)),
      sts_Headers = card (dom (fs_hdr s))\<rparr>"

definition flat_ops :: "FlatStore store_ops" where
  "flat_ops =
     \<lparr>so_PutTxIndex = flat_PutTxIndex,
      so_GetTxIndex = (\<lambda>txid s. (s, Inr (fs_txindex s txid))),
      so_PutUTXO = (\<lambda>op u s. (s\<lparr>fs_utxo := (fs_utxo s)(op \<mapsto> u)\<rparr>, Inr ())),
      so_GetUTXO = (\<lambda>op s. (s, Inr (fs_utxo s op))),
      so_SpendUTXO = flat_SpendUTXO,
      so_UnspendUTXO = flat_UnspendUTXO,
      so_DeleteUTXO = (\<lambda>op s. (s\<lparr>fs_utxo := (fs_utxo s)(op := None)\<rparr>, Inr (fs_utxo s op \<noteq> None))),
      so_DeleteTxIndex =
        (\<lambda>txid s. (s\<lparr>fs_txindex := (fs_txindex s)(txid := None)\<rparr>, Inr (fs_txindex s txid \<noteq> None))),
      so_PutSubtree = (\<lambda>root leaves s. (s\<lparr>fs_subtree := (fs_subtree s)(root \<mapsto> leaves)\<rparr>, Inr ())),
      so_GetSubtree = (\<lambda>root s. (s, Inr (fs_subtree s root))),
      so_PutBlock = flat_PutBlock,
      so_GetBlock = (\<lambda>hash s. (s, Inr (fs_blocks s hash))),
      so_PutHeader = (\<lambda>height hdr s. (s\<lparr>fs_hdr := (fs_hdr s)(height \<mapsto> hdr)\<rparr>, Inr ())),
      so_GetHeader = (\<lambda>height s. (s, Inr (fs_hdr s height))),
      so_PruneSpentAtHeight = flat_PruneSpentAtHeight,
      so_PruneIndexAtHeight = flat_PruneIndexAtHeight,
      so_Stats = flat_Stats\<rparr>"

lemmas flat_defs = flat_ops_def flat_PutTxIndex_def flat_SpendUTXO_def flat_UnspendUTXO_def
  flat_PutBlock_def flat_PruneSpentAtHeight_def flat_PruneIndexAtHeight_def

section \<open>What a backend promises\<close>

text \<open>
  A backend implements the interface through an abstraction \<open>af\<close> to the reference store and an
  invariant \<open>iv\<close>: every operation keeps the invariant, returns what the reference returns and
  changes the abstraction as the reference does.
\<close>

locale store_backend =
  fixes ops :: "'s store_ops" and af :: "'s \<Rightarrow> FlatStore" and iv :: "'s \<Rightarrow> bool"
  assumes put_txindex: "implements iv af (so_PutTxIndex ops txid ix) (so_PutTxIndex flat_ops txid ix)"
    and get_txindex: "implements iv af (so_GetTxIndex ops txid) (so_GetTxIndex flat_ops txid)"
    and put_utxo: "implements iv af (so_PutUTXO ops op u) (so_PutUTXO flat_ops op u)"
    and get_utxo: "implements iv af (so_GetUTXO ops op) (so_GetUTXO flat_ops op)"
    and spend_utxo: "implements iv af (so_SpendUTXO ops op by h) (so_SpendUTXO flat_ops op by h)"
    and unspend_utxo: "implements iv af (so_UnspendUTXO ops op) (so_UnspendUTXO flat_ops op)"
    and delete_utxo: "implements iv af (so_DeleteUTXO ops op) (so_DeleteUTXO flat_ops op)"
    and delete_txindex: "implements iv af (so_DeleteTxIndex ops txid) (so_DeleteTxIndex flat_ops txid)"
    and put_subtree: "implements iv af (so_PutSubtree ops root leaves) (so_PutSubtree flat_ops root leaves)"
    and get_subtree: "implements iv af (so_GetSubtree ops root) (so_GetSubtree flat_ops root)"
    and put_block: "implements iv af (so_PutBlock ops b) (so_PutBlock flat_ops b)"
    and get_block: "implements iv af (so_GetBlock ops hash) (so_GetBlock flat_ops hash)"
    and put_header: "implements iv af (so_PutHeader ops h hdr) (so_PutHeader flat_ops h hdr)"
    and get_header: "implements iv af (so_GetHeader ops h) (so_GetHeader flat_ops h)"
    and prune_spent: "implements iv af (so_PruneSpentAtHeight ops h) (so_PruneSpentAtHeight flat_ops h)"
    and prune_index: "implements iv af (so_PruneIndexAtHeight ops h) (so_PruneIndexAtHeight flat_ops h)"
    and stats: "iv s \<Longrightarrow> so_Stats ops s = so_Stats flat_ops (af s)"
begin

lemmas backend_sims = put_txindex get_txindex put_utxo get_utxo spend_utxo unspend_utxo
  delete_utxo delete_txindex put_subtree get_subtree put_block get_block put_header get_header
  prune_spent prune_index

lemma perform_sim: "implements iv af (perform ops c) (perform flat_ops c)"
  by (cases c) (simp_all add: answering_def implements_bindM implements_ret backend_sims)

lemma run_calls_sim:
  assumes "iv s"
  shows "iv (fst (run_calls ops cs s)) \<and>
    run_calls flat_ops cs (af s) = (af (fst (run_calls ops cs s)), snd (run_calls ops cs s))"
  using assms
proof (induction cs arbitrary: s)
  case (Cons c cs)
  obtain s1 r where p: "perform ops c s = (s1, r)" by (cases "perform ops c s")
  obtain s2 rs where q: "run_calls ops cs s1 = (s2, rs)" by (cases "run_calls ops cs s1")
  note step = implementsD [OF perform_sim Cons.prems p]
  from Cons.IH [OF step(1)] step(2) show ?case by (simp add: p q)
qed simp

end

end
