(* ===== verification/Mem_Store.thy ===== *)
theory Mem_Store
  imports Store
begin

text \<open>
  \<^verbatim>\<open>store/mem/mem.go\<close>: the striped in-memory backend. There are 256 stripes, selected by the
  first byte of the key hash; each stripe has its own maps and a secondary index from spend height
  to the outpoints spent at that height. Headers and the per-height index sit beside the stripes.
  A Go map is a finite map; the inner \<^verbatim>\<open>map[Outpoint]struct{}\<close> sets are lists without
  duplicates, in one of the orders in which Go may iterate over them
  (\<open>prune_band_any_order\<close> shows that the order does not matter). Locks are not modelled: each
  operation here is one critical section of the code, or several run back to back.
\<close>

record stripe =
  st_txindex :: "(hash, TxIndex) fmap"
  st_utxo :: "(Outpoint, UTXO) fmap"
  st_subtree :: "(hash, hash list) fmap"
  st_blocks :: "(hash, BlockRec) fmap"
  st_spentIdx :: "(uint32, Outpoint list) fmap"

definition newStripe :: stripe where
  "newStripe = \<lparr>st_txindex = fmempty, st_utxo = fmempty, st_subtree = fmempty, st_blocks = fmempty,
     st_spentIdx = fmempty\<rparr>"

record MemStore =
  ms_st :: "byte \<Rightarrow> stripe"
  ms_hdr :: "(uint32, header) fmap"
  ms_hidx :: "(uint32, heightEntry) fmap"

definition New :: MemStore where
  "New = \<lparr>ms_st = (\<lambda>_. newStripe), ms_hdr = fmempty, ms_hidx = fmempty\<rparr>"

definition striperOf :: "hash \<Rightarrow> byte" where
  "striperOf h = slice h ! 0"

text \<open>The stripe of a key, and the store with that stripe replaced.\<close>

abbreviation stripe_of :: "MemStore \<Rightarrow> hash \<Rightarrow> stripe" where
  "stripe_of s h \<equiv> ms_st s (striperOf h)"

definition set_stripe :: "hash \<Rightarrow> stripe \<Rightarrow> MemStore \<Rightarrow> MemStore" where
  "set_stripe h st s = s\<lparr>ms_st := (ms_st s)(striperOf h := st)\<rparr>"

definition indexSpent :: "Outpoint \<Rightarrow> uint32 \<Rightarrow> stripe \<Rightarrow> stripe" where
  "indexSpent op h st =
     (let ops = (case fmlookup (st_spentIdx st) h of None \<Rightarrow> [] | Some ops \<Rightarrow> ops)
      in st\<lparr>st_spentIdx := fmupd h (List.insert op ops) (st_spentIdx st)\<rparr>)"

definition deindexSpent :: "Outpoint \<Rightarrow> uint32 \<Rightarrow> stripe \<Rightarrow> stripe" where
  "deindexSpent op h st =
     (case fmlookup (st_spentIdx st) h of None \<Rightarrow> st
      | Some ops \<Rightarrow>
          (let ops' = removeAll op ops in
           if length ops' = 0 then st\<lparr>st_spentIdx := fmdrop h (st_spentIdx st)\<rparr>
           else st\<lparr>st_spentIdx := fmupd h ops' (st_spentIdx st)\<rparr>))"

section \<open>Operations\<close>

definition mem_PutTxIndex :: "hash \<Rightarrow> TxIndex \<Rightarrow> (MemStore, unit) gom" where
  "mem_PutTxIndex txid ix s =
     (let st = stripe_of s txid;
          existed = (fmlookup (st_txindex st) txid \<noteq> None);
          s1 = set_stripe txid (st\<lparr>st_txindex := fmupd txid ix (st_txindex st)\<rparr>) s
      in if ti_Mined ix \<and> \<not> existed
         then (let e = entry_of (fmlookup (ms_hidx s1) (ti_Height ix))
               in (s1\<lparr>ms_hidx := fmupd (ti_Height ix) (add_txid txid e) (ms_hidx s1)\<rparr>, Inr ()))
         else (s1, Inr ()))"

definition mem_GetTxIndex :: "hash \<Rightarrow> (MemStore, TxIndex option) gom" where
  "mem_GetTxIndex txid s = (s, Inr (fmlookup (st_txindex (stripe_of s txid)) txid))"

definition mem_PutUTXO :: "Outpoint \<Rightarrow> UTXO \<Rightarrow> (MemStore, unit) gom" where
  "mem_PutUTXO op u s =
     (let st = stripe_of s (op_TxID op);
          st1 = st\<lparr>st_utxo := fmupd op u (st_utxo st)\<rparr>;
          st2 = (if u_Spent u then indexSpent op (u_SpentHeight u) st1 else st1)
      in (set_stripe (op_TxID op) st2 s, Inr ()))"

definition mem_GetUTXO :: "Outpoint \<Rightarrow> (MemStore, UTXO option) gom" where
  "mem_GetUTXO op s = (s, Inr (fmlookup (st_utxo (stripe_of s (op_TxID op))) op))"

definition mem_SpendUTXO :: "Outpoint \<Rightarrow> hash \<Rightarrow> uint32 \<Rightarrow> (MemStore, bool) gom" where
  "mem_SpendUTXO op spentBy spentHeight s =
     (let st = stripe_of s (op_TxID op) in
      case fmlookup (st_utxo st) op of None \<Rightarrow> (s, Inr False)
      | Some u \<Rightarrow>
          (let u' = u\<lparr>u_Spent := True, u_SpentBy := spentBy, u_SpentHeight := spentHeight\<rparr>;
               st1 = indexSpent op spentHeight (st\<lparr>st_utxo := fmupd op u' (st_utxo st)\<rparr>)
           in (set_stripe (op_TxID op) st1 s, Inr True)))"

definition mem_UnspendUTXO :: "Outpoint \<Rightarrow> (MemStore, bool) gom" where
  "mem_UnspendUTXO op s =
     (let st = stripe_of s (op_TxID op) in
      case fmlookup (st_utxo st) op of None \<Rightarrow> (s, Inr False)
      | Some u \<Rightarrow>
          (let st1 = (if u_Spent u then deindexSpent op (u_SpentHeight u) st else st);
               u' = u\<lparr>u_Spent := False, u_SpentBy := copy_from [], u_SpentHeight := 0\<rparr>
           in (set_stripe (op_TxID op) (st1\<lparr>st_utxo := fmupd op u' (st_utxo st1)\<rparr>) s, Inr True)))"

definition mem_DeleteUTXO :: "Outpoint \<Rightarrow> (MemStore, bool) gom" where
  "mem_DeleteUTXO op s =
     (let st = stripe_of s (op_TxID op) in
      case fmlookup (st_utxo st) op of None \<Rightarrow> (s, Inr False)
      | Some u \<Rightarrow>
          (let st1 = (if u_Spent u then deindexSpent op (u_SpentHeight u) st else st)
           in (set_stripe (op_TxID op) (st1\<lparr>st_utxo := fmdrop op (st_utxo st1)\<rparr>) s, Inr True)))"

definition mem_DeleteTxIndex :: "hash \<Rightarrow> (MemStore, bool) gom" where
  "mem_DeleteTxIndex txid s =
     (let st = stripe_of s txid in
      case fmlookup (st_txindex st) txid of None \<Rightarrow> (s, Inr False)
      | Some _ \<Rightarrow> (set_stripe txid (st\<lparr>st_txindex := fmdrop txid (st_txindex st)\<rparr>) s, Inr True))"

definition mem_PutSubtree :: "hash \<Rightarrow> hash list \<Rightarrow> (MemStore, unit) gom" where
  "mem_PutSubtree root leaves s =
     (let st = stripe_of s root
      in (set_stripe root (st\<lparr>st_subtree := fmupd root leaves (st_subtree st)\<rparr>) s, Inr ()))"

definition mem_GetSubtree :: "hash \<Rightarrow> (MemStore, hash list option) gom" where
  "mem_GetSubtree root s = (s, Inr (fmlookup (st_subtree (stripe_of s root)) root))"

definition mem_PutBlock :: "BlockRec \<Rightarrow> (MemStore, unit) gom" where
  "mem_PutBlock b s =
     (let st = stripe_of s (br_Hash b);
          s1 = set_stripe (br_Hash b) (st\<lparr>st_blocks := fmupd (br_Hash b) b (st_blocks st)\<rparr>) s;
          e = entry_of (fmlookup (ms_hidx s1) (br_Height b))
      in (s1\<lparr>ms_hidx := fmupd (br_Height b) (set_block b e) (ms_hidx s1)\<rparr>, Inr ()))"

definition mem_GetBlock :: "hash \<Rightarrow> (MemStore, BlockRec option) gom" where
  "mem_GetBlock hash s = (s, Inr (fmlookup (st_blocks (stripe_of s hash)) hash))"

definition mem_PutHeader :: "uint32 \<Rightarrow> header \<Rightarrow> (MemStore, unit) gom" where
  "mem_PutHeader height hdr s = (s\<lparr>ms_hdr := fmupd height hdr (ms_hdr s)\<rparr>, Inr ())"

definition mem_GetHeader :: "uint32 \<Rightarrow> (MemStore, header option) gom" where
  "mem_GetHeader height s = (s, Inr (fmlookup (ms_hdr s) height))"

text \<open>The sweep of one band of one stripe: the loop over the set, then the set itself goes.\<close>

fun prune_band :: "uint32 \<Rightarrow> Outpoint list \<Rightarrow> (Outpoint, UTXO) fmap \<Rightarrow> nat \<Rightarrow> (Outpoint, UTXO) fmap \<times> nat" where
  "prune_band h [] m n = (m, n)"
| "prune_band h (op # ops) m n =
     (if spent_at h (fmlookup m op) then prune_band h ops (fmdrop op m) (n + 1)
      else prune_band h ops m n)"

definition prune_stripe :: "uint32 \<Rightarrow> stripe \<Rightarrow> stripe \<times> nat" where
  "prune_stripe h st =
     (case fmlookup (st_spentIdx st) h of None \<Rightarrow> (st, 0)
      | Some ops \<Rightarrow>
          (let (m, n) = prune_band h ops (st_utxo st) 0
           in (st\<lparr>st_utxo := m, st_spentIdx := fmdrop h (st_spentIdx st)\<rparr>, n)))"

definition all_stripes :: "byte list" where
  "all_stripes = map of_nat [0..<256]"

fun prune_stripes :: "uint32 \<Rightarrow> byte list \<Rightarrow> MemStore \<Rightarrow> nat \<Rightarrow> MemStore \<times> nat" where
  "prune_stripes h [] s n = (s, n)"
| "prune_stripes h (b # bs) s n =
     (let (st, k) = prune_stripe h (ms_st s b)
      in prune_stripes h bs (s\<lparr>ms_st := (ms_st s)(b := st)\<rparr>) (n + k))"

definition mem_PruneSpentAtHeight :: "uint32 \<Rightarrow> (MemStore, nat) gom" where
  "mem_PruneSpentAtHeight h s = (let (s', n) = prune_stripes h all_stripes s 0 in (s', Inr n))"

text \<open>The three deletion loops of \<open>PruneIndexAtHeight\<close>, each over the stripe of its key.\<close>

definition drop_block :: "hash \<Rightarrow> MemStore \<times> nat \<Rightarrow> MemStore \<times> nat" where
  "drop_block k = (\<lambda>(s, n). let st = stripe_of s k in
     if fmlookup (st_blocks st) k \<noteq> None
     then (set_stripe k (st\<lparr>st_blocks := fmdrop k (st_blocks st)\<rparr>) s, n + 1) else (s, n))"

definition drop_subtree :: "hash \<Rightarrow> MemStore \<times> nat \<Rightarrow> MemStore \<times> nat" where
  "drop_subtree k = (\<lambda>(s, n). let st = stripe_of s k in
     if fmlookup (st_subtree st) k \<noteq> None
     then (set_stripe k (st\<lparr>st_subtree := fmdrop k (st_subtree st)\<rparr>) s, n + 1) else (s, n))"

definition drop_txindex :: "hash \<Rightarrow> MemStore \<times> nat \<Rightarrow> MemStore \<times> nat" where
  "drop_txindex k = (\<lambda>(s, n). let st = stripe_of s k in
     if fmlookup (st_txindex st) k \<noteq> None
     then (set_stripe k (st\<lparr>st_txindex := fmdrop k (st_txindex st)\<rparr>) s, n + 1) else (s, n))"

definition mem_PruneIndexAtHeight :: "uint32 \<Rightarrow> (MemStore, nat) gom" where
  "mem_PruneIndexAtHeight h s =
     (let r = fmlookup (ms_hidx s) h;
          s0 = s\<lparr>ms_hidx := fmdrop h (ms_hidx s)\<rparr>;
          (s1, n1) = (case r of None \<Rightarrow> (s0, 0)
            | Some e \<Rightarrow>
                fold drop_txindex (he_txids e)
                  (fold drop_subtree (he_subtrees e)
                    (if he_hasBlock e then drop_block (he_block e) (s0, 0) else (s0, 0))))
      in if fmlookup (ms_hdr s1) h \<noteq> None
         then (s1\<lparr>ms_hdr := fmdrop h (ms_hdr s1)\<rparr>, Inr (n1 + 1))
         else (s1, Inr n1))"

definition fm_count :: "('v \<Rightarrow> bool) \<Rightarrow> ('k, 'v) fmap \<Rightarrow> nat" where
  "fm_count P m = fcard (ffilter (\<lambda>k. case fmlookup m k of None \<Rightarrow> False | Some v \<Rightarrow> P v) (fmdom m))"

definition mem_Stats :: "MemStore \<Rightarrow> Stats" where
  "mem_Stats s =
     (let total = (\<lambda>f. sum_list (map (\<lambda>b. f (ms_st s b)) all_stripes)) in
      \<lparr>sts_TxIndex = total (\<lambda>st. fcard (fmdom (st_txindex st))),
       sts_UTXOLive = total (\<lambda>st. fm_count (\<lambda>u. \<not> u_Spent u) (st_utxo st)),
       sts_UTXOSpent = total (\<lambda>st. fm_count u_Spent (st_utxo st)),
       sts_Subtrees = total (\<lambda>st. fcard (fmdom (st_subtree st))),
       sts_Blocks = total (\<lambda>st. fcard (fmdom (st_blocks st))),
       sts_Headers = fcard (fmdom (ms_hdr s))\<rparr>)"

definition mem_ops :: "MemStore store_ops" where
  "mem_ops =
     \<lparr>so_PutTxIndex = mem_PutTxIndex, so_GetTxIndex = mem_GetTxIndex, so_PutUTXO = mem_PutUTXO,
      so_GetUTXO = mem_GetUTXO, so_SpendUTXO = mem_SpendUTXO, so_UnspendUTXO = mem_UnspendUTXO,
      so_DeleteUTXO = mem_DeleteUTXO, so_DeleteTxIndex = mem_DeleteTxIndex,
      so_PutSubtree = mem_PutSubtree, so_GetSubtree = mem_GetSubtree, so_PutBlock = mem_PutBlock,
      so_GetBlock = mem_GetBlock, so_PutHeader = mem_PutHeader, so_GetHeader = mem_GetHeader,
      so_PruneSpentAtHeight = mem_PruneSpentAtHeight,
      so_PruneIndexAtHeight = mem_PruneIndexAtHeight, so_Stats = mem_Stats\<rparr>"

section \<open>Invariant and abstraction\<close>

text \<open>
  Every key sits in its own stripe, and every spent record is listed in its stripe's band for the
  height of the spend. The bands may list more (a band keeps an outpoint that was spent again at
  another height), which is why the sweep checks the record again.
\<close>

definition keys_in :: "byte \<Rightarrow> stripe \<Rightarrow> bool" where
  "keys_in b st \<longleftrightarrow>
     (\<forall>k v. fmlookup (st_txindex st) k = Some v \<longrightarrow> striperOf k = b) \<and>
     (\<forall>k v. fmlookup (st_utxo st) k = Some v \<longrightarrow> striperOf (op_TxID k) = b) \<and>
     (\<forall>k v. fmlookup (st_subtree st) k = Some v \<longrightarrow> striperOf k = b) \<and>
     (\<forall>k v. fmlookup (st_blocks st) k = Some v \<longrightarrow> striperOf k = b)"

definition band :: "stripe \<Rightarrow> uint32 \<Rightarrow> Outpoint list" where
  "band st h = (case fmlookup (st_spentIdx st) h of None \<Rightarrow> [] | Some ops \<Rightarrow> ops)"

definition bands_cover :: "stripe \<Rightarrow> bool" where
  "bands_cover st \<longleftrightarrow>
     (\<forall>op u. fmlookup (st_utxo st) op = Some u \<longrightarrow> u_Spent u \<longrightarrow> op \<in> set (band st (u_SpentHeight u)))"

definition stripe_inv :: "byte \<Rightarrow> stripe \<Rightarrow> bool" where
  "stripe_inv b st \<longleftrightarrow> keys_in b st \<and> (\<forall>h. distinct (band st h)) \<and> bands_cover st"

definition mem_inv :: "MemStore \<Rightarrow> bool" where
  "mem_inv s \<longleftrightarrow> (\<forall>b. stripe_inv b (ms_st s b))"

definition mem_abs :: "MemStore \<Rightarrow> FlatStore" where
  "mem_abs s =
     \<lparr>fs_txindex = (\<lambda>k. fmlookup (st_txindex (stripe_of s k)) k),
      fs_utxo = (\<lambda>op. fmlookup (st_utxo (stripe_of s (op_TxID op))) op),
      fs_subtree = (\<lambda>k. fmlookup (st_subtree (stripe_of s k)) k),
      fs_blocks = (\<lambda>k. fmlookup (st_blocks (stripe_of s k)) k),
      fs_hdr = fmlookup (ms_hdr s),
      fs_hidx = fmlookup (ms_hidx s)\<rparr>"

section \<open>Single-record operations\<close>

lemma mem_inv_set_stripe:
  "mem_inv s \<Longrightarrow> stripe_inv (striperOf h) st \<Longrightarrow> mem_inv (set_stripe h st s)"
  by (simp add: mem_inv_def set_stripe_def)

lemma mem_inv_frame [simp]:
  "mem_inv (s\<lparr>ms_hdr := x\<rparr>) = mem_inv s" "mem_inv (s\<lparr>ms_hidx := y\<rparr>) = mem_inv s"
  by (simp_all add: mem_inv_def)

lemma mem_inv_stripe: "mem_inv s \<Longrightarrow> stripe_inv b (ms_st s b)"
  by (simp add: mem_inv_def)

lemma stripe_inv_maps:
  assumes "stripe_inv b st"
  shows "striperOf k = b \<Longrightarrow> stripe_inv b (st\<lparr>st_txindex := fmupd k ix (st_txindex st)\<rparr>)"
    and "striperOf k = b \<Longrightarrow> stripe_inv b (st\<lparr>st_subtree := fmupd k ls (st_subtree st)\<rparr>)"
    and "striperOf k = b \<Longrightarrow> stripe_inv b (st\<lparr>st_blocks := fmupd k bl (st_blocks st)\<rparr>)"
    and "stripe_inv b (st\<lparr>st_txindex := fmdrop k (st_txindex st)\<rparr>)"
    and "stripe_inv b (st\<lparr>st_subtree := fmdrop k (st_subtree st)\<rparr>)"
    and "stripe_inv b (st\<lparr>st_blocks := fmdrop k (st_blocks st)\<rparr>)"
  using assms by (simp_all add: stripe_inv_def keys_in_def band_def bands_cover_def)

lemma indexSpent_frame [simp]:
  "st_txindex (indexSpent op h st) = st_txindex st" "st_utxo (indexSpent op h st) = st_utxo st"
  "st_subtree (indexSpent op h st) = st_subtree st" "st_blocks (indexSpent op h st) = st_blocks st"
  by (simp_all add: indexSpent_def Let_def)

lemma deindexSpent_frame [simp]:
  "st_txindex (deindexSpent op h st) = st_txindex st" "st_utxo (deindexSpent op h st) = st_utxo st"
  "st_subtree (deindexSpent op h st) = st_subtree st" "st_blocks (deindexSpent op h st) = st_blocks st"
  by (simp_all add: deindexSpent_def Let_def split: option.splits)

lemma band_utxo [simp]: "band (st\<lparr>st_utxo := m\<rparr>) = band st"
  by (simp add: band_def fun_eq_iff)

lemma band_indexSpent:
  "band (indexSpent op h st) h' = (if h' = h then List.insert op (band st h) else band st h')"
  by (simp add: band_def indexSpent_def Let_def)

lemma band_deindexSpent:
  "band (deindexSpent op h st) h' = (if h' = h then removeAll op (band st h) else band st h')"
  by (simp add: band_def deindexSpent_def Let_def split: option.splits)

lemma stripe_inv_put_unspent:
  assumes "stripe_inv b st" and "striperOf (op_TxID op) = b" and "\<not> u_Spent u"
  shows "stripe_inv b (st\<lparr>st_utxo := fmupd op u (st_utxo st)\<rparr>)"
  using assms by (simp add: stripe_inv_def keys_in_def bands_cover_def)

lemma stripe_inv_put_spent:
  assumes "stripe_inv b st" and "striperOf (op_TxID op) = b"
  shows "stripe_inv b (indexSpent op (u_SpentHeight u) (st\<lparr>st_utxo := fmupd op u (st_utxo st)\<rparr>))"
  using assms by (auto simp: stripe_inv_def keys_in_def bands_cover_def band_indexSpent) metis

lemma stripe_inv_unspend:
  assumes "stripe_inv b st" and "fmlookup (st_utxo st) op = Some u" and "\<not> u_Spent u'"
  shows "stripe_inv b ((deindexSpent op h st)\<lparr>st_utxo := fmupd op u' (st_utxo st)\<rparr>)"
  using assms by (auto simp: stripe_inv_def keys_in_def bands_cover_def band_deindexSpent distinct_removeAll)

lemma stripe_inv_delete:
  assumes "stripe_inv b st"
  shows "stripe_inv b ((deindexSpent op h st)\<lparr>st_utxo := fmdrop op (st_utxo st)\<rparr>)"
    and "stripe_inv b (st\<lparr>st_utxo := fmdrop op (st_utxo st)\<rparr>)"
  using assms by (auto simp: stripe_inv_def keys_in_def bands_cover_def band_deindexSpent distinct_removeAll)

lemma mem_abs_set_stripe:
  "mem_abs (set_stripe k st s) =
     \<lparr>fs_txindex = (\<lambda>j. if striperOf j = striperOf k then fmlookup (st_txindex st) j else fs_txindex (mem_abs s) j),
      fs_utxo = (\<lambda>op. if striperOf (op_TxID op) = striperOf k then fmlookup (st_utxo st) op else fs_utxo (mem_abs s) op),
      fs_subtree = (\<lambda>j. if striperOf j = striperOf k then fmlookup (st_subtree st) j else fs_subtree (mem_abs s) j),
      fs_blocks = (\<lambda>j. if striperOf j = striperOf k then fmlookup (st_blocks st) j else fs_blocks (mem_abs s) j),
      fs_hdr = fs_hdr (mem_abs s), fs_hidx = fs_hidx (mem_abs s)\<rparr>"
  by (simp add: mem_abs_def set_stripe_def fun_eq_iff)

lemma mem_abs_frame [simp]:
  "mem_abs (s\<lparr>ms_hdr := x\<rparr>) = (mem_abs s)\<lparr>fs_hdr := fmlookup x\<rparr>"
  "mem_abs (s\<lparr>ms_hidx := y\<rparr>) = (mem_abs s)\<lparr>fs_hidx := fmlookup y\<rparr>"
  by (simp_all add: mem_abs_def)

lemma mem_abs_sel:
  "fs_txindex (mem_abs s) k = fmlookup (st_txindex (stripe_of s k)) k"
  "fs_utxo (mem_abs s) op = fmlookup (st_utxo (stripe_of s (op_TxID op))) op"
  "fs_subtree (mem_abs s) k = fmlookup (st_subtree (stripe_of s k)) k"
  "fs_blocks (mem_abs s) k = fmlookup (st_blocks (stripe_of s k)) k"
  "fs_hdr (mem_abs s) = fmlookup (ms_hdr s)"
  "fs_hidx (mem_abs s) = fmlookup (ms_hidx s)"
  by (simp_all add: mem_abs_def)

lemmas mem_abs_simps = mem_abs_set_stripe mem_abs_sel set_stripe_def fun_eq_iff

lemma flat_eqI:
  assumes "fs_txindex s = fs_txindex t" "fs_utxo s = fs_utxo t" "fs_subtree s = fs_subtree t"
    "fs_blocks s = fs_blocks t" "fs_hdr s = fs_hdr t" "fs_hidx s = fs_hidx t"
  shows "(s :: FlatStore) = t"
  using assms by simp

lemma mem_put_txindex: "implements mem_inv mem_abs (mem_PutTxIndex txid ix) (so_PutTxIndex flat_ops txid ix)"
  by (rule implementsI)
    (auto simp: mem_PutTxIndex_def Let_def flat_defs mem_abs_def set_stripe_def fun_eq_iff
       mem_inv_stripe stripe_inv_maps mem_inv_def)

lemma mem_delete_txindex: "implements mem_inv mem_abs (mem_DeleteTxIndex txid) (so_DeleteTxIndex flat_ops txid)"
  by (rule implementsI)
    (auto simp: mem_DeleteTxIndex_def Let_def flat_defs mem_abs_def set_stripe_def fun_eq_iff
       stripe_inv_maps mem_inv_def split: option.splits)

lemma mem_put_subtree: "implements mem_inv mem_abs (mem_PutSubtree root leaves) (so_PutSubtree flat_ops root leaves)"
  by (rule implementsI)
    (auto simp: mem_PutSubtree_def Let_def flat_defs mem_abs_def set_stripe_def fun_eq_iff
       stripe_inv_maps mem_inv_def)

lemma mem_put_block: "implements mem_inv mem_abs (mem_PutBlock b) (so_PutBlock flat_ops b)"
  by (rule implementsI)
    (auto simp: mem_PutBlock_def Let_def flat_defs mem_abs_def set_stripe_def fun_eq_iff
       mem_inv_stripe stripe_inv_maps mem_inv_def)

lemma mem_put_utxo: "implements mem_inv mem_abs (mem_PutUTXO op u) (so_PutUTXO flat_ops op u)"
  by (rule implementsI)
    (auto simp: mem_PutUTXO_def Let_def flat_defs mem_abs_def set_stripe_def fun_eq_iff
       stripe_inv_put_spent stripe_inv_put_unspent mem_inv_def)

lemma mem_spend_utxo: "implements mem_inv mem_abs (mem_SpendUTXO op by h) (so_SpendUTXO flat_ops op by h)"
proof (rule implementsI)
  fix s assume s: "mem_inv s"
  have "stripe_inv (striperOf (op_TxID op))
      (indexSpent op (u_SpentHeight (spend by h u)) (stripe_of s (op_TxID op)
        \<lparr>st_utxo := fmupd op (spend by h u) (st_utxo (stripe_of s (op_TxID op)))\<rparr>))" for u
    using s by (intro stripe_inv_put_spent mem_inv_stripe) simp_all
  then show "mem_inv (fst (mem_SpendUTXO op by h s))"
    using s by (simp add: mem_SpendUTXO_def Let_def spend_def mem_inv_set_stripe split: option.split)
  show "so_SpendUTXO flat_ops op by h (mem_abs s) =
      (mem_abs (fst (mem_SpendUTXO op by h s)), snd (mem_SpendUTXO op by h s))"
    by (auto simp: mem_SpendUTXO_def Let_def flat_defs mem_abs_def set_stripe_def fun_eq_iff spend_def
        split: option.splits)
qed

lemma mem_unspend_utxo: "implements mem_inv mem_abs (mem_UnspendUTXO op) (so_UnspendUTXO flat_ops op)"
  by (rule implementsI)
    (auto simp: mem_UnspendUTXO_def Let_def flat_defs mem_abs_def set_stripe_def fun_eq_iff unspend_def
       stripe_inv_put_unspent stripe_inv_unspend mem_inv_def split: option.splits)

lemma mem_delete_utxo: "implements mem_inv mem_abs (mem_DeleteUTXO op) (so_DeleteUTXO flat_ops op)"
  by (rule implementsI)
    (auto simp: mem_DeleteUTXO_def Let_def flat_defs mem_abs_def set_stripe_def fun_eq_iff
       stripe_inv_delete mem_inv_def split: option.splits)

lemma mem_gets:
  "implements mem_inv mem_abs (mem_GetTxIndex txid) (so_GetTxIndex flat_ops txid)"
  "implements mem_inv mem_abs (mem_GetUTXO op) (so_GetUTXO flat_ops op)"
  "implements mem_inv mem_abs (mem_GetSubtree root) (so_GetSubtree flat_ops root)"
  "implements mem_inv mem_abs (mem_GetBlock hash) (so_GetBlock flat_ops hash)"
  "implements mem_inv mem_abs (mem_GetHeader h) (so_GetHeader flat_ops h)"
  "implements mem_inv mem_abs (mem_PutHeader h hdr) (so_PutHeader flat_ops h hdr)"
  by (auto simp: implements_def flat_ops_def mem_abs_def fun_eq_iff mem_GetTxIndex_def mem_GetUTXO_def
      mem_GetSubtree_def mem_GetBlock_def mem_GetHeader_def mem_PutHeader_def)

section \<open>Sweeps\<close>

lemma prune_band_eq:
  "prune_band h ops m n =
     (fmfilter (\<lambda>op. \<not> (op \<in> set ops \<and> spent_at h (fmlookup m op))) m,
      n + card {op \<in> set ops. spent_at h (fmlookup m op)})"
proof (induction h ops m n rule: prune_band.induct)
  case (1 h m n)
  then show ?case by simp
next
  case (2 h op ops m n)
  show ?case
  proof (cases "spent_at h (fmlookup m op)")
    case True
    have gone: "\<not> spent_at h None" by (simp add: spent_at_def)
    have "{x \<in> set (op # ops). spent_at h (fmlookup m x)} =
        insert op {x \<in> set ops. spent_at h (fmlookup (fmdrop op m) x)}"
      using True gone by auto
    moreover have "op \<notin> {x \<in> set ops. spent_at h (fmlookup (fmdrop op m) x)}"
      using gone by simp
    moreover have "fmfilter (\<lambda>x. \<not> (x \<in> set ops \<and> spent_at h (fmlookup (fmdrop op m) x))) (fmdrop op m) =
        fmfilter (\<lambda>x. \<not> (x \<in> set (op # ops) \<and> spent_at h (fmlookup m x))) m"
      using True by (intro fmap_ext) auto
    ultimately show ?thesis using True "2.IH"(1) by simp
  next
    case False
    then have "{x \<in> set (op # ops). spent_at h (fmlookup m x)} = {x \<in> set ops. spent_at h (fmlookup m x)}"
      by auto
    moreover have "fmfilter (\<lambda>x. \<not> (x \<in> set ops \<and> spent_at h (fmlookup m x))) m =
        fmfilter (\<lambda>x. \<not> (x \<in> set (op # ops) \<and> spent_at h (fmlookup m x))) m"
      using False by (intro fmap_ext) auto
    ultimately show ?thesis using False "2.IH"(2) by simp
  qed
qed

text \<open>The order in which Go iterates over a band does not matter.\<close>

lemma prune_band_any_order:
  "set ops = set ops' \<Longrightarrow> prune_band h ops m n = prune_band h ops' m n"
  by (simp add: prune_band_eq cong del: fmfilter_cong)

lemma spent_in_band:
  "stripe_inv b st \<Longrightarrow> spent_at h (fmlookup (st_utxo st) op) \<Longrightarrow> op \<in> set (band st h)"
  by (auto simp: stripe_inv_def bands_cover_def spent_at_def split: option.splits)

lemma spent_key:
  "stripe_inv b st \<Longrightarrow> spent_at h (fmlookup (st_utxo st) op) \<Longrightarrow> striperOf (op_TxID op) = b"
  by (auto simp: stripe_inv_def keys_in_def spent_at_def split: option.splits)

lemma prune_stripe_eq:
  assumes "stripe_inv b st"
  shows "st_utxo (fst (prune_stripe h st)) = fmfilter (\<lambda>op. \<not> spent_at h (fmlookup (st_utxo st) op)) (st_utxo st)"
    and "snd (prune_stripe h st) = card {op. spent_at h (fmlookup (st_utxo st) op)}"
    and "st_txindex (fst (prune_stripe h st)) = st_txindex st"
    and "st_subtree (fst (prune_stripe h st)) = st_subtree st"
    and "st_blocks (fst (prune_stripe h st)) = st_blocks st"
    and "band (fst (prune_stripe h st)) h' = (if h' = h then [] else band st h')"
proof -
  note in_band = spent_in_band [OF assms, of h]
  have set_eq: "{op \<in> set (band st h). spent_at h (fmlookup (st_utxo st) op)} =
      {op. spent_at h (fmlookup (st_utxo st) op)}"
    using in_band by auto
  have none: "\<not> spent_at h (fmlookup (st_utxo st) op)" if "band st h = []" for op
    using in_band [of op] that by auto
  show "st_utxo (fst (prune_stripe h st)) = fmfilter (\<lambda>op. \<not> spent_at h (fmlookup (st_utxo st) op)) (st_utxo st)"
    using in_band none
    by (intro fmap_ext) (auto simp: prune_stripe_def prune_band_eq band_def split: option.splits)
  show "snd (prune_stripe h st) = card {op. spent_at h (fmlookup (st_utxo st) op)}"
    using set_eq none
    by (auto simp: prune_stripe_def prune_band_eq band_def split: option.splits)
qed (auto simp: prune_stripe_def prune_band_eq band_def split: option.splits)

lemma stripe_inv_prune:
  assumes "stripe_inv b st"
  shows "stripe_inv b (fst (prune_stripe h st))"
proof -
  have "bands_cover (fst (prune_stripe h st))"
    using assms by (auto simp: bands_cover_def prune_stripe_eq [OF assms] stripe_inv_def spent_at_def)
  then show ?thesis
    using assms by (auto simp: stripe_inv_def keys_in_def prune_stripe_eq [OF assms])
qed

lemma prune_stripes_eq:
  assumes "distinct bs"
  shows "prune_stripes h bs s n =
     (s\<lparr>ms_st := (\<lambda>b. if b \<in> set bs then fst (prune_stripe h (ms_st s b)) else ms_st s b)\<rparr>,
      n + sum_list (map (\<lambda>b. snd (prune_stripe h (ms_st s b))) bs))"
  using assms
proof (induction bs arbitrary: s n)
  case (Cons b bs)
  obtain st k where st: "prune_stripe h (ms_st s b) = (st, k)" by (cases "prune_stripe h (ms_st s b)")
  have same: "map (\<lambda>x. snd (prune_stripe h (if x = b then st else ms_st s x))) bs =
      map (\<lambda>x. snd (prune_stripe h (ms_st s x))) bs"
    using Cons.prems by auto
  from Cons st show ?case by (auto simp: fun_eq_iff same)
qed simp

lemma all_stripes: "distinct all_stripes" "set all_stripes = UNIV"
proof -
  have "inj_on (of_nat :: nat \<Rightarrow> byte) {0..<256}"
  proof (rule inj_onI)
    fix i j :: nat
    assume ij: "i \<in> {0..<256}" "j \<in> {0..<256}" and eq: "(of_nat i :: byte) = of_nat j"
    from eq have "unat (of_nat i :: byte) = unat (of_nat j :: byte)" by simp
    with ij show "i = j" by (simp add: unat_of_nat)
  qed
  then show "distinct all_stripes" by (simp add: all_stripes_def distinct_map)
  have "b \<in> set all_stripes" for b :: byte
  proof -
    have "unat b < 256" using unsigned_less [of b, where 'a = nat] by simp
    moreover have "b = of_nat (unat b)" by simp
    ultimately show ?thesis by (auto simp: all_stripes_def intro: image_eqI [where x = "unat b"])
  qed
  then show "set all_stripes = UNIV" by auto
qed

lemma stripe_sum:
  assumes "\<And>b x. x \<in> A b \<Longrightarrow> key x = b" and "\<And>b. finite (A b)"
  shows "sum_list (map (\<lambda>b. card (A b)) all_stripes) = card {x. x \<in> A (key x)}"
proof -
  have "sum_list (map (\<lambda>b. card (A b)) all_stripes) = (\<Sum>b \<in> UNIV. card (A b))"
    using all_stripes by (simp add: sum_list_distinct_conv_sum_set)
  also have "\<dots> = card (\<Union>b. A b)"
    using assms(2) by (subst card_UN_disjoint) (auto dest: assms(1))
  also have "(\<Union>b. A b) = {x. x \<in> A (key x)}"
    using assms(1) by auto
  finally show ?thesis .
qed

lemma finite_spent_at: "finite {op. spent_at h (fmlookup m op)}"
  by (rule finite_subset [of _ "fmdom' m"]) (auto simp: spent_at_def fmdom'I split: option.splits)

lemma mem_prune_spent:
  "implements mem_inv mem_abs (mem_PruneSpentAtHeight h) (so_PruneSpentAtHeight flat_ops h)"
proof (rule implementsI)
  fix s assume s: "mem_inv s"
  note st = mem_inv_stripe [OF s]
  have run: "mem_PruneSpentAtHeight h s =
     (s\<lparr>ms_st := (\<lambda>b. fst (prune_stripe h (ms_st s b)))\<rparr>,
      Inr (sum_list (map (\<lambda>b. snd (prune_stripe h (ms_st s b))) all_stripes)))"
    by (simp add: mem_PruneSpentAtHeight_def prune_stripes_eq all_stripes)
  show "mem_inv (fst (mem_PruneSpentAtHeight h s))"
    using st by (simp add: run mem_inv_def stripe_inv_prune)
  have "sum_list (map (\<lambda>b. card {op. spent_at h (fmlookup (st_utxo (ms_st s b)) op)}) all_stripes) =
      card {op. op \<in> {op'. spent_at h (fmlookup (st_utxo (ms_st s (striperOf (op_TxID op)))) op')}}"
    by (intro stripe_sum) (auto simp: finite_spent_at dest: spent_key [OF st])
  then have n: "sum_list (map (\<lambda>b. snd (prune_stripe h (ms_st s b))) all_stripes) =
      card {op. spent_at h (fs_utxo (mem_abs s) op)}"
    by (simp add: prune_stripe_eq [OF st] mem_abs_sel)
  show "so_PruneSpentAtHeight flat_ops h (mem_abs s) =
      (mem_abs (fst (mem_PruneSpentAtHeight h s)), snd (mem_PruneSpentAtHeight h s))"
    by (simp add: run n flat_ops_def flat_PruneSpentAtHeight_def)
       (simp add: mem_abs_def prune_stripe_eq [OF st] fun_eq_iff)
qed

lemma present_single [simp]: "present m [k] = (if m k = None then 0 else 1)"
  by (simp add: present_def domIff Int_insert_left)

lemma present_Cons: "present m (k # ks) = present m [k] + present (m |` (- {k})) ks"
proof -
  have "set (k # ks) \<inter> dom m = ({k} \<inter> dom m) \<union> (set ks \<inter> dom (m |` (- {k})))" by auto
  moreover have "({k} \<inter> dom m) \<inter> (set ks \<inter> dom (m |` (- {k}))) = {}" by auto
  ultimately show ?thesis by (simp add: present_def card_Un_disjoint)
qed

lemma fold_drop_sim:
  assumes step: "\<And>k s n. mem_inv s \<Longrightarrow> (case f k (s, n) of (s', n') \<Rightarrow> mem_inv s' \<and>
      mem_abs s' = upd ((get (mem_abs s)) |` (- {k})) (mem_abs s) \<and> n' = n + present (get (mem_abs s)) [k])"
    and lens: "\<And>m a. get (upd m a) = m" "\<And>m m' a. upd m (upd m' a) = upd m a" "\<And>a. upd (get a) a = a"
    and inv: "mem_inv s"
  shows "case fold f ks (s, n) of (s', n') \<Rightarrow> mem_inv s' \<and>
    mem_abs s' = upd ((get (mem_abs s)) |` (- set ks)) (mem_abs s) \<and> n' = n + present (get (mem_abs s)) ks"
  using inv
proof (induction ks arbitrary: s n)
  case Nil
  then show ?case by (simp add: lens present_def)
next
  case (Cons k ks)
  obtain s1 n1 where f: "f k (s, n) = (s1, n1)" by (cases "f k (s, n)")
  from step [OF Cons.prems, of k n] f have s1: "mem_inv s1"
    and a1: "mem_abs s1 = upd ((get (mem_abs s)) |` (- {k})) (mem_abs s)"
    and n1: "n1 = n + present (get (mem_abs s)) [k]" by auto
  have g1: "get (mem_abs s1) = get (mem_abs s) |` (- {k})" by (simp only: a1 lens)
  have r1: "get (mem_abs s) |` (- {k}) |` (- set ks) = get (mem_abs s) |` (- set (k # ks))"
    by (auto simp: restrict_map_def fun_eq_iff)
  from Cons.IH [OF s1, of n1] show ?case
    by (simp only: fold_simps f g1 a1 r1 n1 lens present_Cons [of _ k ks] add.assoc)
qed

lemma drop_txindex_sim:
  "mem_inv s \<Longrightarrow> (case drop_txindex k (s, n) of (s', n') \<Rightarrow> mem_inv s' \<and>
     mem_abs s' = (mem_abs s)\<lparr>fs_txindex := fs_txindex (mem_abs s) |` (- {k})\<rparr> \<and>
     n' = n + present (fs_txindex (mem_abs s)) [k])"
  by (auto simp: drop_txindex_def Let_def mem_abs_def set_stripe_def mem_inv_def
      stripe_inv_maps fun_eq_iff restrict_map_def)

lemma drop_subtree_sim:
  "mem_inv s \<Longrightarrow> (case drop_subtree k (s, n) of (s', n') \<Rightarrow> mem_inv s' \<and>
     mem_abs s' = (mem_abs s)\<lparr>fs_subtree := fs_subtree (mem_abs s) |` (- {k})\<rparr> \<and>
     n' = n + present (fs_subtree (mem_abs s)) [k])"
  by (auto simp: drop_subtree_def Let_def mem_abs_def set_stripe_def mem_inv_def
      stripe_inv_maps fun_eq_iff restrict_map_def)

lemma drop_block_sim:
  "mem_inv s \<Longrightarrow> (case drop_block k (s, n) of (s', n') \<Rightarrow> mem_inv s' \<and>
     mem_abs s' = (mem_abs s)\<lparr>fs_blocks := fs_blocks (mem_abs s) |` (- {k})\<rparr> \<and>
     n' = n + present (fs_blocks (mem_abs s)) [k])"
  by (auto simp: drop_block_def Let_def mem_abs_def set_stripe_def mem_inv_def
      stripe_inv_maps fun_eq_iff restrict_map_def)


lemmas fold_drop_block = fold_drop_sim
  [where f = drop_block and get = fs_blocks and upd = "\<lambda>m a. a\<lparr>fs_blocks := m\<rparr>", OF drop_block_sim, simplified]
lemmas fold_drop_subtree = fold_drop_sim
  [where f = drop_subtree and get = fs_subtree and upd = "\<lambda>m a. a\<lparr>fs_subtree := m\<rparr>", OF drop_subtree_sim, simplified]
lemmas fold_drop_txindex = fold_drop_sim
  [where f = drop_txindex and get = fs_txindex and upd = "\<lambda>m a. a\<lparr>fs_txindex := m\<rparr>", OF drop_txindex_sim, simplified]

lemma drop_entry_sim:
  assumes "mem_inv s"
    and "fold drop_txindex txs (fold drop_subtree subs (fold drop_block blks (s, 0))) = (s', n)"
  shows "mem_inv s'"
    and "mem_abs s' = (mem_abs s)\<lparr>fs_blocks := fs_blocks (mem_abs s) |` (- set blks),
           fs_subtree := fs_subtree (mem_abs s) |` (- set subs),
           fs_txindex := fs_txindex (mem_abs s) |` (- set txs)\<rparr>"
    and "n = present (fs_blocks (mem_abs s)) blks + present (fs_subtree (mem_abs s)) subs +
           present (fs_txindex (mem_abs s)) txs"
proof -
  obtain s1 n1 where b: "fold drop_block blks (s, 0) = (s1, n1)" by (cases "fold drop_block blks (s, 0)")
  obtain s2 n2 where t: "fold drop_subtree subs (s1, n1) = (s2, n2)" by (cases "fold drop_subtree subs (s1, n1)")
  have 1: "mem_inv s1" "mem_abs s1 = (mem_abs s)\<lparr>fs_blocks := fs_blocks (mem_abs s) |` (- set blks)\<rparr>"
    "n1 = present (fs_blocks (mem_abs s)) blks"
    using fold_drop_block [OF assms(1), of blks 0] b by simp_all
  have 2: "mem_inv s2" "mem_abs s2 = (mem_abs s1)\<lparr>fs_subtree := fs_subtree (mem_abs s1) |` (- set subs)\<rparr>"
    "n2 = n1 + present (fs_subtree (mem_abs s1)) subs"
    using fold_drop_subtree [OF 1(1), of subs n1] t by simp_all
  have 3: "mem_inv s'" "mem_abs s' = (mem_abs s2)\<lparr>fs_txindex := fs_txindex (mem_abs s2) |` (- set txs)\<rparr>"
    "n = n2 + present (fs_txindex (mem_abs s2)) txs"
    using fold_drop_txindex [OF 2(1), of txs n2] assms(2) b t by simp_all
  show "mem_inv s'" by (rule 3)
  show "mem_abs s' = (mem_abs s)\<lparr>fs_blocks := fs_blocks (mem_abs s) |` (- set blks),
           fs_subtree := fs_subtree (mem_abs s) |` (- set subs),
           fs_txindex := fs_txindex (mem_abs s) |` (- set txs)\<rparr>"
    by (simp add: 1 2 3)
  show "n = present (fs_blocks (mem_abs s)) blks + present (fs_subtree (mem_abs s)) subs +
           present (fs_txindex (mem_abs s)) txs"
    by (simp add: 1 2 3)
qed

lemma mem_prune_index:
  "implements mem_inv mem_abs (mem_PruneIndexAtHeight h) (so_PruneIndexAtHeight flat_ops h)"
proof (rule implementsI)
  fix s assume s: "mem_inv s"
  define s0 where "s0 = s\<lparr>ms_hidx := fmdrop h (ms_hidx s)\<rparr>"
  define e where "e = entry_of (fmlookup (ms_hidx s) h)"
  define blks where "blks = (if he_hasBlock e then [he_block e] else [])"
  have s0: "mem_inv s0" using s by (simp add: s0_def)
  obtain s1 n1 where f: "fold drop_txindex (he_txids e) (fold drop_subtree (he_subtrees e) (fold drop_block blks (s0, 0))) = (s1, n1)"
    by (metis surj_pair)
  note d = drop_entry_sim [OF s0 f]
  have hdr: "fmlookup (ms_hdr s1) = fmlookup (ms_hdr s)"
  proof -
    have "fs_hdr (mem_abs s1) = fs_hdr (mem_abs s0)" by (simp add: d(2))
    then show ?thesis by (simp add: mem_abs_sel s0_def)
  qed
  have run: "mem_PruneIndexAtHeight h s =
      (if fmlookup (ms_hdr s1) h \<noteq> None then (s1\<lparr>ms_hdr := fmdrop h (ms_hdr s1)\<rparr>, Inr (n1 + 1)) else (s1, Inr n1))"
    using f
    by (cases "fmlookup (ms_hidx s) h")
       (auto simp: mem_PruneIndexAtHeight_def Let_def s0_def [symmetric] e_def entry_of_def emptyEntry_def blks_def)
  show "mem_inv (fst (mem_PruneIndexAtHeight h s))" using d(1) by (simp add: run)
  have a0: "mem_abs s0 = (mem_abs s)\<lparr>fs_hidx := (fs_hidx (mem_abs s))(h := None)\<rparr>"
    by (simp add: s0_def mem_abs_sel fun_eq_iff)
  have drop: "fmlookup (fmdrop h (ms_hdr s1)) = (fmlookup (ms_hdr s))(h := None)"
    by (simp add: fun_eq_iff hdr)
  have same: "fmlookup (ms_hdr s) h = None \<Longrightarrow> (fmlookup (ms_hdr s))(h := None) = fmlookup (ms_hdr s)"
    by (simp add: fun_eq_iff)
  show "so_PruneIndexAtHeight flat_ops h (mem_abs s) =
      (mem_abs (fst (mem_PruneIndexAtHeight h s)), snd (mem_PruneIndexAtHeight h s))"
    using same
    by (simp add: run flat_ops_def flat_PruneIndexAtHeight_def Let_def d(2,3) a0 hdr drop
        mem_abs_sel(5,6) e_def blks_def)
qed


section \<open>The memory backend implements the store contract\<close>

lemma stats_total:
  assumes "\<And>b k. k |\<in>| A b \<Longrightarrow> key k = b"
  shows "sum_list (map (\<lambda>b. fcard (A b)) all_stripes) = card {k. k |\<in>| A (key k)}"
  using stripe_sum [of "\<lambda>b. fset (A b)" key] assms by (simp add: fcard.rep_eq)

lemma fmdom_iff: "k |\<in>| fmdom m \<longleftrightarrow> (\<exists>v. fmlookup m k = Some v)"
  by (auto simp: fmlookup_dom_iff)

lemma mem_stats:
  assumes "mem_inv s"
  shows "mem_Stats s = so_Stats flat_ops (mem_abs s)"
proof -
  have keys: "keys_in b (ms_st s b)" for b using mem_inv_stripe [OF assms] by (simp add: stripe_inv_def)
  have utxo: "sum_list (map (\<lambda>b. fm_count P (st_utxo (ms_st s b))) all_stripes) =
      card {op. \<exists>u. fs_utxo (mem_abs s) op = Some u \<and> P u}" for P
    unfolding fm_count_def using keys
    by (subst stats_total [where key = "\<lambda>op. striperOf (op_TxID op)"])
       (auto simp: keys_in_def fmdom_iff mem_abs_sel intro!: arg_cong [where f = card])
  have tx: "sum_list (map (\<lambda>b. fcard (fmdom (st_txindex (ms_st s b)))) all_stripes) = card (dom (fs_txindex (mem_abs s)))"
    using keys by (subst stats_total [where key = striperOf])
      (auto simp: keys_in_def fmdom_iff mem_abs_sel dom_def)
  have sub: "sum_list (map (\<lambda>b. fcard (fmdom (st_subtree (ms_st s b)))) all_stripes) = card (dom (fs_subtree (mem_abs s)))"
    using keys by (subst stats_total [where key = striperOf])
      (auto simp: keys_in_def fmdom_iff mem_abs_sel dom_def)
  have blk: "sum_list (map (\<lambda>b. fcard (fmdom (st_blocks (ms_st s b)))) all_stripes) = card (dom (fs_blocks (mem_abs s)))"
    using keys by (subst stats_total [where key = striperOf])
      (auto simp: keys_in_def fmdom_iff mem_abs_sel dom_def)
  have hdr: "fcard (fmdom (ms_hdr s)) = card (dom (fs_hdr (mem_abs s)))"
    by (simp add: mem_abs_sel fcard.rep_eq fmdom.rep_eq)
  show ?thesis
    by (simp add: mem_Stats_def flat_ops_def flat_Stats_def Let_def utxo tx sub blk hdr)
qed

interpretation mem: store_backend mem_ops mem_abs mem_inv
  by unfold_locales
    (simp_all add: mem_ops_def mem_put_txindex mem_delete_txindex mem_put_subtree mem_put_block
       mem_put_utxo mem_spend_utxo mem_unspend_utxo mem_delete_utxo mem_gets mem_prune_spent
       mem_prune_index mem_stats)

lemma mem_inv_New: "mem_inv New"
  by (simp add: mem_inv_def New_def stripe_inv_def keys_in_def newStripe_def band_def bands_cover_def)

lemma mem_abs_New: "mem_abs New = emptyFlat"
  by (simp add: mem_abs_def New_def newStripe_def emptyFlat_def fun_eq_iff)

lemmas mem_run = mem.run_calls_sim [OF mem_inv_New, unfolded mem_abs_New]

text \<open>
  C9. Every sequence of interface calls on a fresh memory store gives, call by call, the answers of
  the reference store, keeps the stripe invariant, and ends in a state whose abstraction is the
  reference store's state.
\<close>

theorem mem_store_refines:
  "snd (run_calls mem_ops cs New) = snd (run_calls flat_ops cs emptyFlat) \<and>
   mem_abs (fst (run_calls mem_ops cs New)) = fst (run_calls flat_ops cs emptyFlat) \<and>
   mem_inv (fst (run_calls mem_ops cs New))"
  using mem_run [of cs] by simp

text \<open>
  After any calls on a fresh memory store, \<^verbatim>\<open>PruneSpentAtHeight(h)\<close> evicts exactly the
  outputs whose record says spent at \<open>h\<close>, reports their number, and leaves every other output, every
  transaction index entry and every block record as it was.
\<close>

theorem mem_prune_exact:
  "let s = fst (run_calls mem_ops cs New);
       out = (\<lambda>s op. snd (mem_GetUTXO op s));
       s' = fst (mem_PruneSpentAtHeight h s)
   in snd (mem_PruneSpentAtHeight h s) =
        Inr (card {op. \<exists>u. out s op = Inr (Some u) \<and> u_Spent u \<and> u_SpentHeight u = h}) \<and>
      (\<forall>op. out s' op =
        (case out s op of Inr (Some u) \<Rightarrow> if u_Spent u \<and> u_SpentHeight u = h then Inr None else Inr (Some u)
         | r \<Rightarrow> r)) \<and>
      (\<forall>txid. snd (mem_GetTxIndex txid s') = snd (mem_GetTxIndex txid s)) \<and>
      (\<forall>hash. snd (mem_GetBlock hash s') = snd (mem_GetBlock hash s))"
proof -
  define s where "s = fst (run_calls mem_ops cs New)"
  have s: "mem_inv s" using mem_run [of cs] by (simp add: s_def)
  obtain s' r where p: "mem_PruneSpentAtHeight h s = (s', r)" by (cases "mem_PruneSpentAtHeight h s")
  from implementsD [OF mem_prune_spent s p] have
    a: "mem_abs s' = (mem_abs s)\<lparr>fs_utxo := (\<lambda>op. if spent_at h (fs_utxo (mem_abs s) op) then None else fs_utxo (mem_abs s) op)\<rparr>"
    and r: "r = Inr (card {op. spent_at h (fs_utxo (mem_abs s) op)})"
    by (simp_all add: flat_ops_def flat_PruneSpentAtHeight_def)
  have get: "snd (mem_GetUTXO op t) = Inr (fs_utxo (mem_abs t) op)"
    "snd (mem_GetTxIndex txid t) = Inr (fs_txindex (mem_abs t) txid)"
    "snd (mem_GetBlock hash t) = Inr (fs_blocks (mem_abs t) hash)" for op txid hash t
    by (simp_all add: mem_GetUTXO_def mem_GetTxIndex_def mem_GetBlock_def mem_abs_sel)
  have eq: "spent_at h (fs_utxo (mem_abs s) op) = (\<exists>u. fs_utxo (mem_abs s) op = Some u \<and> u_Spent u \<and> u_SpentHeight u = h)" for op
    by (simp add: spent_at_def split: option.split)
  show ?thesis
    unfolding Let_def s_def [symmetric]
    by (simp add: p r get a) (auto simp: eq split: option.split)
qed

text \<open>
  A transaction that is stored as seen and then as mined is never freed by
  \<^verbatim>\<open>PruneIndexAtHeight\<close>: \<^verbatim>\<open>PutTxIndex\<close> lists a txid under its height only when the
  key is new, so the sweep of that height misses the entry and it stays in memory for good. The
  interface comment promises that all index data of the height goes.
\<close>

theorem mem_seen_then_mined_leaks:
  assumes "\<not> ti_Mined seen" and "ti_Mined mined"
  shows "snd (run_calls mem_ops [CPutTxIndex txid seen, CPutTxIndex txid mined,
           CPruneIndexAtHeight (ti_Height mined), CGetTxIndex txid] New) =
         [Inr (ADone ()), Inr (ADone ()), Inr (ACount 0), Inr (ATxIndex (Some mined))]"
proof -
  have "snd (run_calls flat_ops [CPutTxIndex txid seen, CPutTxIndex txid mined,
           CPruneIndexAtHeight (ti_Height mined), CGetTxIndex txid] emptyFlat) =
         [Inr (ADone ()), Inr (ADone ()), Inr (ACount 0), Inr (ATxIndex (Some mined))]"
    using assms
    by (simp add: flat_defs answering_def bindM_def ret_def emptyFlat_def entry_of_def emptyEntry_def
        present_def)
  then show ?thesis using mem_run by (simp del: run_calls.simps)
qed

theorem mem_seen_then_mined_leaks_witness:
  "snd (run_calls mem_ops [CPutTxIndex (copy_from [7]) \<lparr>ti_Mined = False, ti_BlockHash = copy_from [],
       ti_Height = 0, ti_BlockTime = 0, ti_SubtreeIndex = 0, ti_LeafIndex = 0, ti_SeenTime = 1\<rparr>,
     CPutTxIndex (copy_from [7]) \<lparr>ti_Mined = True, ti_BlockHash = copy_from [9],
       ti_Height = 5, ti_BlockTime = 0, ti_SubtreeIndex = 0, ti_LeafIndex = 0, ti_SeenTime = 1\<rparr>,
     CPruneIndexAtHeight 5, CGetTxIndex (copy_from [7])] New) ! 2 = Inr (ACount 0)"
  using mem_seen_then_mined_leaks [of
     "\<lparr>ti_Mined = False, ti_BlockHash = copy_from [],
       ti_Height = 0, ti_BlockTime = 0, ti_SubtreeIndex = 0, ti_LeafIndex = 0, ti_SeenTime = 1\<rparr>"
     "\<lparr>ti_Mined = True, ti_BlockHash = copy_from [9],
       ti_Height = 5, ti_BlockTime = 0, ti_SubtreeIndex = 0, ti_LeafIndex = 0, ti_SeenTime = 1\<rparr>" "copy_from [7]"]
  by (simp del: run_calls.simps)

end
