(* ===== verification/Inclusion_Proof.thy ===== *)
theory Inclusion_Proof
  imports Commitment Mem_Store
begin

text \<open>
  \<^verbatim>\<open>proof/proof.go\<close>: assembling an inclusion proof from the store (transaction to subtree
  root, subtree root to block root) and folding it back to the block root.
\<close>

record Proof =
  pf_Leaf :: hash
  pf_L1 :: "PathElem list"
  pf_SubtreeRoot :: hash
  pf_L2 :: "PathElem list"
  pf_BlockRoot :: hash
  pf_BlockHash :: hash
  pf_Height :: uint32
  pf_Header :: header

definition Build :: "'s store_ops \<Rightarrow> hash \<Rightarrow> ('s, Proof) gom" where
  "Build ops txid =
     bindM (so_GetTxIndex ops txid) (\<lambda>r. case r of
       None \<Rightarrow> throw ErrNotMined
     | Some ix \<Rightarrow>
     if \<not> ti_Mined ix then throw ErrNotMined else
     bindM (so_GetBlock ops (ti_BlockHash ix)) (\<lambda>r. case r of
       None \<Rightarrow> throw ErrInconsistent
     | Some blk \<Rightarrow>
     if length (br_SubtreeRoots blk) \<le> unat (ti_SubtreeIndex ix) then throw ErrInconsistent else
     let subtreeRoot = br_SubtreeRoots blk ! unat (ti_SubtreeIndex ix) in
     bindM (so_GetSubtree ops subtreeRoot) (\<lambda>r. case r of
       None \<Rightarrow> throw ErrInconsistent
     | Some leaves \<Rightarrow>
     if length leaves \<le> unat (ti_LeafIndex ix) then throw ErrInconsistent else
     bindM (liftE (BuildMerkleTree leaves)) (\<lambda>(_, subLayers).
     bindM (liftE (MerklePath subLayers (int (unat (ti_LeafIndex ix))))) (\<lambda>l1.
     bindM (liftE (BuildMerkleTree (br_SubtreeRoots blk))) (\<lambda>(_, blkLayers).
     bindM (liftE (MerklePath blkLayers (int (unat (ti_SubtreeIndex ix))))) (\<lambda>l2.
     ret \<lparr>pf_Leaf = txid, pf_L1 = l1, pf_SubtreeRoot = subtreeRoot, pf_L2 = l2,
       pf_BlockRoot = br_MerkleRoot blk, pf_BlockHash = br_Hash blk, pf_Height = ti_Height ix,
       pf_Header = br_Header blk\<rparr>)))))))"

definition Verify :: "Proof \<Rightarrow> bool" where
  "Verify p = fst (VerifyToBlockRoot (pf_Leaf p) [] (pf_L1 p) (pf_L2 p) (pf_BlockRoot p))"

definition HeaderMerkleRoot :: "header \<Rightarrow> hash" where
  "HeaderMerkleRoot hdr = copy_from (take 32 (drop 36 (slice hdr)))"

context store_backend
begin

lemma build_sim: "implements iv af (Build ops txid) (Build flat_ops txid)"
  unfolding Build_def by (intro sim_intros get_txindex get_block get_subtree)

end

text \<open>
  The stored data a proof is assembled from: the index entry points at a leaf that is the
  transaction, the leaves hash to the subtree root it is stored under, and the roots to the root
  of the block record. The size bounds are those of a Teranode subtree and of a 32-bit index.
\<close>

definition provable :: "FlatStore \<Rightarrow> hash \<Rightarrow> TxIndex \<Rightarrow> BlockRec \<Rightarrow> hash list \<Rightarrow> bool" where
  "provable a txid ix blk leaves \<longleftrightarrow>
     fs_txindex a txid = Some ix \<and> ti_Mined ix \<and> fs_blocks a (ti_BlockHash ix) = Some blk \<and>
     unat (ti_SubtreeIndex ix) < length (br_SubtreeRoots blk) \<and>
     fs_subtree a (br_SubtreeRoots blk ! unat (ti_SubtreeIndex ix)) = Some leaves \<and>
     unat (ti_LeafIndex ix) < length leaves \<and> leaves ! unat (ti_LeafIndex ix) = txid \<and>
     MerkleRoot leaves = Inr (br_SubtreeRoots blk ! unat (ti_SubtreeIndex ix)) \<and>
     MerkleRoot (br_SubtreeRoots blk) = Inr (br_MerkleRoot blk) \<and>
     length leaves \<le> 2 ^ 20 \<and> length (br_SubtreeRoots blk) \<le> 2 ^ 32"

lemma build_provable:
  assumes "provable a txid ix blk leaves"
  shows "\<exists>pf. Build flat_ops txid a = (a, Inr pf) \<and> Verify pf \<and> pf_Leaf pf = txid \<and>
    pf_BlockRoot pf = br_MerkleRoot blk \<and> pf_BlockHash pf = br_Hash blk \<and>
    pf_Height pf = ti_Height ix \<and> pf_Header pf = br_Header blk"
proof -
  let ?roots = "br_SubtreeRoots blk" and ?si = "unat (ti_SubtreeIndex ix)" and ?li = "unat (ti_LeafIndex ix)"
  have store: "fs_txindex a txid = Some ix" "ti_Mined ix" "fs_blocks a (ti_BlockHash ix) = Some blk"
    "fs_subtree a (?roots ! ?si) = Some leaves" and txid: "leaves ! ?li = txid"
    and si: "?si < length ?roots" and li: "?li < length leaves"
    and sizes: "length leaves - 1 < 2 ^ 20" "length ?roots - 1 < 2 ^ 32"
    using assms by (auto simp: provable_def)
  have roots: "hd (last (build_layers leaves)) = ?roots ! ?si" "hd (last (build_layers ?roots)) = br_MerkleRoot blk"
    "leaves \<noteq> []" "?roots \<noteq> []"
    using assms by (auto simp: provable_def MerkleRoot_Inr)
  obtain l1 where l1: "MerklePath (build_layers leaves) (int ?li) = Inr l1"
    "Fold txid l1 = ?roots ! ?si" "length l1 = bit_len (length leaves - 1)"
    using MerklePath_build [OF li] txid roots by auto
  obtain l2 where l2: "MerklePath (build_layers ?roots) (int ?si) = Inr l2"
    "Fold (?roots ! ?si) l2 = br_MerkleRoot blk" "length l2 = bit_len (length ?roots - 1)"
    using MerklePath_build [OF si] roots by auto
  have "length l1 \<le> 20" "length l2 \<le> 32"
    using bit_len_bound [OF sizes(1)] bit_len_bound [OF sizes(2)] l1 l2 by simp_all
  then show ?thesis
    using store si li l1 l2 roots(3,4)
    by (simp add: Build_def flat_ops_def bindM_def liftE_def ret_def BuildMerkleTree_def Let_def
        Verify_def VerifyToBlockRoot_def MaxDepth_def)
qed

lemma HeaderMerkleRoot_slice: "take 32 (drop 36 (slice hdr)) = slice root \<Longrightarrow> HeaderMerkleRoot hdr = root"
  by (simp add: HeaderMerkleRoot_def)

text \<open>
  A proof is not tied to its header: for every txid and every header there is a proof, with empty
  paths and the txid itself as block root, that \<open>Verify\<close> accepts. The comment on \<open>Proof\<close> asks that
  the block root be the root committed in the header; no code checks it.
\<close>

theorem verify_accepts_forgery:
  "Verify \<lparr>pf_Leaf = txid, pf_L1 = [], pf_SubtreeRoot = sr, pf_L2 = [], pf_BlockRoot = txid,
     pf_BlockHash = bh, pf_Height = h, pf_Header = hdr\<rparr>"
  by (simp add: Verify_def VerifyToBlockRoot_def MaxDepth_def)

end
