(* ===== verification/Attest.thy ===== *)
theory Attest
  imports Secp256k1 Inclusion_Proof
begin

text \<open>
  \<^verbatim>\<open>attest/attest.go\<close>: signed answers, endorsements of operator keys by miners, and fraud
  proofs. The functions that check signatures take the check as an argument \<open>vf\<close>; the program
  passes \<open>ecdsa_Verify\<close> of theory Secp256k1. Its result is a sum because a check can panic on a
  key without coordinates.
\<close>

type_synonym sig_verify = "PublicKey option \<Rightarrow> bytes \<Rightarrow> Signature option \<Rightarrow> go_error + bool"

section \<open>Statements\<close>

type_synonym Kind = byte

abbreviation "StmtSeen \<equiv> (0 :: Kind)"
abbreviation "StmtMined \<equiv> (1 :: Kind)"
abbreviation "StmtUTXO \<equiv> (2 :: Kind)"

record Statement =
  st_Kind :: Kind
  st_TxID :: hash
  st_Vout :: uint32
  st_Flag :: bool
  st_Height :: uint32
  st_BlockHash :: hash
  st_Tip :: uint32

definition b32 :: "uint32 \<Rightarrow> bytes" where
  "b32 v = be32 v"

definition st_encode :: "Statement \<Rightarrow> bytes" where
  "st_encode s =
     [st_Kind s] @ slice (st_TxID s) @ b32 (st_Vout s) @ [if st_Flag s then 1 else 0] @
     b32 (st_Height s) @ slice (st_BlockHash s) @ b32 (st_Tip s)"

definition st_sighash :: "Statement \<Rightarrow> bytes" where
  "st_sighash s = slice (DoubleSHA256 (st_encode s))"

definition queryKey :: "Statement \<Rightarrow> 69 barray" where
  "queryKey s = copy_from ([st_Kind s] @ slice (st_TxID s) @ b32 (st_Vout s) @ b32 (st_Tip s))"

definition contradicts :: "Statement \<Rightarrow> Statement \<Rightarrow> bool" where
  "contradicts s s' =
     (if queryKey s \<noteq> queryKey s' then False
      else st_Flag s \<noteq> st_Flag s' \<or> st_Height s \<noteq> st_Height s' \<or> st_BlockHash s \<noteq> st_BlockHash s')"

section \<open>Attestations and endorsements\<close>

record Attestation =
  at_Statement :: Statement
  at_Operator :: "PublicKey option"
  at_Sig :: "Signature option"

definition att_Verify :: "sig_verify \<Rightarrow> Attestation \<Rightarrow> go_error + bool" where
  "att_Verify vf a =
     (if at_Operator a = None \<or> at_Sig a = None \<or> \<not> IsLowS (at_Sig a) then Inr False
      else vf (at_Operator a) (st_sighash (at_Statement a)) (at_Sig a))"

record Identity =
  id_priv :: PrivateKey

definition NewIdentity :: "bytes \<Rightarrow> Identity" where
  "NewIdentity seed = \<lparr>id_priv = NewPrivateKey seed\<rparr>"

definition id_Public :: "Identity \<Rightarrow> PublicKey" where
  "id_Public i = Public (id_priv i)"

text \<open>\<open>None\<close> when the nonce search of the signature does not end.\<close>

definition Attest :: "Identity \<Rightarrow> Statement \<Rightarrow> (go_error + Attestation) option" where
  "Attest i s =
     (case Sign (Some (id_priv i)) (st_sighash s) of
        None \<Rightarrow> None
      | Some (Inl err) \<Rightarrow> Some (Inl err)
      | Some (Inr sig) \<Rightarrow>
          Some (Inr \<lparr>at_Statement = s, at_Operator = Some (Public (id_priv i)), at_Sig = Some sig\<rparr>))"

record Endorsement =
  en_Operator :: "PublicKey option"
  en_Miner :: "PublicKey option"
  en_Sig :: "Signature option"

definition endorseHash :: "PublicKey option \<Rightarrow> go_error + bytes" where
  "endorseHash operator =
     (case operator of None \<Rightarrow> Inl PanicNil
      | Some p \<Rightarrow>
          (case SerializeCompressed p of Inl e \<Rightarrow> Inl e
           | Inr b \<Rightarrow> Inr (slice (DoubleSHA256 (str_bytes ''memserve-endorse-v1'' @ b)))))"

definition Endorse :: "PrivateKey \<Rightarrow> PublicKey option \<Rightarrow> (go_error + Endorsement) option" where
  "Endorse minerPriv operator =
     (case endorseHash operator of Inl e \<Rightarrow> Some (Inl e)
      | Inr h \<Rightarrow>
          (case Sign (Some minerPriv) h of
             None \<Rightarrow> None
           | Some (Inl err) \<Rightarrow> Some (Inl err)
           | Some (Inr sig) \<Rightarrow>
               Some (Inr \<lparr>en_Operator = operator, en_Miner = Some (Public minerPriv), en_Sig = Some sig\<rparr>)))"

definition en_Verify :: "sig_verify \<Rightarrow> Endorsement \<Rightarrow> go_error + bool" where
  "en_Verify vf e =
     (if en_Operator e = None \<or> en_Miner e = None \<or> en_Sig e = None \<or> \<not> IsLowS (en_Sig e) then Inr False
      else case endorseHash (en_Operator e) of Inl err \<Rightarrow> Inl err
           | Inr h \<Rightarrow> vf (en_Miner e) h (en_Sig e))"

section \<open>Fraud proofs\<close>

type_synonym FraudKind = byte

abbreviation "FraudFalseNegative \<equiv> (0 :: FraudKind)"
abbreviation "FraudEquivocation \<equiv> (1 :: FraudKind)"

record FraudProof =
  fp_Kind :: FraudKind
  fp_Att :: Attestation
  fp_Att2 :: "Attestation option"
  fp_Inclusion :: "Proof option"
  fp_Endorsement :: "Endorsement option"

definition ProveFalseNegative :: "sig_verify \<Rightarrow> Attestation \<Rightarrow> Proof \<Rightarrow> go_error + FraudProof" where
  "ProveFalseNegative vf att incl =
     (case att_Verify vf att of Inl e \<Rightarrow> Inl e
      | Inr ok \<Rightarrow>
          if \<not> ok then Inl ErrBadAttestation
          else
            let st = at_Statement att;
                negative = (st_Kind st = StmtSeen \<or> st_Kind st = StmtMined) \<and> \<not> st_Flag st
            in if \<not> negative then Inl ErrNoContradiction
               else if pf_Leaf incl \<noteq> st_TxID st \<or> \<not> Verify incl then Inl ErrNoContradiction
               else Inr \<lparr>fp_Kind = FraudFalseNegative, fp_Att = att, fp_Att2 = None,
                         fp_Inclusion = Some incl, fp_Endorsement = None\<rparr>)"

definition ProveEquivocation :: "sig_verify \<Rightarrow> Attestation \<Rightarrow> Attestation \<Rightarrow> go_error + FraudProof" where
  "ProveEquivocation vf a b =
     (case att_Verify vf a of Inl e \<Rightarrow> Inl e
      | Inr ok \<Rightarrow>
          if \<not> ok then Inl ErrBadAttestation
          else case att_Verify vf b of Inl e \<Rightarrow> Inl e
               | Inr ok2 \<Rightarrow>
                   if \<not> ok2 then Inl ErrBadAttestation
                   else case pub_Equal (at_Operator a) (at_Operator b) of Inl e \<Rightarrow> Inl e
                        | Inr eq \<Rightarrow>
                            if \<not> eq then Inl ErrOperatorMismatch
                            else if \<not> contradicts (at_Statement a) (at_Statement b) then Inl ErrNoContradiction
                            else Inr \<lparr>fp_Kind = FraudEquivocation, fp_Att = a, fp_Att2 = Some b,
                                      fp_Inclusion = None, fp_Endorsement = None\<rparr>)"

definition WithEndorsement :: "FraudProof \<Rightarrow> Endorsement \<Rightarrow> FraudProof" where
  "WithEndorsement fp e = fp\<lparr>fp_Endorsement := Some e\<rparr>"

definition is_panic :: "go_error \<Rightarrow> bool" where
  "is_panic e = (e = PanicIndex \<or> e = PanicNil)"

text \<open>
  The switch of \<open>Verify\<close>: the accountable operator, or \<open>None\<close> where the code returns
  \<^verbatim>\<open>ok = false\<close>. An error of the two constructors is a refusal, a panic is not caught.
\<close>

definition fp_accused :: "sig_verify \<Rightarrow> FraudProof \<Rightarrow> go_error + PublicKey option option" where
  "fp_accused vf fp =
     (let check = (\<lambda>r :: go_error + FraudProof. case r of
            Inl e \<Rightarrow> if is_panic e then Inl e else Inr None
          | Inr _ \<Rightarrow> Inr (Some (at_Operator (fp_Att fp))))
      in if fp_Kind fp = FraudFalseNegative
         then (case fp_Inclusion fp of None \<Rightarrow> Inr None
               | Some incl \<Rightarrow> check (ProveFalseNegative vf (fp_Att fp) incl))
         else if fp_Kind fp = FraudEquivocation
         then (case fp_Att2 fp of None \<Rightarrow> Inr None
               | Some att2 \<Rightarrow> check (ProveEquivocation vf (fp_Att fp) att2))
         else Inr None)"

text \<open>The endorsement part of \<open>Verify\<close>: the bound miner, if any.\<close>

definition fp_miner :: "sig_verify \<Rightarrow> FraudProof \<Rightarrow> PublicKey option \<Rightarrow> go_error + PublicKey option" where
  "fp_miner vf fp operator =
     (case fp_Endorsement fp of None \<Rightarrow> Inr None
      | Some e \<Rightarrow>
          (case en_Verify vf e of Inl err \<Rightarrow> Inl err
           | Inr ok \<Rightarrow>
               if \<not> ok then Inr None
               else case pub_Equal (en_Operator e) operator of Inl err \<Rightarrow> Inl err
                    | Inr eq \<Rightarrow> Inr (if eq then en_Miner e else None)))"

definition fp_Verify :: "sig_verify \<Rightarrow> FraudProof \<Rightarrow> go_error + PublicKey option \<times> PublicKey option \<times> bool" where
  "fp_Verify vf fp =
     (case fp_accused vf fp of Inl e \<Rightarrow> Inl e
      | Inr None \<Rightarrow> Inr (None, None, False)
      | Inr (Some operator) \<Rightarrow>
          (case fp_miner vf fp operator of Inl e \<Rightarrow> Inl e
           | Inr miner \<Rightarrow> Inr (operator, miner, True)))"

section \<open>What a fraud proof proves\<close>

lemma queryKey_eq:
  "queryKey s = queryKey s' \<longleftrightarrow>
     st_Kind s = st_Kind s' \<and> st_TxID s = st_TxID s' \<and> st_Vout s = st_Vout s' \<and> st_Tip s = st_Tip s'"
proof
  assume "queryKey s = queryKey s'"
  then have "slice (queryKey s) = slice (queryKey s')" by simp
  then show "st_Kind s = st_Kind s' \<and> st_TxID s = st_TxID s' \<and> st_Vout s = st_Vout s' \<and> st_Tip s = st_Tip s'"
    by (simp add: queryKey_def slice_copy_from b32_def append_field_eq)
qed (simp add: queryKey_def)

lemma st_encode_inject: "st_encode s = st_encode s' \<longleftrightarrow> s = s'"
proof
  assume "st_encode s = st_encode s'"
  then show "s = s'"
    by (cases s; cases s') (simp add: st_encode_def b32_def append_field_eq split: if_splits)
qed simp

lemma contradicts_iff:
  "contradicts s s' \<longleftrightarrow>
     (st_Kind s, st_TxID s, st_Vout s, st_Tip s) = (st_Kind s', st_TxID s', st_Vout s', st_Tip s') \<and>
     (st_Flag s, st_Height s, st_BlockHash s) \<noteq> (st_Flag s', st_Height s', st_BlockHash s')"
  by (auto simp: contradicts_def queryKey_eq)

lemma contradicts_binds: "contradicts s s' \<Longrightarrow> st_sighash s \<noteq> st_sighash s' \<or> collision (st_encode s, st_encode s')"
  by (auto simp: st_sighash_def collision_def st_encode_inject contradicts_def)

lemma att_Verify_true:
  "att_Verify vf a = Inr True \<longleftrightarrow>
     (\<exists>p sig. at_Operator a = Some p \<and> at_Sig a = Some sig \<and> IsLowS (Some sig) \<and>
        vf (Some p) (st_sighash (at_Statement a)) (Some sig) = Inr True)"
  by (cases "at_Operator a"; cases "at_Sig a") (auto simp: att_Verify_def)

lemma pub_Equal_true:
  "pub_Equal p q = Inr True \<longleftrightarrow> (\<exists>a b k. p = Some a \<and> q = Some b \<and> SerializeCompressed a = Inr k \<and> SerializeCompressed b = Inr k)"
  by (cases p; cases q) (auto simp: pub_Equal_def split: sum.splits)

lemma ProveFalseNegative_Inr:
  "ProveFalseNegative vf att incl = Inr fp \<longleftrightarrow>
     att_Verify vf att = Inr True \<and> (st_Kind (at_Statement att) = StmtSeen \<or> st_Kind (at_Statement att) = StmtMined) \<and>
     \<not> st_Flag (at_Statement att) \<and> pf_Leaf incl = st_TxID (at_Statement att) \<and> Verify incl \<and>
     fp = \<lparr>fp_Kind = FraudFalseNegative, fp_Att = att, fp_Att2 = None, fp_Inclusion = Some incl, fp_Endorsement = None\<rparr>"
  by (auto simp: ProveFalseNegative_def Let_def split: sum.splits if_splits)

lemma ProveEquivocation_Inr:
  "ProveEquivocation vf a b = Inr fp \<longleftrightarrow>
     att_Verify vf a = Inr True \<and> att_Verify vf b = Inr True \<and> pub_Equal (at_Operator a) (at_Operator b) = Inr True \<and>
     contradicts (at_Statement a) (at_Statement b) \<and>
     fp = \<lparr>fp_Kind = FraudEquivocation, fp_Att = a, fp_Att2 = Some b, fp_Inclusion = None, fp_Endorsement = None\<rparr>"
  by (auto simp: ProveEquivocation_def split: sum.splits if_splits)

lemma fp_accused_Some:
  "fp_accused vf fp = Inr (Some p) \<longleftrightarrow> p = at_Operator (fp_Att fp) \<and>
     (if fp_Kind fp = FraudFalseNegative
      then \<exists>incl r. fp_Inclusion fp = Some incl \<and> ProveFalseNegative vf (fp_Att fp) incl = Inr r
      else fp_Kind fp = FraudEquivocation \<and> (\<exists>b r. fp_Att2 fp = Some b \<and> ProveEquivocation vf (fp_Att fp) b = Inr r))"
  by (auto simp: fp_accused_def Let_def split: sum.splits option.splits)

lemma fp_miner_Some:
  "fp_miner vf fp p = Inr (Some m) \<Longrightarrow>
     \<exists>e. fp_Endorsement fp = Some e \<and> en_Miner e = Some m \<and> en_Verify vf e = Inr True \<and> pub_Equal (en_Operator e) p = Inr True"
  by (auto simp: fp_miner_def split: sum.splits option.splits if_splits)

lemma fp_Verify_true:
  "fp_Verify vf fp = Inr (p, m, True) \<longleftrightarrow> fp_accused vf fp = Inr (Some p) \<and> fp_miner vf fp p = Inr m"
  by (auto simp: fp_Verify_def split: sum.splits option.splits)

text \<open>
  The evidence in an accepted fraud proof: for a false negative a signed negative answer about a
  transaction and a proof of that transaction that \<open>Verify\<close> accepts; for an equivocation a second
  answer, signed under the same compressed key, to the same question at the same tip, that differs.
\<close>

definition fraud_evidence :: "sig_verify \<Rightarrow> FraudProof \<Rightarrow> bool" where
  "fraud_evidence vf fp =
     (let st = at_Statement (fp_Att fp)
      in if fp_Kind fp = FraudFalseNegative
         then (case fp_Inclusion fp of None \<Rightarrow> False
               | Some incl \<Rightarrow> (st_Kind st = StmtSeen \<or> st_Kind st = StmtMined) \<and> \<not> st_Flag st \<and>
                   pf_Leaf incl = st_TxID st \<and> Verify incl)
         else (case fp_Att2 fp of None \<Rightarrow> False
               | Some b \<Rightarrow>
                   let st' = at_Statement b
                   in att_Verify vf b = Inr True \<and> pub_Equal (at_Operator (fp_Att fp)) (at_Operator b) = Inr True \<and>
                      (st_Kind st, st_TxID st, st_Vout st, st_Tip st) = (st_Kind st', st_TxID st', st_Vout st', st_Tip st') \<and>
                      (st_Flag st, st_Height st, st_BlockHash st) \<noteq> (st_Flag st', st_Height st', st_BlockHash st') \<and>
                      (st_sighash st \<noteq> st_sighash st' \<or> collision (st_encode st, st_encode st'))))"

definition miner_bound :: "sig_verify \<Rightarrow> FraudProof \<Rightarrow> PublicKey \<Rightarrow> PublicKey \<Rightarrow> bool" where
  "miner_bound vf fp p m =
     (case fp_Endorsement fp of None \<Rightarrow> False
      | Some e \<Rightarrow> en_Miner e = Some m \<and> en_Verify vf e = Inr True \<and> pub_Equal (en_Operator e) (Some p) = Inr True)"

text \<open>
  C12. An accepted fraud proof rests on evidence: the accused operator is the key that signed the
  attached answer (a low-S signature over the hash of exactly that statement), the second half of
  the evidence contradicts it, two equivocating statements have different signed hashes unless
  they are a SHA-256d collision, and a miner is named only when that miner's signature over the
  operator's key is attached.
\<close>

theorem fraud_proof_sound:
  assumes "fp_Verify vf fp = Inr (operator, miner, True)"
  shows "\<exists>p sig. operator = Some p \<and> at_Operator (fp_Att fp) = Some p \<and> at_Sig (fp_Att fp) = Some sig \<and>
      IsLowS (Some sig) \<and> vf (Some p) (st_sighash (at_Statement (fp_Att fp))) (Some sig) = Inr True \<and>
      fraud_evidence vf fp \<and> (case miner of None \<Rightarrow> True | Some m \<Rightarrow> miner_bound vf fp p m)"
proof -
  from assms have acc: "fp_accused vf fp = Inr (Some operator)" and min: "fp_miner vf fp operator = Inr miner"
    by (simp_all add: fp_Verify_true)
  from acc have "att_Verify vf (fp_Att fp) = Inr True"
    by (auto simp: fp_accused_Some ProveFalseNegative_Inr ProveEquivocation_Inr split: if_splits)
  moreover from acc have "fraud_evidence vf fp"
    using contradicts_binds unfolding fraud_evidence_def Let_def contradicts_iff [symmetric]
    by (auto simp: fp_accused_Some ProveFalseNegative_Inr ProveEquivocation_Inr contradicts_iff split: if_splits)
  moreover have "case miner of None \<Rightarrow> True | Some m \<Rightarrow> miner_bound vf fp p m" if "operator = Some p" for p
    using fp_miner_Some [of vf fp operator] min that by (auto simp: miner_bound_def split: option.split)
  moreover from acc have "operator = at_Operator (fp_Att fp)" by (simp add: fp_accused_Some)
  ultimately show ?thesis by (fastforce simp: att_Verify_true)
qed

text \<open>A concrete key, statement and pair of contradictory attestations.\<close>

definition ex_key :: PublicKey where
  "ex_key = \<lparr>pk_X = Some 1, pk_Y = Some 2\<rparr>"

definition ex_stmt :: "bool \<Rightarrow> Statement" where
  "ex_stmt f = \<lparr>st_Kind = StmtMined, st_TxID = copy_from [7], st_Vout = 0, st_Flag = f, st_Height = 0,
     st_BlockHash = copy_from [], st_Tip = 9\<rparr>"

definition ex_att :: "bool \<Rightarrow> Attestation" where
  "ex_att f = \<lparr>at_Statement = ex_stmt f, at_Operator = Some ex_key, at_Sig = Some \<lparr>sig_R = 1, sig_S = 1\<rparr>\<rparr>"

abbreviation accept_sig :: sig_verify where
  "accept_sig \<equiv> \<lambda>_ _ _. Inr True"

definition ex_equivocation :: FraudProof where
  "ex_equivocation = \<lparr>fp_Kind = FraudEquivocation, fp_Att = ex_att True, fp_Att2 = Some (ex_att False),
     fp_Inclusion = None,
     fp_Endorsement = Some \<lparr>en_Operator = Some ex_key, en_Miner = Some ex_key, en_Sig = Some \<lparr>sig_R = 1, sig_S = 1\<rparr>\<rparr>\<rparr>"

lemma ex_att_ok: "att_Verify accept_sig (ex_att f) = Inr True"
proof -
  have "IsLowS (Some \<lparr>sig_R = 1, sig_S = 1\<rparr>)" by code_simp
  then show ?thesis by (simp add: att_Verify_def ex_att_def)
qed

lemma ex_key_ok: "pub_Equal (Some ex_key) (Some ex_key) = Inr True" "\<exists>k. SerializeCompressed ex_key = Inr k"
proof -
  show "pub_Equal (Some ex_key) (Some ex_key) = Inr True" by code_simp
  then show "\<exists>k. SerializeCompressed ex_key = Inr k" by (auto simp: pub_Equal_true)
qed

lemma ex_equivocation_accepted: "fp_Verify accept_sig ex_equivocation = Inr (Some ex_key, Some ex_key, True)"
proof -
  have l: "IsLowS (Some \<lparr>sig_R = 1, sig_S = 1\<rparr>)" by code_simp
  obtain k where k: "SerializeCompressed ex_key = Inr k" using ex_key_ok(2) by blast
  have "at_Operator (ex_att f) = Some ex_key" "at_Statement (ex_att f) = ex_stmt f" for f by (simp_all add: ex_att_def)
  moreover have "contradicts (ex_stmt True) (ex_stmt False)" by (simp add: contradicts_def queryKey_eq) (simp add: ex_stmt_def)
  ultimately show ?thesis
    using ex_att_ok ex_key_ok(1) k l
    by (simp add: fp_Verify_true fp_accused_Some ProveEquivocation_Inr ex_equivocation_def fp_miner_def en_Verify_def
        endorseHash_def)
qed

theorem fraud_proof_sound_witness:
  "fraud_evidence accept_sig ex_equivocation \<and> miner_bound accept_sig ex_equivocation ex_key ex_key"
  using fraud_proof_sound [OF ex_equivocation_accepted] by auto

text \<open>
  Contradictory answers are always caught: when one key has signed two different answers to the
  same question at the same tip, \<open>ProveEquivocation\<close> builds a fraud proof from them and its
  verification names the operator; it refuses exactly the pairs that answer different questions,
  are bound to different tips, or are the same statement.
\<close>

theorem equivocation_exact:
  assumes "att_Verify vf a = Inr True" and "att_Verify vf b = Inr True"
    and "pub_Equal (at_Operator a) (at_Operator b) = Inr True"
  shows "(case ProveEquivocation vf a b of Inl e \<Rightarrow> e = ErrNoContradiction | Inr fp \<Rightarrow> fp_Verify vf fp = Inr (at_Operator a, None, True)) \<and>
    (isl (ProveEquivocation vf a b) \<longleftrightarrow>
      (st_Kind (at_Statement a), st_TxID (at_Statement a), st_Vout (at_Statement a), st_Tip (at_Statement a)) \<noteq>
      (st_Kind (at_Statement b), st_TxID (at_Statement b), st_Vout (at_Statement b), st_Tip (at_Statement b)) \<or>
      at_Statement a = at_Statement b)"
proof (cases "contradicts (at_Statement a) (at_Statement b)")
  case True
  then show ?thesis
    using assms by (auto simp: ProveEquivocation_def fp_Verify_true fp_accused_Some fp_miner_def contradicts_def queryKey_eq)
next
  case False
  then show ?thesis
    using assms by (auto simp: ProveEquivocation_def contradicts_def queryKey_eq)
qed

theorem equivocation_exact_witness:
  "(case ProveEquivocation accept_sig (ex_att True) (ex_att False) of Inl e \<Rightarrow> False
    | Inr fp \<Rightarrow> fp_Verify accept_sig fp = Inr (Some ex_key, None, True))"
  using equivocation_exact [OF ex_att_ok ex_att_ok, of True False] ex_key_ok(1)
  by (auto simp: ex_att_def ex_stmt_def split: sum.splits)

definition forged_proof :: "hash \<Rightarrow> hash \<Rightarrow> hash \<Rightarrow> uint32 \<Rightarrow> header \<Rightarrow> Proof" where
  "forged_proof txid sr bh h hdr = \<lparr>pf_Leaf = txid, pf_L1 = [], pf_SubtreeRoot = sr, pf_L2 = [], pf_BlockRoot = txid,
     pf_BlockHash = bh, pf_Height = h, pf_Header = hdr\<rparr>"

text \<open>
  A false-negative fraud proof can be fabricated against an honest operator: every validly signed
  "not seen" or "not mined" answer, true or not, together with an inclusion proof that anyone can
  write down (empty paths, the transaction as its own block root, any header), is accepted and names
  the operator, although the package comment calls this evidence airtight.
\<close>

lemma false_negative_forgeable:
  assumes "att_Verify vf att = Inr True" and "st_Kind (at_Statement att) = StmtSeen \<or> st_Kind (at_Statement att) = StmtMined"
    and "\<not> st_Flag (at_Statement att)"
  shows "\<exists>fp. ProveFalseNegative vf att (forged_proof (st_TxID (at_Statement att)) sr bh h hdr) = Inr fp \<and>
      fp_Verify vf fp = Inr (at_Operator att, None, True)"
proof -
  have "Verify (forged_proof (st_TxID (at_Statement att)) sr bh h hdr)"
    by (simp add: Verify_def VerifyToBlockRoot_def MaxDepth_def forged_proof_def)
  with assms show ?thesis
    by (simp add: forged_proof_def ProveFalseNegative_Inr fp_Verify_true fp_accused_Some fp_miner_def)
qed

end
