(* ===== verification/Shard.thy ===== *)
theory Shard
  imports Prelude
begin

text \<open>
  \<^verbatim>\<open>shard/shard.go\<close>: hash-prefix sharding. The top \<open>k\<close> bits of a hash name the shard
  that owns it; a router is the width and the list of servers. Go's \<^verbatim>\<open>uint\<close> width \<open>k\<close> is a
  natural number here, and a shift by at least 32 gives 0, as in Go.
\<close>

definition MaxK :: nat where
  "MaxK = 32"

definition Count :: "nat \<Rightarrow> uint32" where
  "Count k = (if k = 0 then 1 else push_bit k 1)"

definition Of :: "hash \<Rightarrow> nat \<Rightarrow> uint32" where
  "Of h k =
     (if k = 0 then 0
      else let k = (if MaxK < k then MaxK else k);
               v = of_be_bytes (take 4 (slice h))
           in drop_bit (32 - k) v)"

definition Owns :: "hash \<Rightarrow> nat \<Rightarrow> uint32 \<Rightarrow> bool" where
  "Owns h k ident \<longleftrightarrow> Of h k = ident"

definition PrefixBits :: "nat \<Rightarrow> uint32 \<Rightarrow> string" where
  "PrefixBits k ident =
     (if k = 0 then []
      else map (\<lambda>i. if (drop_bit (k - 1 - i) ident) AND 1 = 0 then CHR ''0'' else CHR ''1'') [0..<k])"

definition Split :: "nat \<Rightarrow> uint32 \<Rightarrow> uint32 \<times> uint32" where
  "Split k ident = (push_bit 1 ident, push_bit 1 ident OR 1)"

record Router =
  rt_K :: nat
  rt_Servers :: "string list"

definition NewRouter :: "nat \<Rightarrow> string list \<Rightarrow> go_error + Router" where
  "NewRouter k servers =
     (if MaxK < k then Inl ErrShardK
      else if (of_nat (length servers) :: uint32) \<noteq> Count k then Inl ErrShardServers
      else Inr \<lparr>rt_K = k, rt_Servers = servers\<rparr>)"

definition ShardFor :: "Router \<Rightarrow> hash \<Rightarrow> uint32" where
  "ShardFor r h = Of h (rt_K r)"

definition ServerFor :: "Router \<Rightarrow> hash \<Rightarrow> go_error + string" where
  "ServerFor r h =
     (if unat (Of h (rt_K r)) < length (rt_Servers r) then Inr (rt_Servers r ! unat (Of h (rt_K r)))
      else Inl PanicIndex)"

section \<open>Lemmas\<close>

lemma unat_drop_bit_div: "unat (drop_bit n (v :: ('a::len) word)) = unat v div 2 ^ n"
  by (simp only: unat_drop_bit_eq) (simp add: drop_bit_eq_div)

lemma Of_prefix:
  "0 < k \<Longrightarrow> k \<le> 32 \<Longrightarrow> unat (Of h k) = unat (of_be_bytes (take 4 (slice h)) :: uint32) div 2 ^ (32 - k)"
  by (simp add: Of_def MaxK_def unat_drop_bit_div)

lemma Of_less: "k \<le> 32 \<Longrightarrow> unat (Of h k) < 2 ^ k"
proof (cases "k = 0")
  case True
  then show ?thesis by (simp add: Of_def)
next
  case False
  assume k: "k \<le> 32"
  have "unat (of_be_bytes (take 4 (slice h)) :: uint32) < 2 ^ 32"
    using unsigned_less [of "of_be_bytes (take 4 (slice h)) :: uint32", where 'a = nat] by simp
  also have "(2 :: nat) ^ 32 = 2 ^ k * 2 ^ (32 - k)"
    using k by (simp flip: power_add)
  finally have "unat (of_be_bytes (take 4 (slice h)) :: uint32) div 2 ^ (32 - k) < 2 ^ k"
    by (simp add: less_mult_imp_div_less)
  with False k show ?thesis by (simp add: Of_prefix)
qed

lemma unat_Count: "k < 32 \<Longrightarrow> unat (Count k) = 2 ^ k"
  by (simp add: Count_def push_bit_eq_mult unat_2p)

lemma Of_half: "k < 32 \<Longrightarrow> unat (Of h k) = unat (Of h (Suc k)) div 2"
proof (cases "k = 0")
  case True
  have "unat (Of h 1) < 2 ^ 1" by (rule Of_less) simp
  with True show ?thesis by (simp add: Of_def [of h 0])
next
  case False
  assume k: "k < 32"
  then have "(2 :: nat) ^ (32 - k) = 2 ^ (32 - Suc k) * 2"
    by (metis Suc_diff_Suc power_Suc2)
  with False k show ?thesis by (simp add: Of_prefix div_mult2_eq)
qed

lemma Split_unat:
  assumes "unat ident < 2 ^ k" and "k < 32" and "Split k ident = (lo, hi)"
  shows "unat lo = 2 * unat ident" and "unat hi = 2 * unat ident + 1"
proof -
  from assms(1,2) have b: "2 * unat ident + 1 < 2 ^ 32"
  proof -
    have "2 * unat ident + 1 < 2 * 2 ^ k" using assms(1) by linarith
    also have "\<dots> \<le> 2 ^ 32" using assms(2) power_increasing [of "Suc k" 32 "2 :: nat"] by simp
    finally show ?thesis .
  qed
  from assms(3) have lo: "lo = 2 * ident" by (simp add: Split_def push_bit_eq_mult mult.commute)
  from b show u: "unat lo = 2 * unat ident"
    by (simp add: lo unat_word_ariths)
  from assms(3) have "hi = lo OR 1" by (auto simp: Split_def)
  moreover have "even lo" by (simp add: lo)
  ultimately have "hi = lo + 1"
    by (simp add: or_one_eq)
  with b u show "unat hi = 2 * unat ident + 1"
    by (simp add: unat_word_ariths)
qed

lemma bit_of_be_bytes4:
  assumes "i < 32" and "length bs = 4"
  shows "bit (of_be_bytes bs :: uint32) (31 - i) = bit (bs ! (i div 8)) (7 - i mod 8)"
proof -
  have "i div 8 < 4" using assms(1) by (simp add: less_mult_imp_div_less)
  moreover have "31 - i = 8 * (3 - i div 8) + (7 - i mod 8)"
  proof -
    have "i = 8 * (i div 8) + i mod 8" and "i mod 8 < 8" by simp_all
    with \<open>i div 8 < 4\<close> show ?thesis by linarith
  qed
  then have "(31 - i) div 8 = 3 - i div 8" and "(31 - i) mod 8 = 7 - i mod 8"
    by (simp_all only: div_mult_self4 mod_mult_self4) simp_all
  moreover from \<open>i div 8 < 4\<close> have "rev bs ! (3 - i div 8) = bs ! (i div 8)"
    using assms(2) by (simp add: rev_nth)
  moreover have "31 - i < 32" and "3 - i div 8 < 4" by linarith+
  ultimately show ?thesis
    using assms by (simp add: of_be_bytes_def bit_of_le_bytes)
qed

lemma Of_bits:
  assumes "i < k" and "k \<le> 32"
  shows "bit (Of h k) (k - 1 - i) = bit (slice h ! (i div 8)) (7 - i mod 8)"
proof -
  have "i div 8 < 4" using assms by (simp add: less_mult_imp_div_less)
  then have "take 4 (slice h) ! (i div 8) = slice h ! (i div 8)" by simp
  moreover have "bit (Of h k) (k - 1 - i) = bit (of_be_bytes (take 4 (slice h)) :: uint32) (31 - i)"
    using assms by (simp add: Of_def MaxK_def bit_simps)
  ultimately show ?thesis using assms bit_of_be_bytes4 [of i "take 4 (slice h)"] by simp
qed

section \<open>Properties\<close>

text \<open>
  A router built for a width below 32 routes every hash: the shard id is below \<open>2 ^ k\<close> and
  \<open>ServerFor\<close> returns the server listed at that id, never an index panic.
\<close>

theorem router_total:
  assumes "NewRouter k servers = Inr r" and "k < 32"
  shows "unat (ShardFor r h) < 2 ^ k \<and> ServerFor r h = Inr (servers ! unat (ShardFor r h))"
proof -
  from assms have r: "rt_K r = k" "rt_Servers r = servers" and c: "(of_nat (length servers) :: uint32) = Count k"
    by (auto simp: NewRouter_def split: if_splits)
  from c assms(2) have "unat (of_nat (length servers) :: uint32) = 2 ^ k"
    by (simp add: unat_Count)
  then have "length servers mod 2 ^ 32 = 2 ^ k"
    by (simp add: unat_of_nat)
  then have "2 ^ k \<le> length servers"
    by (metis mod_less_eq_dividend)
  moreover have "unat (Of h k) < 2 ^ k" using assms(2) by (simp add: Of_less)
  ultimately show ?thesis by (simp add: ShardFor_def ServerFor_def r)
qed

theorem router_total_witness:
  "unat (ShardFor \<lparr>rt_K = 1, rt_Servers = [''a'', ''b'']\<rparr> (copy_from [200])) < 2 ^ 1 \<and>
   ServerFor \<lparr>rt_K = 1, rt_Servers = [''a'', ''b'']\<rparr> (copy_from [200])
     = Inr ([''a'', ''b''] ! unat (ShardFor \<lparr>rt_K = 1, rt_Servers = [''a'', ''b'']\<rparr> (copy_from [200])))"
  by (rule router_total) (simp_all add: NewRouter_def MaxK_def Count_def)

text \<open>
  The documented maximum width does not work: \<open>Count 32\<close> wraps to 0, so \<open>NewRouter\<close> at width 32
  refuses every server list of the documented length class and accepts the empty list, and the
  router it returns panics on every hash.
\<close>

theorem router_width_32_panics:
  "Count 32 = 0 \<and> NewRouter 32 [] = Inr \<lparr>rt_K = 32, rt_Servers = []\<rparr> \<and>
   ServerFor \<lparr>rt_K = 32, rt_Servers = []\<rparr> h = Inl PanicIndex"
  by (simp add: Count_def NewRouter_def MaxK_def ServerFor_def)

text \<open>
  Elastic split: raising the width by one divides a shard cleanly. The two children that
  \<open>Split\<close> names are distinct, and the hashes owned by either child at width \<open>k + 1\<close> are exactly
  the hashes owned by the parent at width \<open>k\<close>.
\<close>

theorem split_partitions:
  assumes "k < 32" and "unat ident < 2 ^ k" and "Split k ident = (lo, hi)"
  shows "lo \<noteq> hi \<and> (Owns h k ident \<longleftrightarrow> Owns h (Suc k) lo \<or> Owns h (Suc k) hi)"
proof -
  note u = Split_unat [OF assms(2,1,3)]
  have half: "unat (Of h k) = unat (Of h (Suc k)) div 2" using assms(1) by (rule Of_half)
  have "lo \<noteq> hi" using u by auto
  moreover have "Of h k = ident \<longleftrightarrow> Of h (Suc k) = lo \<or> Of h (Suc k) = hi"
    unfolding word_unat_eq_iff half u by presburger
  ultimately show ?thesis by (simp add: Owns_def)
qed

theorem split_partitions_witness:
  "(2 :: uint32) \<noteq> 3 \<and>
   (Owns (copy_from [200]) 1 1 \<longleftrightarrow> Owns (copy_from [200]) (Suc 1) 2 \<or> Owns (copy_from [200]) (Suc 1) 3)"
  by (rule split_partitions) (simp_all add: Split_def)

text \<open>
  \<open>PrefixBits\<close> names a shard by the leading bits of the hashes it owns: the \<open>i\<close>-th character of
  the name of the shard of \<open>h\<close> is the \<open>i\<close>-th most significant bit of \<open>h\<close>.
\<close>

theorem prefix_bits_of_hash:
  assumes "k \<le> 32"
  shows "PrefixBits k (Of h k) =
    map (\<lambda>i. if bit (slice h ! (i div 8)) (7 - i mod 8) then CHR ''1'' else CHR ''0'') [0..<k]"
proof (cases "k = 0")
  case False
  have "(drop_bit (k - 1 - i) (Of h k)) AND 1 = 0 \<longleftrightarrow> \<not> bit (slice h ! (i div 8)) (7 - i mod 8)"
    if "i < k" for i
    using Of_bits [OF that assms, of h] 
    by (simp add: and_one_eq bit_iff_odd_drop_bit flip: even_iff_mod_2_eq_zero)
  with False show ?thesis by (simp add: PrefixBits_def)
qed (simp add: PrefixBits_def)

theorem prefix_bits_of_hash_witness:
  "PrefixBits 3 (Of (copy_from [160]) 3) =
    map (\<lambda>i. if bit (slice (copy_from [160] :: hash) ! (i div 8)) (7 - i mod 8) then CHR ''1'' else CHR ''0'') [0..<3]"
  by (rule prefix_bits_of_hash) simp

end
