(* ===== verification/Teranode.thy ===== *)
theory Teranode
  imports Commitment Store
begin

text \<open>
  \<^verbatim>\<open>teranode/teranode.go\<close>: the records pulled from Teranode, the \<open>Source\<close> interface that
  streams sealed blocks, and the deterministic mock source. A source is its state together with
  its \<open>Next\<close> method, a function from the state to the new state and the result.
\<close>

record TxOut =
  to_Value :: uint64
  to_ScriptHash :: hash

record Tx =
  tx_TxID :: hash
  tx_Inputs :: "Outpoint list"
  tx_Outputs :: "TxOut list"

record Subtree =
  su_Root :: hash
  su_TxIDs :: "hash list"
  su_Txs :: "Tx list"

record Block =
  bl_Hash :: hash
  bl_Height :: uint32
  bl_Time :: uint32
  bl_MerkleRoot :: hash
  bl_SubtreeRoots :: "hash list"
  bl_Header :: header
  bl_Subtrees :: "Subtree list"

record 'm Source =
  so_Next :: "('m, Block option) gom"
  so_TipHeight :: "'m \<Rightarrow> uint32"

section \<open>The mock source\<close>

record MockConfig =
  mc_Blocks :: int
  mc_SubtreesPer :: int
  mc_TxsPerSubtree :: int
  mc_SpendFraction :: int
  mc_StartHeight :: uint32
  mc_Seed :: uint64

record MockSource =
  mk_cfg :: MockConfig
  mk_height :: uint32
  mk_made :: int
  mk_rng :: uint64
  mk_live :: "Outpoint list"

definition NewMock :: "MockConfig \<Rightarrow> MockSource" where
  "NewMock cfg =
     (let cfg = (if mc_Blocks cfg \<le> 0 then cfg\<lparr>mc_Blocks := 1\<rparr> else cfg);
          cfg = (if mc_SubtreesPer cfg \<le> 0 then cfg\<lparr>mc_SubtreesPer := 1\<rparr> else cfg);
          cfg = (if mc_TxsPerSubtree cfg \<le> 0 then cfg\<lparr>mc_TxsPerSubtree := 1\<rparr> else cfg);
          seed = (if mc_Seed cfg = 0 then 0x9e3779b97f4a7c15 else mc_Seed cfg)
      in \<lparr>mk_cfg = cfg, mk_height = mc_StartHeight cfg, mk_made = 0, mk_rng = seed, mk_live = []\<rparr>)"

definition next64 :: "MockSource \<Rightarrow> MockSource \<times> uint64" where
  "next64 m =
     (let rng = mk_rng m + 0x9e3779b97f4a7c15;
          z = (rng XOR drop_bit 30 rng) * 0xbf58476d1ce4e5b9;
          z = (z XOR drop_bit 27 z) * 0x94d049bb133111eb
      in (m\<lparr>mk_rng := rng\<rparr>, z XOR drop_bit 31 z))"

definition mock_txid :: "MockSource \<Rightarrow> uint32 \<Rightarrow> nat \<Rightarrow> nat \<Rightarrow> MockSource \<times> hash" where
  "mock_txid m blk sub idx =
     (let (m', r) = next64 m
      in (m', DoubleSHA256 (be32 blk @ be32 (of_nat sub) @ be32 (of_nat idx) @ be64 r)))"

definition mock_TipHeight :: "MockSource \<Rightarrow> uint32" where
  "mock_TipHeight m = (if mk_made m = 0 then mc_StartHeight (mk_cfg m) else mk_height m - 1)"

definition buildHeader :: "uint32 \<Rightarrow> uint32 \<Rightarrow> hash \<Rightarrow> header" where
  "buildHeader height t root =
     copy_from (le32 0x20000000 @ replicate 28 0 @ be32 height @ slice root @ le32 t @ le32 0x1d00ffff)"

text \<open>The inner loop over the transactions of a subtree, from index \<open>i\<close> on with \<open>n\<close> to go.\<close>

fun mock_txs ::
  "MockSource \<Rightarrow> uint32 \<Rightarrow> nat \<Rightarrow> Outpoint list \<Rightarrow> nat \<Rightarrow> nat \<Rightarrow> nat \<Rightarrow> MockSource \<times> nat \<times> Tx list" where
  "mock_txs m h s toSpend spendIdx i 0 = (m, spendIdx, [])"
| "mock_txs m h s toSpend spendIdx i (Suc n) =
     (let (m1, ident) = mock_txid m h s i;
          (ins, spendIdx1) = (if spendIdx < length toSpend then ([toSpend ! spendIdx], spendIdx + 1) else ([], spendIdx));
          (m2, r) = next64 m1;
          tx = \<lparr>tx_TxID = ident, tx_Inputs = ins,
                tx_Outputs = [\<lparr>to_Value = 1000 + r mod 9000, to_ScriptHash = DoubleSHA256 (slice ident)\<rparr>]\<rparr>;
          m3 = m2\<lparr>mk_live := mk_live m2 @ [\<lparr>op_TxID = ident, op_Vout = 0\<rparr>]\<rparr>;
          (m4, spendIdx2, txs) = mock_txs m3 h s toSpend spendIdx1 (Suc i) n
      in (m4, spendIdx2, tx # txs))"

definition root_or_zero :: "hash list \<Rightarrow> hash" where
  "root_or_zero leaves = (case MerkleRoot leaves of Inl _ \<Rightarrow> copy_from [] | Inr root \<Rightarrow> root)"

text \<open>The outer loop over the subtrees, from index \<open>s\<close> on with \<open>n\<close> to go.\<close>

fun mock_subtrees ::
  "MockSource \<Rightarrow> uint32 \<Rightarrow> Outpoint list \<Rightarrow> nat \<Rightarrow> nat \<Rightarrow> nat \<Rightarrow> MockSource \<times> Subtree list" where
  "mock_subtrees m h toSpend spendIdx s 0 = (m, [])"
| "mock_subtrees m h toSpend spendIdx s (Suc n) =
     (let (m1, spendIdx1, txs) = mock_txs m h s toSpend spendIdx 0 (nat (mc_TxsPerSubtree (mk_cfg m)));
          txids = map tx_TxID txs;
          sub = \<lparr>su_Root = root_or_zero txids, su_TxIDs = txids, su_Txs = txs\<rparr>;
          (m2, subs) = mock_subtrees m1 h toSpend spendIdx1 (Suc s) n
      in (m2, sub # subs))"

definition mock_Next :: "(MockSource, Block option) gom" where
  "mock_Next m =
     (if mc_Blocks (mk_cfg m) \<le> mk_made m then (m, Inr None)
      else
        (let h = mk_height m;
             t = 1700000000 + h * 600;
             live = mk_live m;
             n = (if 0 < mc_SpendFraction (mk_cfg m) \<and> live \<noteq> []
                  then nat (int (length live) div mc_SpendFraction (mk_cfg m)) else 0);
             (m1, subtrees) = mock_subtrees (m\<lparr>mk_live := drop n live\<rparr>) h (take n live) 0 0
                                (nat (mc_SubtreesPer (mk_cfg m)));
             subRoots = map su_Root subtrees;
             blockRoot = root_or_zero subRoots;
             hdr = buildHeader h t blockRoot
         in (m1\<lparr>mk_height := mk_height m1 + 1, mk_made := mk_made m1 + 1\<rparr>,
             Inr (Some \<lparr>bl_Hash = DoubleSHA256 (slice hdr), bl_Height = h, bl_Time = t,
               bl_MerkleRoot = blockRoot, bl_SubtreeRoots = subRoots, bl_Header = hdr,
               bl_Subtrees = subtrees\<rparr>))))"

definition MockSrc :: "MockSource Source" where
  "MockSrc = \<lparr>so_Next = mock_Next, so_TipHeight = mock_TipHeight\<rparr>"

section \<open>What the mock source keeps\<close>

lemma next64_frame: "next64 m = (m', r) \<Longrightarrow> mk_cfg m' = mk_cfg m \<and> mk_height m' = mk_height m \<and> mk_made m' = mk_made m"
  by (auto simp: next64_def Let_def)

lemma mock_txid_frame:
  "mock_txid m h s i = (m', x) \<Longrightarrow> mk_cfg m' = mk_cfg m \<and> mk_height m' = mk_height m \<and> mk_made m' = mk_made m"
  by (auto simp: mock_txid_def dest: next64_frame split: prod.splits)

lemma mock_txs_frame:
  "mock_txs m h s toSpend k i n = (m', k', txs) \<Longrightarrow>
   mk_cfg m' = mk_cfg m \<and> mk_height m' = mk_height m \<and> mk_made m' = mk_made m \<and> length txs = n"
proof (induction n arbitrary: m k i m' k' txs)
  case (Suc n)
  obtain m1 x where 1: "mock_txid m h s i = (m1, x)" by (cases "mock_txid m h s i")
  obtain m2 r where 2: "next64 m1 = (m2, r)" by (cases "next64 m1")
  show ?case
    using Suc.prems 1 2 mock_txid_frame [OF 1] next64_frame [OF 2]
    by (auto simp: Let_def split: prod.splits if_splits dest!: Suc.IH)
qed simp

lemma mock_subtrees_frame:
  "mock_subtrees m h toSpend k s n = (m', subs) \<Longrightarrow>
   mk_cfg m' = mk_cfg m \<and> mk_height m' = mk_height m \<and> mk_made m' = mk_made m \<and> length subs = n \<and>
   (\<forall>sub\<in>set subs. su_TxIDs sub = map tx_TxID (su_Txs sub) \<and> su_Root sub = root_or_zero (su_TxIDs sub) \<and>
      length (su_TxIDs sub) = nat (mc_TxsPerSubtree (mk_cfg m)))"
proof (induction n arbitrary: m k s m' subs)
  case (Suc n)
  obtain m1 k1 txs where 1: "mock_txs m h s toSpend k 0 (nat (mc_TxsPerSubtree (mk_cfg m))) = (m1, k1, txs)"
    by (metis prod.exhaust)
  show ?case
    using Suc.prems 1 mock_txs_frame [OF 1]
    by (auto simp: Let_def split: prod.splits dest!: Suc.IH)
qed simp

lemma NewMock_positive:
  "0 < mc_Blocks (mk_cfg (NewMock cfg))" "0 < mc_SubtreesPer (mk_cfg (NewMock cfg))"
  "0 < mc_TxsPerSubtree (mk_cfg (NewMock cfg))"
  by (auto simp: NewMock_def Let_def)

lemma mock_Next_frame:
  assumes "mock_Next m = (m', Inr (Some b))"
  shows "mk_cfg m' = mk_cfg m" and "mk_made m' = mk_made m + 1" and "mk_height m' = mk_height m + 1"
    and "bl_Height b = mk_height m" and "mk_made m < mc_Blocks (mk_cfg m)"
  using assms by (auto simp: mock_Next_def Let_def split: if_splits prod.splits dest!: mock_subtrees_frame)

lemma root_or_zero: "leaves \<noteq> [] \<Longrightarrow> MerkleRoot leaves = Inr (root_or_zero leaves)"
  by (simp add: root_or_zero_def MerkleRoot_def BuildMerkleTree_def Let_def)

lemma slice_buildHeader: "take 32 (drop 36 (slice (buildHeader h t root))) = slice root"
  by (simp add: buildHeader_def slice_copy_from len_simps)

end
