(* ===== verification/Prune.thy ===== *)
theory Prune
  imports Mem_Store
begin

text \<open>
  \<^verbatim>\<open>prune/prune.go\<close>: retention by block depth. The pruner frees the spent records of every
  height that has become deeper than \<open>D\<close> since its last call, and likewise the index data of every
  height deeper than \<open>IndexRetention\<close>. Heights are 32-bit words, so the subtractions and
  increments of the sweep wrap where Go's do. The pruner runs on any backend; the simulation
  lemma of the locale carries the facts about the reference store to the memory store.
\<close>

record Policy =
  po_ReorgHorizon :: uint32
  po_RecencyWindow :: uint32
  po_IndexRetention :: uint32

definition policy_D :: "Policy \<Rightarrow> uint32" where
  "policy_D p = po_ReorgHorizon p + po_RecencyWindow p"

definition PolicyWithD :: "uint32 \<Rightarrow> uint32 \<Rightarrow> go_error + Policy" where
  "PolicyWithD d reorgHorizon =
     (if d < reorgHorizon then Inl ErrBelowFloor
      else Inr \<lparr>po_ReorgHorizon = reorgHorizon, po_RecencyWindow = d - reorgHorizon, po_IndexRetention = 0\<rparr>)"

record Pruner =
  pr_policy :: Policy
  pr_lastTip :: uint32
  pr_hasTip :: bool
  pr_total :: uint64

definition NewPruner :: "Policy \<Rightarrow> Pruner" where
  "NewPruner p = \<lparr>pr_policy = p, pr_lastTip = 0, pr_hasTip = False, pr_total = 0\<rparr>"

lemma step_to_target: "h \<noteq> target \<Longrightarrow> unat (target - (h + 1)) < unat (target - h)" for h target :: uint32
proof -
  assume "h \<noteq> target"
  then have "target - h \<noteq> 0" by simp
  then have "unat (target - h - 1) < unat (target - h)"
    by (metis unat_1 unat_minus_one diff_less unat_gt_0 zero_less_one)
  then show ?thesis by (simp add: algebra_simps)
qed

text \<open>
  The loop \<^verbatim>\<open>for h := start; ; h++\<close>. It returns the count so far together with the error of
  the call that failed, if one did.
\<close>

function sweep_loop ::
  "(uint32 \<Rightarrow> ('s, nat) gom) \<Rightarrow> uint32 \<Rightarrow> uint32 \<Rightarrow> nat \<Rightarrow> ('s, nat \<times> go_error option) gom" where
  "sweep_loop fn target h tot =
     bindM (tryM (fn h)) (\<lambda>r. case r of
       Inl err \<Rightarrow> ret (tot, Some err)
     | Inr n \<Rightarrow> (if h = target then ret (tot + n, None)
                else sweep_loop fn target (h + 1) (tot + n)))"
  by pat_completeness auto
termination
  by (relation "measure (\<lambda>(fn, target, h, tot). unat (target - h))") (simp_all add: step_to_target)

definition sweep ::
  "uint32 \<Rightarrow> bool \<Rightarrow> uint32 \<Rightarrow> uint32 \<Rightarrow> (uint32 \<Rightarrow> ('s, nat) gom) \<Rightarrow> ('s, nat \<times> go_error option) gom" where
  "sweep prevTip hadTip tip d fn =
     (if tip < d then ret (0, None)
      else let target = tip - d;
               start = (if \<not> hadTip then target else if d \<le> prevTip then (prevTip - d) + 1 else 0)
           in if target < start then ret (0, None) else sweep_loop fn target start 0)"

definition addTotal :: "nat \<Rightarrow> ('s \<times> Pruner, unit) gom" where
  "addTotal n = on_snd (modifyM (\<lambda>pr. pr\<lparr>pr_total := pr_total pr + of_nat n\<rparr>))"

definition OnNewBlock :: "'s store_ops \<Rightarrow> uint32 \<Rightarrow> ('s \<times> Pruner, nat \<times> go_error option) gom" where
  "OnNewBlock ops tip =
     bindM (on_snd (getM id)) (\<lambda>pr.
     bindM (on_snd (modifyM (\<lambda>pr. pr\<lparr>pr_lastTip := tip, pr_hasTip := True\<rparr>))) (\<lambda>_.
     bindM (on_fst (sweep (pr_lastTip pr) (pr_hasTip pr) tip (policy_D (pr_policy pr)) (so_PruneSpentAtHeight ops)))
       (\<lambda>(n, err).
     if err \<noteq> None then bindM (addTotal n) (\<lambda>_. ret (n, err))
     else if 0 < po_IndexRetention (pr_policy pr) then
       bindM (on_fst (sweep (pr_lastTip pr) (pr_hasTip pr) tip (po_IndexRetention (pr_policy pr))
         (so_PruneIndexAtHeight ops))) (\<lambda>(ni, err).
       bindM (addTotal (n + ni)) (\<lambda>_. ret (n + ni, err)))
     else bindM (addTotal n) (\<lambda>_. ret (n, None)))))"

definition Depth :: "uint32 \<Rightarrow> uint32 \<Rightarrow> uint32" where
  "Depth tip spentHeight = (if tip < spentHeight then 0 else tip - spentHeight + 1)"

definition RecommendedPolicy :: Policy where
  "RecommendedPolicy = \<lparr>po_ReorgHorizon = 18, po_RecencyWindow = 12, po_IndexRetention = 0\<rparr>"

definition EstimateRetainedSpends :: "uint64 \<Rightarrow> Policy \<Rightarrow> uint64" where
  "EstimateRetainedSpends spendsPerBlock p = spendsPerBlock * ucast (policy_D p)"

text \<open>A sequence of tip advances, as the ingest loop drives the pruner.\<close>

fun run_tips :: "'s store_ops \<Rightarrow> uint32 list \<Rightarrow> 's \<times> Pruner \<Rightarrow> 's \<times> Pruner" where
  "run_tips ops [] sp = sp"
| "run_tips ops (tip # tips) sp = run_tips ops tips (fst (OnNewBlock ops tip sp))"

section \<open>The pruner on any backend\<close>

declare sweep_loop.simps [simp del]

lemma sweep_loop_sim:
  assumes "\<And>h. implements iv af (fn h) (fn' h)"
  shows "implements iv af (sweep_loop fn target h n) (sweep_loop fn' target h n)"
proof (induction "unat (target - h)" arbitrary: h n rule: less_induct)
  case less
  show ?case
    by (subst (1 2) sweep_loop.simps) (auto intro!: sim_intros assms less step_to_target)
qed

context store_backend
begin

lemma on_new_block_sim:
  "implements (inv_fst iv) (abs_fst af) (OnNewBlock ops tip) (OnNewBlock flat_ops tip)"
  unfolding OnNewBlock_def addTotal_def sweep_def
  by (intro sim_intros sweep_loop_sim prune_spent prune_index)

lemma run_tips_sim:
  assumes "iv s"
  shows "iv (fst (run_tips ops tips (s, pr))) \<and>
    run_tips flat_ops tips (af s, pr) = (af (fst (run_tips ops tips (s, pr))), snd (run_tips ops tips (s, pr)))"
  using assms
proof (induction tips arbitrary: s pr)
  case (Cons tip tips)
  obtain s1 pr1 r where p: "OnNewBlock ops tip (s, pr) = ((s1, pr1), r)" by (metis prod.exhaust)
  have "inv_fst iv (s, pr)" using Cons.prems by simp
  note step = implementsD [OF on_new_block_sim this p]
  from Cons.IH [of s1 pr1] step show ?case by (simp add: p)
qed simp

end

section \<open>Eviction on the reference store\<close>

text \<open>
  The effect of a set of spent sweeps and a set of index sweeps, in one formula. Evictions
  compose by union, whatever their order.
\<close>

definition listed :: "(heightEntry \<Rightarrow> hash list) \<Rightarrow> uint32 set \<Rightarrow> FlatStore \<Rightarrow> hash set" where
  "listed f I a = (\<Union>h\<in>I. set (f (entry_of (fs_hidx a h))))"

definition block_of :: "heightEntry \<Rightarrow> hash list" where
  "block_of e = (if he_hasBlock e then [he_block e] else [])"

definition evict :: "uint32 set \<Rightarrow> uint32 set \<Rightarrow> FlatStore \<Rightarrow> FlatStore" where
  "evict S I a =
     a\<lparr>fs_utxo := (\<lambda>op. if \<exists>h\<in>S. spent_at h (fs_utxo a op) then None else fs_utxo a op),
       fs_blocks := fs_blocks a |` (- listed block_of I a),
       fs_subtree := fs_subtree a |` (- listed he_subtrees I a),
       fs_txindex := fs_txindex a |` (- listed he_txids I a),
       fs_hdr := fs_hdr a |` (- I),
       fs_hidx := fs_hidx a |` (- I)\<rparr>"

lemma evict_sel:
  "fs_utxo (evict S I a) op = (if \<exists>h\<in>S. spent_at h (fs_utxo a op) then None else fs_utxo a op)"
  "fs_blocks (evict S I a) = fs_blocks a |` (- listed block_of I a)"
  "fs_subtree (evict S I a) = fs_subtree a |` (- listed he_subtrees I a)"
  "fs_txindex (evict S I a) = fs_txindex a |` (- listed he_txids I a)"
  "fs_hdr (evict S I a) = fs_hdr a |` (- I)"
  "fs_hidx (evict S I a) = fs_hidx a |` (- I)"
  by (simp_all add: evict_def)

lemma evict_none [simp]: "evict {} {} a = a"
  by (simp add: evict_def listed_def restrict_map_def)

lemma listed_restrict:
  assumes "f emptyEntry = []" and "fs_hidx b = fs_hidx a |` (- I)"
  shows "listed f J b \<union> listed f I a = listed f (I \<union> J) a"
proof -
  have "entry_of (fs_hidx b h) = (if h \<in> I then emptyEntry else entry_of (fs_hidx a h))" for h
    by (simp add: assms(2) restrict_map_def entry_of_def)
  with assms(1) have "listed f J b = listed f (J - I) a" by (auto simp: listed_def split: if_splits)
  then show ?thesis by (auto simp: listed_def)
qed

lemma empty_lists: "he_txids emptyEntry = []" "he_subtrees emptyEntry = []" "block_of emptyEntry = []"
  by (simp_all add: emptyEntry_def block_of_def)

lemma evict_evict: "evict S' I' (evict S I a) = evict (S \<union> S') (I \<union> I') a"
proof -
  have h: "fs_hidx (evict S I a) = fs_hidx a |` (- I)" by (simp add: evict_def)
  have u: "(\<exists>h\<in>S'. spent_at h (if \<exists>h\<in>S. spent_at h r then None else r)) \<or> (\<exists>h\<in>S. spent_at h r) \<longleftrightarrow> (\<exists>h\<in>S \<union> S'. spent_at h r)" for r
    by (auto simp: spent_at_def split: option.splits)
  have r: "m |` (- A) |` (- B) = m |` (- (B \<union> A))" for m :: "'k \<rightharpoonup> 'v" and A B
    by (auto simp: restrict_map_def fun_eq_iff)
  note l = listed_restrict [of he_txids, OF empty_lists(1) h]
    listed_restrict [of he_subtrees, OF empty_lists(2) h] listed_restrict [of block_of, OF empty_lists(3) h]
  have y: "fs_utxo (evict S' I' (evict S I a)) op = fs_utxo (evict (S \<union> S') (I \<union> I') a) op" for op
    using u [of "fs_utxo a op"] by (auto simp: evict_sel spent_at_def split: option.splits if_splits)
  show ?thesis
    by (rule flat_eqI; (rule ext)?; simp only: evict_sel(2-6) r l y Un_commute [of I'])
qed

lemma flat_prune_evict:
  "so_PruneSpentAtHeight flat_ops h a = (evict {h} {} a, Inr (card {op. spent_at h (fs_utxo a op)}))"
  "\<exists>n. so_PruneIndexAtHeight flat_ops h a = (evict {} {h} a, Inr n)"
  by (simp_all add: flat_defs evict_def listed_def block_of_def Let_def restrict_map_def fun_eq_iff)

section \<open>Which heights a call sweeps\<close>

text \<open>
  The heights that have become deeper than \<open>d\<close> since the last call, over the naturals: all \<open>h\<close> with
  \<open>prev < h + d \<le> tip\<close>; on the first call only the height at depth \<open>d\<close>.
\<close>

definition due :: "uint32 \<Rightarrow> bool \<Rightarrow> uint32 \<Rightarrow> uint32 \<Rightarrow> uint32 set" where
  "due prevTip hadTip tip d =
     {h. unat h + unat d \<le> unat tip \<and>
         (if hadTip then unat prevTip < unat h + unat d else unat h + unat d = unat tip)}"

lemma Icc_step: "h \<noteq> target \<Longrightarrow> h \<le> target \<Longrightarrow> {h..target} = insert h {h + 1..target}"
  for h target :: uint32
proof -
  assume "h \<noteq> target" "h \<le> target"
  then have lt: "unat h < unat target"
    by (simp add: word_le_nat_alt order_less_le word_unat_eq_iff)
  then have "unat (h + 1) = Suc (unat h)"
    using unsigned_less [of target, where 'a = nat] by (intro unat_Suc_word) (auto simp: unat_minus_one_word)
  with lt show ?thesis by (auto simp: word_le_nat_alt word_unat_eq_iff)
qed

lemma sweep_loop_flat:
  assumes "\<And>h a. \<exists>n. fn h a = (ev {h} a, Inr n)"
    and "\<And>H K a. ev H (ev K a) = ev (K \<union> H) a"
    and "h \<le> target"
  shows "\<exists>n. sweep_loop fn target h tot a = (ev {h..target} a, Inr (n, None))"
  using assms(3)
proof (induction "unat (target - h)" arbitrary: h tot a rule: less_induct)
  case less
  obtain n where n: "fn h a = (ev {h} a, Inr n)" using assms(1) by blast
  show ?case
  proof (cases "h = target")
    case True
    with n show ?thesis by (subst sweep_loop.simps) (simp add: gom_simps)
  next
    case False
    then have "h + 1 \<le> target"
      using Icc_step [OF False less.prems] less.prems
      by (metis atLeastAtMost_iff insertE order_refl)
    from less.hyps [OF step_to_target [OF False] this] obtain k where
      "sweep_loop fn target (h + 1) (tot + n) (ev {h} a) = (ev {h + 1..target} (ev {h} a), Inr (k, None))" by blast
    then show ?thesis
      using False by (subst sweep_loop.simps) (simp add: gom_simps n assms(2) Icc_step [OF False less.prems])
  qed
qed

lemma due_Icc:
  assumes "d \<le> tip" and "hadTip \<longrightarrow> d \<noteq> 0 \<or> prevTip \<noteq> - 1"
  shows "due prevTip hadTip tip d =
    {(if \<not> hadTip then tip - d else if d \<le> prevTip then (prevTip - d) + 1 else 0)..tip - d}"
proof -
  have t: "unat (tip - d) = unat tip - unat d" "unat d \<le> unat tip"
    using assms(1) by (simp_all add: unat_sub word_le_nat_alt)
  have p: "unat ((prevTip - d) + 1) = Suc (unat prevTip - unat d)" if "hadTip" "d \<le> prevTip"
  proof -
    have "unat (prevTip - d) = unat prevTip - unat d" using that by (simp add: unat_sub word_le_nat_alt)
    moreover have "prevTip - d \<noteq> - 1"
    proof
      assume "prevTip - d = - 1"
      then have "unat prevTip - unat d = 2 ^ 32 - 1" using calculation by (simp add: unat_minus_one_word)
      then have "d = 0 \<and> prevTip = - 1"
        using unsigned_less [of prevTip, where 'a = nat] by (auto simp: word_unat_eq_iff unat_minus_one_word)
      with assms(2) that show False by simp
    qed
    ultimately show ?thesis using unat_Suc_word by metis
  qed
  show ?thesis using t p by (cases hadTip) (auto simp: due_def word_le_nat_alt word_unat_eq_iff)
qed

lemma sweep_flat:
  assumes "\<And>h a. \<exists>n. fn h a = (ev {h} a, Inr n)" and "\<And>H K a. ev H (ev K a) = ev (K \<union> H) a"
    and "\<And>a. ev {} a = a" and "hadTip \<longrightarrow> d \<noteq> 0 \<or> prevTip \<noteq> - 1"
  shows "\<exists>n. sweep prevTip hadTip tip d fn a = (ev (due prevTip hadTip tip d) a, Inr (n, None))"
proof (cases "tip < d")
  case True
  then have "due prevTip hadTip tip d = {}" by (auto simp: due_def word_less_nat_alt)
  with True show ?thesis by (simp add: sweep_def gom_simps assms(3))
next
  case False
  define start where "start = (if \<not> hadTip then tip - d else if d \<le> prevTip then (prevTip - d) + 1 else 0)"
  have due: "due prevTip hadTip tip d = {start..tip - d}"
    using False assms(4) by (simp add: due_Icc start_def)
  have s: "sweep prevTip hadTip tip d fn = (if tip - d < start then ret (0, None) else sweep_loop fn (tip - d) start 0)"
    using False by (simp add: sweep_def Let_def start_def)
  show ?thesis
  proof (cases "tip - d < start")
    case True
    then show ?thesis by (simp add: s due gom_simps assms(3))
  next
    case False
    with sweep_loop_flat [where fn = fn and ev = ev, OF assms(1,2), of start "tip - d"] show ?thesis
      by (simp add: s due)
  qed
qed

lemma sweep_spent_flat:
  "hadTip \<longrightarrow> d \<noteq> 0 \<or> prevTip \<noteq> - 1 \<Longrightarrow>
   \<exists>n. sweep prevTip hadTip tip d (so_PruneSpentAtHeight flat_ops) a =
     (evict (due prevTip hadTip tip d) {} a, Inr (n, None))"
  using sweep_flat [where ev = "\<lambda>S. evict S {}" and fn = "so_PruneSpentAtHeight flat_ops"]
  by (simp add: flat_prune_evict(1) evict_evict)

lemma sweep_index_flat:
  "hadTip \<longrightarrow> d \<noteq> 0 \<or> prevTip \<noteq> - 1 \<Longrightarrow>
   \<exists>n. sweep prevTip hadTip tip d (so_PruneIndexAtHeight flat_ops) a =
     (evict {} (due prevTip hadTip tip d) a, Inr (n, None))"
  using sweep_flat [where ev = "evict {}" and fn = "so_PruneIndexAtHeight flat_ops"]
  by (simp add: flat_prune_evict(2) evict_evict)

definition due_index :: "Pruner \<Rightarrow> uint32 \<Rightarrow> uint32 set" where
  "due_index pr tip =
     (let d = po_IndexRetention (pr_policy pr) in
      if 0 < d then due (pr_lastTip pr) (pr_hasTip pr) tip d else {})"

abbreviation due_spent :: "Pruner \<Rightarrow> uint32 \<Rightarrow> uint32 set" where
  "due_spent pr tip \<equiv> due (pr_lastTip pr) (pr_hasTip pr) tip (policy_D (pr_policy pr))"

text \<open>The corner where \<open>prevTip - d + 1\<close> wraps: depth 0 at the last 32-bit height.\<close>

abbreviation no_wrap :: "Pruner \<Rightarrow> bool" where
  "no_wrap pr \<equiv> pr_hasTip pr \<longrightarrow> policy_D (pr_policy pr) \<noteq> 0 \<or> pr_lastTip pr \<noteq> - 1"

lemma on_new_block_flat:
  assumes "no_wrap pr"
  shows "\<exists>n. OnNewBlock flat_ops tip (a, pr) =
    ((evict (due_spent pr tip) (due_index pr tip) a,
      pr\<lparr>pr_lastTip := tip, pr_hasTip := True, pr_total := pr_total pr + of_nat n\<rparr>), Inr (n, None))"
proof -
  let ?d = "po_IndexRetention (pr_policy pr)"
  obtain n where n: "sweep (pr_lastTip pr) (pr_hasTip pr) tip (policy_D (pr_policy pr)) (so_PruneSpentAtHeight flat_ops) a =
      (evict (due_spent pr tip) {} a, Inr (n, None))"
    using sweep_spent_flat [OF assms] by blast
  show ?thesis
  proof (cases "0 < ?d")
    case True
    then have "pr_hasTip pr \<longrightarrow> ?d \<noteq> 0 \<or> pr_lastTip pr \<noteq> - 1" by auto
    from sweep_index_flat [OF this, of tip "evict (due_spent pr tip) {} a"] obtain k where
      "sweep (pr_lastTip pr) (pr_hasTip pr) tip ?d (so_PruneIndexAtHeight flat_ops) (evict (due_spent pr tip) {} a) =
        (evict (due_spent pr tip) (due_index pr tip) a, Inr (k, None))"
      using True by (auto simp: evict_evict due_index_def)
    with n True show ?thesis
      by (intro exI [of _ "n + k"])
         (simp add: OnNewBlock_def addTotal_def bindM_def on_fst_def on_snd_def getM_def modifyM_def ret_def)
  next
    case False
    with n show ?thesis
      by (intro exI [of _ n])
         (simp add: OnNewBlock_def addTotal_def bindM_def on_fst_def on_snd_def getM_def modifyM_def ret_def
           due_index_def)
  qed
qed

lemma policy_D_exact:
  "unat (po_ReorgHorizon p) + unat (po_RecencyWindow p) < 2 ^ 32 \<Longrightarrow>
   unat (policy_D p) = unat (po_ReorgHorizon p) + unat (po_RecencyWindow p)"
  by (simp add: policy_D_def unat_word_ariths)

lemma Depth_exact:
  assumes "unat h \<le> unat tip" and "tip \<noteq> - 1"
  shows "unat (Depth tip h) = unat tip - unat h + 1"
proof -
  have "unat (tip - h) = unat tip - unat h" using assms by (simp add: unat_sub word_le_nat_alt)
  moreover have "tip - h \<noteq> - 1"
  proof
    assume "tip - h = - 1"
    then have "unat tip - unat h = 2 ^ 32 - 1" using calculation by (simp add: unat_minus_one_word)
    then have "unat tip = 2 ^ 32 - 1" using unsigned_less [of tip, where 'a = nat] by simp
    with assms(2) show False by (simp add: word_unat_eq_iff unat_minus_one_word)
  qed
  ultimately show ?thesis using assms by (simp add: Depth_def unat_Suc_word word_less_nat_alt)
qed

text \<open>What a store answers for an outpoint.\<close>

abbreviation utxo_of :: "MemStore \<Rightarrow> Outpoint \<Rightarrow> UTXO option" where
  "utxo_of s op \<equiv> (case snd (mem_GetUTXO op s) of Inr r \<Rightarrow> r | Inl _ \<Rightarrow> None)"

lemma utxo_of_abs: "utxo_of s op = fs_utxo (mem_abs s) op"
  by (simp add: mem_GetUTXO_def mem_abs_sel)

lemma mem_on_new_block:
  assumes "mem_inv s" and "no_wrap pr" and "OnNewBlock mem_ops tip (s, pr) = ((s', pr'), r)"
  shows "mem_inv s'" and "mem_abs s' = evict (due_spent pr tip) (due_index pr tip) (mem_abs s)"
    and "\<exists>n. r = Inr (n, None) \<and> pr' = pr\<lparr>pr_lastTip := tip, pr_hasTip := True, pr_total := pr_total pr + of_nat n\<rparr>"
proof -
  have "inv_fst mem_inv (s, pr)" using assms by simp
  note sim = implementsD [OF mem.on_new_block_sim this assms(3)]
  obtain n where "OnNewBlock flat_ops tip (mem_abs s, pr) =
    ((evict (due_spent pr tip) (due_index pr tip) (mem_abs s),
      pr\<lparr>pr_lastTip := tip, pr_hasTip := True, pr_total := pr_total pr + of_nat n\<rparr>), Inr (n, None))"
    using on_new_block_flat [OF assms(2)] by blast
  with sim show "mem_inv s'" and "mem_abs s' = evict (due_spent pr tip) (due_index pr tip) (mem_abs s)"
    and "\<exists>n. r = Inr (n, None) \<and> pr' = pr\<lparr>pr_lastTip := tip, pr_hasTip := True, pr_total := pr_total pr + of_nat n\<rparr>"
    by auto
qed


text \<open>
  The correctness floor: with a policy whose depth does not overflow 32 bits, a tip advance
  evicts an output only if it is spent and the spend is buried deeper than the reorg horizon. No
  reorg the node commits to survive can need the evicted record.
\<close>

theorem prune_outside_horizon:
  assumes "mem_inv s" and "pr_hasTip pr \<longrightarrow> policy_D (pr_policy pr) \<noteq> 0 \<or> pr_lastTip pr \<noteq> - 1"
    and "unat (po_ReorgHorizon (pr_policy pr)) + unat (po_RecencyWindow (pr_policy pr)) < 2 ^ 32"
    and "tip \<noteq> - 1" and "OnNewBlock mem_ops tip (s, pr) = ((s', pr'), r)"
    and "utxo_of s op = Some u" and "utxo_of s' op = None"
  shows "u_Spent u \<and> unat (po_ReorgHorizon (pr_policy pr)) < unat (Depth tip (u_SpentHeight u))"
proof -
  from mem_on_new_block(2) [OF assms(1,2,5)] assms(6,7)
  have "u_Spent u" and d: "unat (u_SpentHeight u) + unat (policy_D (pr_policy pr)) \<le> unat tip"
    by (auto simp: utxo_of_abs evict_sel spent_at_def due_def split: if_splits)
  then show ?thesis
    using Depth_exact [of "u_SpentHeight u" tip] assms(4) policy_D_exact [OF assms(3)] by simp
qed

text \<open>A store with one output, spent at height 10, for the witnesses.\<close>

definition ex_op :: Outpoint where
  "ex_op = \<lparr>op_TxID = copy_from [1], op_Vout = 0\<rparr>"

definition ex_utxo :: UTXO where
  "ex_utxo = \<lparr>u_Value = 5, u_ScriptHash = copy_from [], u_Spent = True, u_SpentBy = copy_from [2], u_SpentHeight = 10\<rparr>"

definition ex_store :: MemStore where
  "ex_store = fst (mem_PutUTXO ex_op ex_utxo New)"

lemma ex_store_inv: "mem_inv ex_store"
  using mem_put_utxo mem_inv_New by (auto simp: ex_store_def implements_def)

lemma ex_store_utxo: "utxo_of ex_store ex_op = Some ex_utxo"
  by (simp add: ex_store_def mem_PutUTXO_def mem_GetUTXO_def Let_def set_stripe_def ex_utxo_def)

abbreviation ex_pruned :: "(MemStore \<times> Pruner) \<times> (go_error + nat \<times> go_error option)" where
  "ex_pruned \<equiv> OnNewBlock mem_ops 40 (ex_store, NewPruner RecommendedPolicy)"

lemmas ex_prune_defs = NewPruner_def RecommendedPolicy_def policy_D_def


theorem prune_outside_horizon_witness:
  "u_Spent ex_utxo \<and> 18 < unat (Depth 40 (u_SpentHeight ex_utxo))"
proof -
  have "OnNewBlock mem_ops 40 (ex_store, NewPruner RecommendedPolicy) =
      ((fst (fst ex_pruned), snd (fst ex_pruned)), snd ex_pruned)" by simp
  moreover from mem_on_new_block(2) [OF ex_store_inv _ this] ex_store_utxo
  have "utxo_of (fst (fst ex_pruned)) ex_op = None"
    by (simp add: utxo_of_abs evict_sel spent_at_def due_def ex_prune_defs ex_utxo_def)
  ultimately show ?thesis
    using prune_outside_horizon [of ex_store "NewPruner RecommendedPolicy" 40 "fst (fst ex_pruned)" "snd (fst ex_pruned)"
        "snd ex_pruned" ex_op ex_utxo] ex_store_inv ex_store_utxo
    by (simp add: ex_prune_defs)
qed

section \<open>Catching up\<close>

lemma due_split:
  assumes "unat p \<le> unat t" and "unat t \<le> unat t'"
  shows "due p True t d \<union> due t True t' d = due p True t' d"
  using assms by (auto simp: due_def)

lemma due_index_step:
  assumes "pr_hasTip pr" and "unat (pr_lastTip pr) \<le> unat t" and "unat t \<le> unat t'"
  shows "due_index pr t \<union> due_index (pr\<lparr>pr_lastTip := t, pr_hasTip := True, pr_total := n\<rparr>) t' = due_index pr t'"
  using assms by (simp add: due_index_def Let_def due_split)

lemma run_tips_flat:
  assumes "pr_hasTip pr" and "sorted (map unat (pr_lastTip pr # tips @ [tip]))" and "tip \<noteq> - 1"
  shows "fst (run_tips flat_ops (tips @ [tip]) (a, pr)) = evict (due_spent pr tip) (due_index pr tip) a"
  using assms
proof (induction tips arbitrary: a pr)
  case Nil
  then have "unat (pr_lastTip pr) \<le> unat tip" by simp
  with Nil(3) have "pr_lastTip pr \<noteq> - 1"
    using unsigned_less [of tip, where 'a = nat] by (auto simp: word_unat_eq_iff unat_minus_one_word)
  with on_new_block_flat [of pr tip a] show ?case by auto
next
  case (Cons t tips)
  then have le: "unat (pr_lastTip pr) \<le> unat t" "unat t \<le> unat tip" by auto
  with Cons(4) have "pr_lastTip pr \<noteq> - 1"
    using unsigned_less [of tip, where 'a = nat] by (auto simp: word_unat_eq_iff unat_minus_one_word)
  with on_new_block_flat [of pr t a] obtain n where
    s: "fst (OnNewBlock flat_ops t (a, pr)) = (evict (due_spent pr t) (due_index pr t) a,
      pr\<lparr>pr_lastTip := t, pr_hasTip := True, pr_total := pr_total pr + of_nat n\<rparr>)" by auto
  with Cons le show ?case
    by (simp add: evict_evict due_split due_index_step)
qed

text \<open>
  C33. Gap safety: a pruner that is told of every block in turn and one that is told only of the last
  one (initial sync, catch-up after downtime) leave the memory store in the same observable state,
  for spent outputs and for index data alike. A jump of the tip leaks nothing.
\<close>

theorem prune_catch_up:
  assumes "mem_inv s" and "pr_hasTip pr" and "sorted (map unat (pr_lastTip pr # tips @ [tip]))" and "tip \<noteq> - 1"
  shows "mem_abs (fst (run_tips mem_ops (tips @ [tip]) (s, pr))) = mem_abs (fst (run_tips mem_ops [tip] (s, pr)))"
proof -
  have one: "sorted (map unat (pr_lastTip pr # [] @ [tip]))" using assms(3) by (auto simp: sorted_append)
  show ?thesis
    using run_tips_flat [OF assms(2-4), of "mem_abs s"] run_tips_flat [OF assms(2) one assms(4), of "mem_abs s"]
      mem.run_tips_sim [OF assms(1), of "tips @ [tip]" pr] mem.run_tips_sim [OF assms(1), of "[] @ [tip]" pr]
    by simp
qed

theorem prune_catch_up_witness:
  "mem_abs (fst (run_tips mem_ops ([31, 35] @ [60]) (ex_store, (NewPruner RecommendedPolicy)\<lparr>pr_lastTip := 31, pr_hasTip := True\<rparr>))) =
   mem_abs (fst (run_tips mem_ops [60] (ex_store, (NewPruner RecommendedPolicy)\<lparr>pr_lastTip := 31, pr_hasTip := True\<rparr>)))"
  by (rule prune_catch_up) (simp_all add: ex_store_inv)

text \<open>
  \<open>PolicyWithD\<close> refuses a depth below the horizon and otherwise returns a policy whose depth is
  the requested one, which is at least the horizon.
\<close>

theorem policy_with_d_sound:
  "(case PolicyWithD d hz of
      Inl e \<Rightarrow> d < hz \<and> e = ErrBelowFloor
    | Inr p \<Rightarrow> policy_D p = d \<and> po_ReorgHorizon p = hz \<and> hz \<le> d \<and>
        unat (po_ReorgHorizon p) + unat (po_RecencyWindow p) < 2 ^ 32)"
proof -
  have "unat hz + unat (d - hz) < 2 ^ 32" if "hz \<le> d"
    using that unsigned_less [of d, where 'a = nat] by (simp add: unat_sub word_le_nat_alt)
  then show ?thesis by (auto simp: PolicyWithD_def policy_D_def not_less)
qed

text \<open>
  A policy given directly is not correct by construction: the depth is a 32-bit sum, so a horizon of
  \<open>2 ^ 32 - 1\<close> with a window of 1 has depth 0, and a tip advance evicts an output in the very block
  that spent it, although the policy promises to survive every reorg.
\<close>

theorem prune_depth_overflow:
  "let p = \<lparr>po_ReorgHorizon = - 1, po_RecencyWindow = 1, po_IndexRetention = 0\<rparr>;
       s' = fst (fst (OnNewBlock mem_ops 10 (ex_store, NewPruner p)))
   in policy_D p = 0 \<and> utxo_of ex_store ex_op = Some ex_utxo \<and> u_SpentHeight ex_utxo = 10 \<and> utxo_of s' ex_op = None"
proof -
  let ?p = "\<lparr>po_ReorgHorizon = - 1, po_RecencyWindow = 1, po_IndexRetention = 0\<rparr>"
  let ?r = "OnNewBlock mem_ops 10 (ex_store, NewPruner ?p)"
  have "OnNewBlock mem_ops 10 (ex_store, NewPruner ?p) = ((fst (fst ?r), snd (fst ?r)), snd ?r)" by simp
  from mem_on_new_block(2) [OF ex_store_inv _ this] ex_store_utxo show ?thesis
    by (simp add: utxo_of_abs evict_sel spent_at_def due_def ex_prune_defs ex_utxo_def)
qed

end
