(* ===== verification/Ingest.thy ===== *)
theory Ingest
  imports Shard Teranode Inclusion_Proof Prune
begin

text \<open>
  \<^verbatim>\<open>ingest/ingest.go\<close>: indexing sealed blocks into one shard's store, driving the pruner,
  and rolling a block back after a reorg. The ingestor's mutable state is the store and, when it
  has one, the pruner; its shard width, shard id and validation switch are fixed. \<open>IngestBlock\<close>
  returns the statistics collected so far together with the error, as the Go method does.
\<close>

record Ingestor =
  in_k :: nat
  in_id :: uint32
  in_skipValidate :: bool

record IngestStats =
  is_Blocks :: nat
  is_TxsIndexed :: nat
  is_UTXOsMade :: nat
  is_UTXOsSpent :: nat
  is_Pruned :: nat

definition zeroStats :: IngestStats where
  "zeroStats = \<lparr>is_Blocks = 0, is_TxsIndexed = 0, is_UTXOsMade = 0, is_UTXOsSpent = 0, is_Pruned = 0\<rparr>"

definition owns :: "Ingestor \<Rightarrow> hash \<Rightarrow> bool" where
  "owns inn txid = (if in_k inn = 0 then True else Of txid (in_k inn) = in_id inn)"

text \<open>The loop over the subtrees of \<open>validateBlock\<close>, beside their claimed roots.\<close>

fun validate_subtrees :: "Subtree list \<Rightarrow> hash list \<Rightarrow> bool" where
  "validate_subtrees (sub # subs) (r # rs) =
     (case MerkleRoot (su_TxIDs sub) of Inl _ \<Rightarrow> False
      | Inr root \<Rightarrow> if root \<noteq> su_Root sub \<or> root \<noteq> r then False else validate_subtrees subs rs)"
| "validate_subtrees _ _ = True"

definition validateBlock :: "Block \<Rightarrow> go_error option" where
  "validateBlock b =
     (if length (bl_Subtrees b) \<noteq> length (bl_SubtreeRoots b) then Some ErrInvalidBlock
      else if \<not> validate_subtrees (bl_Subtrees b) (bl_SubtreeRoots b) then Some ErrInvalidBlock
      else (case MerkleRoot (bl_SubtreeRoots b) of Inl _ \<Rightarrow> Some ErrInvalidBlock
        | Inr blockRoot \<Rightarrow>
            if blockRoot \<noteq> bl_MerkleRoot b then Some ErrInvalidBlock
            else if HeaderMerkleRoot (bl_Header b) \<noteq> bl_MerkleRoot b then Some ErrInvalidBlock
            else None))"

section \<open>Ingesting a block\<close>

type_synonym 's istate = "'s \<times> Pruner option \<times> IngestStats"

definition count :: "(IngestStats \<Rightarrow> IngestStats) \<Rightarrow> ('s istate, unit) gom" where
  "count f = on_snd (modifyM (\<lambda>(p, st). (p, f st)))"

definition ownAny :: "Ingestor \<Rightarrow> Subtree \<Rightarrow> bool" where
  "ownAny inn sub = (in_k inn = 0 \<or> list_ex (owns inn) (su_TxIDs sub))"

definition block_rec :: "Block \<Rightarrow> BlockRec" where
  "block_rec b =
     \<lparr>br_Hash = bl_Hash b, br_Height = bl_Height b, br_Time = bl_Time b, br_MerkleRoot = bl_MerkleRoot b,
      br_SubtreeRoots = bl_SubtreeRoots b, br_Header = bl_Header b\<rparr>"

definition tx_index :: "Block \<Rightarrow> nat \<Rightarrow> nat \<Rightarrow> TxIndex" where
  "tx_index b si li =
     \<lparr>ti_Mined = True, ti_BlockHash = bl_Hash b, ti_Height = bl_Height b, ti_BlockTime = bl_Time b,
      ti_SubtreeIndex = of_nat si, ti_LeafIndex = of_nat li, ti_SeenTime = ucast (bl_Time b) * 1000000000\<rparr>"

definition new_utxo :: "TxOut \<Rightarrow> UTXO" where
  "new_utxo out =
     \<lparr>u_Value = to_Value out, u_ScriptHash = to_ScriptHash out, u_Spent = False, u_SpentBy = copy_from [],
      u_SpentHeight = 0\<rparr>"

definition ingest_tx :: "'s store_ops \<Rightarrow> Ingestor \<Rightarrow> Block \<Rightarrow> nat \<Rightarrow> nat \<Rightarrow> Tx \<Rightarrow> ('s istate, unit) gom" where
  "ingest_tx ops inn b si li tx =
     (if \<not> owns inn (tx_TxID tx) then ret ()
      else
        bindM (on_fst (so_PutTxIndex ops (tx_TxID tx) (tx_index b si li))) (\<lambda>_.
        bindM (count (\<lambda>st. st\<lparr>is_TxsIndexed := is_TxsIndexed st + 1\<rparr>)) (\<lambda>_.
        bindM (forM (tx_Inputs tx) (\<lambda>op.
          bindM (on_fst (so_SpendUTXO ops op (tx_TxID tx) (bl_Height b))) (\<lambda>ok.
            if ok then count (\<lambda>st. st\<lparr>is_UTXOsSpent := is_UTXOsSpent st + 1\<rparr>) else ret ()))) (\<lambda>_.
        forIdxM 0 (tx_Outputs tx) (\<lambda>vout out.
          bindM (on_fst (so_PutUTXO ops \<lparr>op_TxID = tx_TxID tx, op_Vout = of_nat vout\<rparr> (new_utxo out))) (\<lambda>_.
            count (\<lambda>st. st\<lparr>is_UTXOsMade := is_UTXOsMade st + 1\<rparr>)))))))"

definition prune_step :: "'s store_ops \<Rightarrow> uint32 \<Rightarrow> ('s istate, unit) gom" where
  "prune_step ops h = (\<lambda>(s, p, st).
     case p of None \<Rightarrow> ((s, p, st), Inr ())
     | Some pr \<Rightarrow>
         (case OnNewBlock ops h (s, pr) of
            ((s', pr'), Inl e) \<Rightarrow> ((s', Some pr', st), Inl e)
          | ((s', pr'), Inr (n, Some e)) \<Rightarrow> ((s', Some pr', st), Inl e)
          | ((s', pr'), Inr (n, None)) \<Rightarrow> ((s', Some pr', st\<lparr>is_Pruned := n\<rparr>), Inr ())))"

definition ingest_body :: "'s store_ops \<Rightarrow> Ingestor \<Rightarrow> Block \<Rightarrow> ('s istate, unit) gom" where
  "ingest_body ops inn b =
     bindM (forM (bl_Subtrees b) (\<lambda>sub.
       if ownAny inn sub then on_fst (so_PutSubtree ops (su_Root sub) (su_TxIDs sub)) else ret ())) (\<lambda>_.
     bindM (on_fst (so_PutBlock ops (block_rec b))) (\<lambda>_.
     bindM (on_fst (so_PutHeader ops (bl_Height b) (bl_Header b))) (\<lambda>_.
     bindM (forIdxM 0 (bl_Subtrees b) (\<lambda>si sub.
       forIdxM 0 (su_Txs sub) (\<lambda>li tx. ingest_tx ops inn b si li tx))) (\<lambda>_.
     bindM (count (\<lambda>st. st\<lparr>is_Blocks := 1\<rparr>)) (\<lambda>_.
     prune_step ops (bl_Height b))))))"

definition err_of :: "go_error + 'a \<Rightarrow> go_error option" where
  "err_of r = (case r of Inl e \<Rightarrow> Some e | Inr _ \<Rightarrow> None)"

definition IngestBlock ::
  "'s store_ops \<Rightarrow> Ingestor \<Rightarrow> Block \<Rightarrow> 's \<times> Pruner option \<Rightarrow> ('s \<times> Pruner option) \<times> IngestStats \<times> go_error option" where
  "IngestBlock ops inn b = (\<lambda>(s, p).
     if \<not> in_skipValidate inn \<and> validateBlock b \<noteq> None then ((s, p), zeroStats, validateBlock b)
     else (case ingest_body ops inn b (s, p, zeroStats) of
             ((s', p', st), r) \<Rightarrow> ((s', p'), st, err_of r)))"

section \<open>Rolling a block back\<close>

definition rollback_tx :: "'s store_ops \<Rightarrow> Ingestor \<Rightarrow> Tx \<Rightarrow> ('s, unit) gom" where
  "rollback_tx ops inn tx =
     (if \<not> owns inn (tx_TxID tx) then ret ()
      else
        bindM (forM (tx_Inputs tx) (\<lambda>op. bindM (so_UnspendUTXO ops op) (\<lambda>_. ret ()))) (\<lambda>_.
        bindM (forIdxM 0 (tx_Outputs tx) (\<lambda>vout out.
          bindM (so_DeleteUTXO ops \<lparr>op_TxID = tx_TxID tx, op_Vout = of_nat vout\<rparr>) (\<lambda>_. ret ()))) (\<lambda>_.
        bindM (so_DeleteTxIndex ops (tx_TxID tx)) (\<lambda>_. ret ()))))"

definition RollbackBlock :: "'s store_ops \<Rightarrow> Ingestor \<Rightarrow> Block \<Rightarrow> ('s, unit) gom" where
  "RollbackBlock ops inn b =
     forM (bl_Subtrees b) (\<lambda>sub. forM (su_Txs sub) (rollback_tx ops inn))"

section \<open>Draining a source\<close>

definition add_stats :: "IngestStats \<Rightarrow> IngestStats \<Rightarrow> IngestStats" where
  "add_stats t s =
     \<lparr>is_Blocks = is_Blocks t + is_Blocks s, is_TxsIndexed = is_TxsIndexed t + is_TxsIndexed s,
      is_UTXOsMade = is_UTXOsMade t + is_UTXOsMade s, is_UTXOsSpent = is_UTXOsSpent t + is_UTXOsSpent s,
      is_Pruned = is_Pruned t + is_Pruned s\<rparr>"

text \<open>\<open>Run\<close> loops until the source is exhausted or fails; not returning is \<open>None\<close>.\<close>

partial_function (option) Run ::
  "'s store_ops \<Rightarrow> Ingestor \<Rightarrow> ('m, Block option) gom \<Rightarrow> 'm \<Rightarrow> 's \<times> Pruner option \<Rightarrow> IngestStats \<Rightarrow>
   (('m \<times> 's \<times> Pruner option) \<times> IngestStats \<times> go_error option) option" where
  [code]: "Run ops inn nxt src sp tot =
     (case nxt src of
        (src', Inl e) \<Rightarrow> Some ((src', sp), tot, Some e)
      | (src', Inr None) \<Rightarrow> Some ((src', sp), tot, None)
      | (src', Inr (Some b)) \<Rightarrow>
          (case IngestBlock ops inn b sp of
             (sp', st, Some e) \<Rightarrow> Some ((src', sp'), tot, Some e)
           | (sp', st, None) \<Rightarrow> Run ops inn nxt src' sp' (add_stats tot st)))"

section \<open>Ingest on any backend\<close>

lemma implements_pair_state:
  fixes m :: "('s \<times> 'r, 'x) gom" and m' :: "('t \<times> 'r, 'x) gom"
  assumes "\<And>s r. iv s \<Longrightarrow> (case m (s, r) of ((s', r'), x) \<Rightarrow> iv s' \<and> m' (af s, r) = ((af s', r'), x))"
  shows "implements (inv_fst iv) (abs_fst af) m m'"
proof (rule implementsI)
  fix p :: "'s \<times> 'r" assume p: "inv_fst iv p"
  obtain s r where sr: "p = (s, r)" by (cases p)
  obtain s' r' x where m: "m (s, r) = ((s', r'), x)" by (metis prod.exhaust)
  from assms [of s r] p sr m show "inv_fst iv (fst (m p))"
    and "m' (abs_fst af p) = (abs_fst af (fst (m p)), snd (m p))" by simp_all
qed

context store_backend
begin

lemma count_sim: "implements (inv_fst iv) (abs_fst af) (count f) (count f)"
  unfolding count_def by (rule sim_intros)

lemma prune_step_sim: "implements (inv_fst iv) (abs_fst af) (prune_step ops h) (prune_step flat_ops h)"
proof (rule implements_pair_state)
  fix s and r :: "Pruner option \<times> IngestStats" assume s: "iv s"
  obtain p st where r: "r = (p, st)" by (cases r)
  show "case prune_step ops h (s, r) of ((s', r'), x) \<Rightarrow> iv s' \<and> prune_step flat_ops h (af s, r) = ((af s', r'), x)"
  proof (cases p)
    case (Some pr)
    obtain s' pr' x where m: "OnNewBlock ops h (s, pr) = ((s', pr'), x)" by (metis prod.exhaust)
    have "inv_fst iv (s, pr)" using s by simp
    from implementsD [OF on_new_block_sim this m]
    have "iv s'" "OnNewBlock flat_ops h (af s, pr) = ((af s', pr'), x)" by simp_all
    with Some r m show ?thesis
      by (auto simp: prune_step_def split: sum.splits option.splits)
  qed (simp add: r s prune_step_def)
qed

lemma ingest_tx_sim:
  "implements (inv_fst iv) (abs_fst af) (ingest_tx ops inn b si li tx) (ingest_tx flat_ops inn b si li tx)"
  unfolding ingest_tx_def by (intro sim_intros count_sim put_txindex spend_utxo put_utxo)

lemma ingest_body_sim:
  "implements (inv_fst iv) (abs_fst af) (ingest_body ops inn b) (ingest_body flat_ops inn b)"
  unfolding ingest_body_def
  by (intro sim_intros count_sim put_subtree put_block put_header ingest_tx_sim prune_step_sim)

lemma ingest_block_sim:
  assumes "iv s" and "IngestBlock ops inn b (s, p) = ((s', p'), st, e)"
  shows "iv s'" and "IngestBlock flat_ops inn b (af s, p) = ((af s', p'), st, e)"
proof -
  obtain s1 p1 st1 r where m: "ingest_body ops inn b (s, p, zeroStats) = ((s1, p1, st1), r)"
    by (metis prod.exhaust)
  have "inv_fst iv (s, p, zeroStats)" using assms(1) by simp
  from implementsD [OF ingest_body_sim this m]
  have "iv s1" "ingest_body flat_ops inn b (af s, p, zeroStats) = ((af s1, p1, st1), r)" by simp_all
  with assms m show "iv s'" "IngestBlock flat_ops inn b (af s, p) = ((af s', p'), st, e)"
    by (auto simp: IngestBlock_def split: if_splits)
qed

lemma rollback_block_sim: "implements iv af (RollbackBlock ops inn b) (RollbackBlock flat_ops inn b)"
  unfolding RollbackBlock_def rollback_tx_def
  by (intro sim_intros unspend_utxo delete_utxo delete_txindex)

end

section \<open>The effect of a block on the reference store\<close>

definition spend1 :: "hash \<Rightarrow> uint32 \<Rightarrow> Outpoint \<Rightarrow> (Outpoint \<rightharpoonup> UTXO) \<Rightarrow> (Outpoint \<rightharpoonup> UTXO)" where
  "spend1 by h op U = U(op := map_option (spend by h) (U op))"

definition create1 :: "hash \<Rightarrow> nat \<times> TxOut \<Rightarrow> (Outpoint \<rightharpoonup> UTXO) \<Rightarrow> (Outpoint \<rightharpoonup> UTXO)" where
  "create1 txid = (\<lambda>(i, out). \<lambda>U. U(\<lparr>op_TxID = txid, op_Vout = of_nat i\<rparr> \<mapsto> new_utxo out))"

definition tx_utxo :: "uint32 \<Rightarrow> Tx \<Rightarrow> (Outpoint \<rightharpoonup> UTXO) \<Rightarrow> (Outpoint \<rightharpoonup> UTXO)" where
  "tx_utxo h tx U = fold (create1 (tx_TxID tx)) (enumerate 0 (tx_Outputs tx)) (fold (spend1 (tx_TxID tx) h) (tx_Inputs tx) U)"

definition tx_effect :: "Block \<Rightarrow> nat \<times> nat \<times> Tx \<Rightarrow> FlatStore \<Rightarrow> FlatStore" where
  "tx_effect b = (\<lambda>(si, li, tx). \<lambda>a.
     (fst (flat_PutTxIndex (tx_TxID tx) (tx_index b si li) a))\<lparr>fs_utxo := tx_utxo (bl_Height b) tx (fs_utxo a)\<rparr>)"

text \<open>The transactions of a block with their positions, and those a shard owns.\<close>

definition block_txs :: "Block \<Rightarrow> (nat \<times> nat \<times> Tx) list" where
  "block_txs b = concat (map (\<lambda>(si, sub). map (\<lambda>(li, tx). (si, li, tx)) (enumerate 0 (su_Txs sub))) (enumerate 0 (bl_Subtrees b)))"

definition owned_txs :: "Ingestor \<Rightarrow> Block \<Rightarrow> (nat \<times> nat \<times> Tx) list" where
  "owned_txs inn b = filter (\<lambda>(si, li, tx). owns inn (tx_TxID tx)) (block_txs b)"

lemma forIdxM_enumerate: "forIdxM i xs f = forM (enumerate i xs) (\<lambda>(j, x). f j x)"
  by (induction xs arbitrary: i) simp_all

lemma forM_map: "forM (map g xs) f = forM xs (\<lambda>x. f (g x))"
  by (induction xs) simp_all

lemma forM_concat: "forM (concat xss) f = forM xss (\<lambda>xs. forM xs f)"
  by (induction xss) (simp_all add: forM_append)

lemma bindM_ret: "bindM (ret x) f = f x"
  by (simp add: bindM_def ret_def fun_eq_iff)

lemma forM_guard:
  "forM xs (\<lambda>x. if P x then m x else ret ()) = forM (filter P xs) m"
  by (induction xs) (simp_all add: bindM_ret)

text \<open>A loop that acts on the store as \<open>g\<close>, leaves the pruner alone and updates the statistics.\<close>

definition acts :: "('s istate, unit) gom \<Rightarrow> ('s \<Rightarrow> 's) \<Rightarrow> bool" where
  "acts m g \<longleftrightarrow> (\<forall>a p st. \<exists>st'. m (a, p, st) = ((g a, p, st'), Inr ()))"

lemma acts_ret: "acts (ret ()) (\<lambda>a. a)"
  by (simp add: acts_def ret_def)

lemma acts_count: "acts (count f) (\<lambda>a. a)"
  by (simp add: acts_def count_def on_snd_def modifyM_def)

lemma acts_bind: "acts m g \<Longrightarrow> acts n g' \<Longrightarrow> acts (bindM m (\<lambda>_. n)) (\<lambda>a. g' (g a))"
  unfolding acts_def bindM_def
proof (intro allI)
  fix a p st
  assume m: "\<forall>a p st. \<exists>st'. m (a, p, st) = ((g a, p, st'), Inr ())"
    and n: "\<forall>a p st. \<exists>st'. n (a, p, st) = ((g' a, p, st'), Inr ())"
  from m obtain st1 where "m (a, p, st) = ((g a, p, st1), Inr ())" by blast
  moreover from n obtain st2 where "n (g a, p, st1) = ((g' (g a), p, st2), Inr ())" by blast
  ultimately show "\<exists>st'. (case m (a, p, st) of (s', Inl e) \<Rightarrow> (s', Inl e) | (s', Inr x) \<Rightarrow> n s') =
      ((g' (g a), p, st'), Inr ())" by simp
qed

lemma acts_forM: "(\<And>x. x \<in> set xs \<Longrightarrow> acts (f x) (g x)) \<Longrightarrow> acts (forM xs f) (fold g xs)"
proof (induction xs)
  case (Cons x xs)
  then have "acts (f x) (g x)" "acts (forM xs f) (fold g xs)" by simp_all
  from acts_bind [OF this] show ?case by (simp add: comp_def)
qed (simp add: acts_ret id_def)

lemma fold_utxo: "fold (\<lambda>x a. a\<lparr>fs_utxo := g x (fs_utxo a)\<rparr>) xs a = a\<lparr>fs_utxo := fold g xs (fs_utxo a)\<rparr>"
  for a :: FlatStore
  by (induction xs arbitrary: a) simp_all

lemma acts_fold_utxo:
  "acts m (fold (\<lambda>x a. a\<lparr>fs_utxo := g x (fs_utxo a)\<rparr>) xs) \<Longrightarrow>
   acts m (\<lambda>a. a\<lparr>fs_utxo := fold g xs (fs_utxo a)\<rparr>)" for m :: "(FlatStore istate, unit) gom"
  by (simp add: acts_def fold_utxo)

lemma acts_spend:
  "acts (bindM (on_fst (so_SpendUTXO flat_ops op by h)) (\<lambda>ok. if ok then count f else ret ()))
     (\<lambda>a. a\<lparr>fs_utxo := spend1 by h op (fs_utxo a)\<rparr>)"
  by (auto simp: acts_def bindM_def on_fst_def flat_defs count_def on_snd_def modifyM_def ret_def spend1_def
      fun_upd_idem split: option.splits)

lemma acts_create:
  "acts (bindM (on_fst (so_PutUTXO flat_ops \<lparr>op_TxID = txid, op_Vout = of_nat i\<rparr> (new_utxo out))) (\<lambda>_. count f))
     (\<lambda>a. a\<lparr>fs_utxo := create1 txid (i, out) (fs_utxo a)\<rparr>)"
  by (simp add: acts_def bindM_def on_fst_def flat_ops_def count_def on_snd_def modifyM_def create1_def)

lemma acts_index:
  "acts (on_fst (so_PutTxIndex flat_ops txid ix)) (\<lambda>a. fst (flat_PutTxIndex txid ix a))"
  by (simp add: acts_def on_fst_def flat_ops_def flat_PutTxIndex_def)

lemma fs_utxo_put_txindex: "fs_utxo (fst (flat_PutTxIndex txid ix a)) = fs_utxo a"
  by (simp add: flat_PutTxIndex_def)

lemma acts_tx:
  assumes "owns inn (tx_TxID tx)"
  shows "acts (ingest_tx flat_ops inn b si li tx) (tx_effect b (si, li, tx))"
proof -
  let ?id = "tx_TxID tx" and ?h = "bl_Height b"
  have ins: "acts (forM (tx_Inputs tx) (\<lambda>op. bindM (on_fst (so_SpendUTXO flat_ops op ?id ?h)) (\<lambda>ok. if ok then count f else ret ())))
      (\<lambda>a. a\<lparr>fs_utxo := fold (spend1 ?id ?h) (tx_Inputs tx) (fs_utxo a)\<rparr>)" for f
    by (intro acts_fold_utxo acts_forM acts_spend)
  have outs: "acts (forIdxM 0 (tx_Outputs tx) (\<lambda>vout out.
        bindM (on_fst (so_PutUTXO flat_ops \<lparr>op_TxID = ?id, op_Vout = of_nat vout\<rparr> (new_utxo out))) (\<lambda>_. count f)))
      (\<lambda>a. a\<lparr>fs_utxo := fold (create1 ?id) (enumerate 0 (tx_Outputs tx)) (fs_utxo a)\<rparr>)" for f
  proof -
    have "acts ((\<lambda>(vout, out). bindM (on_fst (so_PutUTXO flat_ops \<lparr>op_TxID = ?id, op_Vout = of_nat vout\<rparr> (new_utxo out))) (\<lambda>_. count f)) x)
       (\<lambda>a. a\<lparr>fs_utxo := create1 ?id x (fs_utxo a)\<rparr>)" for x
      using acts_create [of ?id "fst x" "snd x" f] by (simp add: split_def)
    then show ?thesis unfolding forIdxM_enumerate by (intro acts_fold_utxo acts_forM)
  qed
  have eff: "tx_effect b (si, li, tx) = (\<lambda>a. (\<lambda>a. a\<lparr>fs_utxo := fold (create1 ?id) (enumerate 0 (tx_Outputs tx)) (fs_utxo a)\<rparr>)
      ((\<lambda>a. a\<lparr>fs_utxo := fold (spend1 ?id ?h) (tx_Inputs tx) (fs_utxo a)\<rparr>) (fst (flat_PutTxIndex ?id (tx_index b si li) a))))"
    by (simp add: tx_effect_def tx_utxo_def fs_utxo_put_txindex fun_eq_iff)
  show ?thesis
    unfolding eff using assms
    by (simp only: ingest_tx_def if_False not_True_eq_False) (intro acts_bind acts_index acts_count [THEN acts_bind] ins outs)
qed

lemma acts_txs:
  "acts (forIdxM 0 (bl_Subtrees b) (\<lambda>si sub. forIdxM 0 (su_Txs sub) (\<lambda>li tx. ingest_tx flat_ops inn b si li tx)))
     (fold (tx_effect b) (owned_txs inn b))"
proof -
  have g: "(\<lambda>(si, li, tx). ingest_tx flat_ops inn b si li tx) =
      (\<lambda>x. if (\<lambda>(si, li, tx). owns inn (tx_TxID tx)) x
        then (\<lambda>(si, li, tx). ingest_tx flat_ops inn b si li tx) x else ret ())"
    by (rule ext) (auto simp: ingest_tx_def)
  have "forIdxM 0 (bl_Subtrees b) (\<lambda>si sub. forIdxM 0 (su_Txs sub) (\<lambda>li tx. ingest_tx flat_ops inn b si li tx)) =
      forM (block_txs b) (\<lambda>(si, li, tx). ingest_tx flat_ops inn b si li tx)"
    by (simp add: forIdxM_enumerate block_txs_def forM_concat forM_map split_def)
  also have "\<dots> = forM (owned_txs inn b) (\<lambda>(si, li, tx). ingest_tx flat_ops inn b si li tx)"
    unfolding owned_txs_def by (subst g) (rule forM_guard)
  finally show ?thesis
    by (auto intro!: acts_forM acts_tx simp: owned_txs_def)
qed

definition block_effect :: "Ingestor \<Rightarrow> Block \<Rightarrow> FlatStore \<Rightarrow> FlatStore" where
  "block_effect inn b a =
     fold (tx_effect b) (owned_txs inn b)
       (fst (so_PutHeader flat_ops (bl_Height b) (bl_Header b)
         (fst (so_PutBlock flat_ops (block_rec b)
           (fold (\<lambda>sub a. a\<lparr>fs_subtree := (fs_subtree a)(su_Root sub \<mapsto> su_TxIDs sub)\<rparr>)
             (filter (ownAny inn) (bl_Subtrees b)) a)))))"

lemma acts_on_fst: "(\<And>a. m a = (g a, Inr ())) \<Longrightarrow> acts (on_fst m) g"
  by (simp add: acts_def on_fst_def)

lemma acts_then:
  assumes "acts m g"
  shows "\<exists>st'. \<forall>n :: ('s istate, unit) gom. bindM m (\<lambda>_. n) (a, p, st) = n (g a, p, st')"
proof -
  from assms have "\<exists>st'. m (a, p, st) = ((g a, p, st'), Inr ())" unfolding acts_def by blast
  then obtain st' where "m (a, p, st) = ((g a, p, st'), Inr ())" by blast
  then show ?thesis by (auto simp: bindM_def)
qed

lemma ingest_body_flat:
  "\<exists>st'. ingest_body flat_ops inn b (a, p, st) = prune_step flat_ops (bl_Height b) (block_effect inn b a, p, st') \<and>
     is_Blocks st' = 1"
proof -
  have subs: "acts (forM (bl_Subtrees b) (\<lambda>sub.
       if ownAny inn sub then on_fst (so_PutSubtree flat_ops (su_Root sub) (su_TxIDs sub)) else ret ()))
     (fold (\<lambda>sub a. a\<lparr>fs_subtree := (fs_subtree a)(su_Root sub \<mapsto> su_TxIDs sub)\<rparr>) (filter (ownAny inn) (bl_Subtrees b)))"
    unfolding forM_guard by (intro acts_forM acts_on_fst) (simp add: flat_ops_def)
  have blk: "acts (on_fst (so_PutBlock flat_ops (block_rec b))) (\<lambda>a. fst (so_PutBlock flat_ops (block_rec b) a))"
    by (intro acts_on_fst) (simp add: flat_ops_def flat_PutBlock_def)
  have hdr: "acts (on_fst (so_PutHeader flat_ops (bl_Height b) (bl_Header b)))
      (\<lambda>a. fst (so_PutHeader flat_ops (bl_Height b) (bl_Header b) a))"
    by (intro acts_on_fst) (simp add: flat_ops_def)
  obtain s1 where 1: "\<forall>n :: (FlatStore istate, unit) gom. bindM (forM (bl_Subtrees b) (\<lambda>sub.
       if ownAny inn sub then on_fst (so_PutSubtree flat_ops (su_Root sub) (su_TxIDs sub)) else ret ())) (\<lambda>_. n) (a, p, st) =
     n (fold (\<lambda>sub a. a\<lparr>fs_subtree := (fs_subtree a)(su_Root sub \<mapsto> su_TxIDs sub)\<rparr>) (filter (ownAny inn) (bl_Subtrees b)) a, p, s1)"
    using acts_then [OF subs, of a p st] ..
  let ?a1 = "fold (\<lambda>sub a. a\<lparr>fs_subtree := (fs_subtree a)(su_Root sub \<mapsto> su_TxIDs sub)\<rparr>) (filter (ownAny inn) (bl_Subtrees b)) a"
  let ?a2 = "fst (so_PutBlock flat_ops (block_rec b) ?a1)"
  let ?a3 = "fst (so_PutHeader flat_ops (bl_Height b) (bl_Header b) ?a2)"
  obtain s2 where 2: "\<forall>n :: (FlatStore istate, unit) gom. bindM (on_fst (so_PutBlock flat_ops (block_rec b))) (\<lambda>_. n) (?a1, p, s1) = n (?a2, p, s2)"
    using acts_then [OF blk, of ?a1 p s1] ..
  obtain s3 where 3: "\<forall>n :: (FlatStore istate, unit) gom. bindM (on_fst (so_PutHeader flat_ops (bl_Height b) (bl_Header b))) (\<lambda>_. n) (?a2, p, s2) = n (?a3, p, s3)"
    using acts_then [OF hdr, of ?a2 p s2] ..
  obtain s4 where 4: "\<forall>n :: (FlatStore istate, unit) gom. bindM (forIdxM 0 (bl_Subtrees b) (\<lambda>si sub. forIdxM 0 (su_Txs sub) (\<lambda>li tx. ingest_tx flat_ops inn b si li tx)))
      (\<lambda>_. n) (?a3, p, s3) = n (fold (tx_effect b) (owned_txs inn b) ?a3, p, s4)"
    using acts_then [OF acts_txs [of b inn], of ?a3 p s3] ..
  show ?thesis
    unfolding ingest_body_def block_effect_def 1 [rule_format] 2 [rule_format] 3 [rule_format] 4 [rule_format]
    by (intro exI [of _ "s4\<lparr>is_Blocks := 1\<rparr>"]) (simp add: count_def bindM_def on_snd_def modifyM_def)
qed

text \<open>The heights whose records the pruner, if there is one, evicts after a block at height \<open>h\<close>.\<close>

definition swept :: "Pruner option \<Rightarrow> uint32 \<Rightarrow> uint32 set" where
  "swept p h = (case p of None \<Rightarrow> {} | Some pr \<Rightarrow> due_spent pr h)"

definition swept_index :: "Pruner option \<Rightarrow> uint32 \<Rightarrow> uint32 set" where
  "swept_index p h = (case p of None \<Rightarrow> {} | Some pr \<Rightarrow> due_index pr h)"

definition pruner_ok :: "Pruner option \<Rightarrow> bool" where
  "pruner_ok p = (case p of None \<Rightarrow> True | Some pr \<Rightarrow> no_wrap pr)"

definition advance :: "Pruner option \<Rightarrow> uint32 \<Rightarrow> Pruner option \<Rightarrow> bool" where
  "advance p h p' \<longleftrightarrow> (case p of None \<Rightarrow> p' = None
     | Some pr \<Rightarrow> (\<exists>n. p' = Some (pr\<lparr>pr_lastTip := h, pr_hasTip := True, pr_total := n\<rparr>)))"

lemma ingest_block_flat:
  assumes "pruner_ok p" and "in_skipValidate inn \<or> validateBlock b = None"
  shows "\<exists>p' st. IngestBlock flat_ops inn b (a, p) =
    ((evict (swept p (bl_Height b)) (swept_index p (bl_Height b)) (block_effect inn b a), p'), st, None) \<and>
    advance p (bl_Height b) p' \<and> is_Blocks st = 1"
proof -
  obtain st1 where 1: "ingest_body flat_ops inn b (a, p, zeroStats) =
      prune_step flat_ops (bl_Height b) (block_effect inn b a, p, st1)" "is_Blocks st1 = 1"
    using ingest_body_flat by blast
  show ?thesis
  proof (cases p)
    case None
    then show ?thesis using 1 assms
      by (auto simp: IngestBlock_def prune_step_def swept_def swept_index_def advance_def err_of_def)
  next
    case (Some pr)
    obtain n where "OnNewBlock flat_ops (bl_Height b) (block_effect inn b a, pr) =
       ((evict (due_spent pr (bl_Height b)) (due_index pr (bl_Height b)) (block_effect inn b a),
        pr\<lparr>pr_lastTip := bl_Height b, pr_hasTip := True, pr_total := pr_total pr + of_nat n\<rparr>), Inr (n, None))"
      using on_new_block_flat [of pr "bl_Height b" "block_effect inn b a"] assms(1) Some
      by (auto simp: pruner_ok_def)
    then show ?thesis using 1 assms Some
      by (auto simp: IngestBlock_def prune_step_def swept_def swept_index_def advance_def err_of_def)
  qed
qed

section \<open>The effect of a rollback\<close>

definition unspend1 :: "Outpoint \<Rightarrow> (Outpoint \<rightharpoonup> UTXO) \<Rightarrow> (Outpoint \<rightharpoonup> UTXO)" where
  "unspend1 op U = U(op := map_option unspend (U op))"

definition delete1 :: "hash \<Rightarrow> nat \<times> TxOut \<Rightarrow> (Outpoint \<rightharpoonup> UTXO) \<Rightarrow> (Outpoint \<rightharpoonup> UTXO)" where
  "delete1 txid = (\<lambda>(i, out). \<lambda>U. U(\<lparr>op_TxID = txid, op_Vout = of_nat i\<rparr> := None))"

definition undo_utxo :: "Tx \<Rightarrow> (Outpoint \<rightharpoonup> UTXO) \<Rightarrow> (Outpoint \<rightharpoonup> UTXO)" where
  "undo_utxo tx U = fold (delete1 (tx_TxID tx)) (enumerate 0 (tx_Outputs tx)) (fold unspend1 (tx_Inputs tx) U)"

definition undo_tx :: "Tx \<Rightarrow> FlatStore \<Rightarrow> FlatStore" where
  "undo_tx tx a = a\<lparr>fs_utxo := undo_utxo tx (fs_utxo a), fs_txindex := (fs_txindex a)(tx_TxID tx := None)\<rparr>"

definition own_list :: "Ingestor \<Rightarrow> Block \<Rightarrow> Tx list" where
  "own_list inn b = filter (\<lambda>tx. owns inn (tx_TxID tx)) (concat (map su_Txs (bl_Subtrees b)))"

lemma unspend_flat:
  "bindM (so_UnspendUTXO flat_ops op) (\<lambda>_. ret ()) a = (a\<lparr>fs_utxo := unspend1 op (fs_utxo a)\<rparr>, Inr ())"
  by (auto simp: bindM_def flat_defs ret_def unspend1_def fun_upd_idem split: option.splits)

lemma delete_flat:
  "bindM (so_DeleteUTXO flat_ops \<lparr>op_TxID = txid, op_Vout = of_nat i\<rparr>) (\<lambda>_. ret ()) a =
   (a\<lparr>fs_utxo := delete1 txid (i, out) (fs_utxo a)\<rparr>, Inr ())"
  by (auto simp: bindM_def flat_defs ret_def delete1_def fun_upd_idem split: option.splits)

lemma rollback_tx_flat:
  assumes "owns inn (tx_TxID tx)"
  shows "rollback_tx flat_ops inn tx a = (undo_tx tx a, Inr ())"
proof -
  have ins: "forM (tx_Inputs tx) (\<lambda>op. bindM (so_UnspendUTXO flat_ops op) (\<lambda>_. ret ())) a =
      (a\<lparr>fs_utxo := fold unspend1 (tx_Inputs tx) (fs_utxo a)\<rparr>, Inr ())" for a
    by (subst forM_total [where g = "\<lambda>op a. a\<lparr>fs_utxo := unspend1 op (fs_utxo a)\<rparr>"])
       (simp_all add: fold_utxo unspend_flat)
  have outs: "forIdxM 0 (tx_Outputs tx) (\<lambda>vout out.
        bindM (so_DeleteUTXO flat_ops \<lparr>op_TxID = tx_TxID tx, op_Vout = of_nat vout\<rparr>) (\<lambda>_. ret ())) a =
      (a\<lparr>fs_utxo := fold (delete1 (tx_TxID tx)) (enumerate 0 (tx_Outputs tx)) (fs_utxo a)\<rparr>, Inr ())" for a
    unfolding forIdxM_enumerate
    by (subst forM_total [where g = "\<lambda>x a. a\<lparr>fs_utxo := delete1 (tx_TxID tx) x (fs_utxo a)\<rparr>"])
       (auto simp: fold_utxo delete_flat)
  show ?thesis
    using assms
    by (simp add: rollback_tx_def bindM_def [of "forM _ _"] bindM_def [of "forIdxM _ _ _"] ins outs)
       (auto simp: bindM_def flat_defs ret_def undo_tx_def undo_utxo_def fun_upd_idem split: option.splits)
qed

lemma rollback_block_flat: "RollbackBlock flat_ops inn b a = (fold undo_tx (own_list inn b) a, Inr ())"
proof -
  have g: "rollback_tx flat_ops inn = (\<lambda>tx. if owns inn (tx_TxID tx) then rollback_tx flat_ops inn tx else ret ())"
    by (rule ext) (simp add: rollback_tx_def)
  have "RollbackBlock flat_ops inn b = forM (concat (map su_Txs (bl_Subtrees b))) (rollback_tx flat_ops inn)"
    by (simp add: RollbackBlock_def forM_concat forM_map)
  also have "\<dots> = forM (own_list inn b) (rollback_tx flat_ops inn)"
    unfolding own_list_def by (subst g) (rule forM_guard)
  finally have "RollbackBlock flat_ops inn b = forM (own_list inn b) (rollback_tx flat_ops inn)" .
  moreover have "forM (own_list inn b) (rollback_tx flat_ops inn) a = (fold undo_tx (own_list inn b) a, Inr ())"
    by (rule forM_total) (simp add: rollback_tx_flat own_list_def)
  ultimately show ?thesis by simp
qed

lemma own_list: "map (\<lambda>(si, li, tx). tx) (owned_txs inn b) = own_list inn b"
proof -
  have e: "map snd (enumerate i xs) = xs" for i and xs :: "'x list" by (induction xs arbitrary: i) simp_all
  have f: "map g (filter (\<lambda>x. P (g x)) xs) = filter P (map g xs)" for g :: "'x \<Rightarrow> 'y" and P xs
    by (induction xs) simp_all
  have c: "concat (map (\<lambda>(si :: nat, sub). su_Txs sub) ys) = concat (map su_Txs (map snd ys))" for ys
    by (simp add: comp_def split_def)
  have "map (\<lambda>(si, li, tx). tx) (block_txs b) =
      concat (map (\<lambda>(si, sub). su_Txs sub) (enumerate 0 (bl_Subtrees b)))"
    by (simp add: block_txs_def map_concat comp_def split_def e [unfolded comp_def])
  also have "\<dots> = concat (map su_Txs (bl_Subtrees b))" by (simp only: c e)
  finally show ?thesis
    using f [of "\<lambda>(si, li, tx). tx" "\<lambda>tx. owns inn (tx_TxID tx)" "block_txs b"]
    by (simp add: owned_txs_def own_list_def split_def)
qed

section \<open>Pointwise\<close>

definition slot :: "hash \<Rightarrow> nat \<Rightarrow> Outpoint" where
  "slot txid i = \<lparr>op_TxID = txid, op_Vout = of_nat i\<rparr>"

definition created :: "Tx \<Rightarrow> Outpoint set" where
  "created tx = slot (tx_TxID tx) ` {0..<length (tx_Outputs tx)}"

abbreviation created_by :: "Tx list \<Rightarrow> Outpoint set" where
  "created_by txs \<equiv> \<Union>tx\<in>set txs. created tx"

abbreviation inputs_of :: "Tx list \<Rightarrow> Outpoint set" where
  "inputs_of txs \<equiv> \<Union>tx\<in>set txs. set (tx_Inputs tx)"

lemma fold_spend1: "fold (spend1 by h) ops U op = (if op \<in> set ops then map_option (spend by h) (U op) else U op)"
proof (induction ops arbitrary: U)
  case (Cons x ops)
  have "spend by h (spend by h u) = spend by h u" for u by (simp add: spend_def)
  moreover have "spend1 by h x U op = (if op = x then map_option (spend by h) (U op) else U op)" for op
    by (simp add: spend1_def)
  ultimately show ?case by (auto simp: Cons option.map_comp comp_def)
qed simp

lemma fold_unspend1: "fold unspend1 ops U op = (if op \<in> set ops then map_option unspend (U op) else U op)"
proof (induction ops arbitrary: U)
  case (Cons x ops)
  have "unspend (unspend u) = unspend u" for u by (simp add: unspend_def)
  moreover have "unspend1 x U op = (if op = x then map_option unspend (U op) else U op)" for op
    by (simp add: unspend1_def)
  ultimately show ?case by (auto simp: Cons option.map_comp comp_def)
qed simp

lemma create1_apply: "create1 txid (i, out) U op = (if op = slot txid i then Some (new_utxo out) else U op)"
  by (simp add: create1_def slot_def)

lemma delete1_apply: "delete1 txid (i, out) U op = (if op = slot txid i then None else U op)"
  by (simp add: delete1_def slot_def)

lemma fold_create1_other:
  "op \<notin> slot txid ` {k..<k + length outs} \<Longrightarrow> fold (create1 txid) (enumerate k outs) U op = U op"
proof (induction outs arbitrary: k U)
  case (Cons out outs)
  have "{k..<k + length (out # outs)} = insert k {Suc k..<Suc k + length outs}" by auto
  with Cons.prems Cons.IH [of "Suc k"] show ?case by (simp add: create1_apply)
qed simp

lemma fold_create1_slot:
  "op \<in> slot txid ` {k..<k + length outs} \<Longrightarrow> \<exists>out. \<forall>U. fold (create1 txid) (enumerate k outs) U op = Some (new_utxo out)"
proof (induction outs arbitrary: k)
  case (Cons out outs)
  have iv: "{k..<k + length (out # outs)} = insert k {Suc k..<Suc k + length outs}" by auto
  show ?case
  proof (cases "op \<in> slot txid ` {Suc k..<Suc k + length outs}")
    case True
    from Cons.IH [OF this] show ?thesis by auto
  next
    case False
    with Cons.prems iv have "op = slot txid k" by auto
    with fold_create1_other [OF False] show ?thesis by (auto simp: create1_apply)
  qed
qed simp

lemma fold_delete1:
  "fold (delete1 txid) (enumerate k outs) U op =
     (if op \<in> slot txid ` {k..<k + length outs} then None else U op)"
proof (induction outs arbitrary: k U)
  case (Cons out outs)
  have "{k..<k + length (out # outs)} = insert k {Suc k..<Suc k + length outs}" by auto
  then show ?case by (auto simp: Cons delete1_apply)
qed simp

lemma tx_utxo_other:
  "op \<notin> created tx \<Longrightarrow> tx_utxo h tx U op =
     (if op \<in> set (tx_Inputs tx) then map_option (spend (tx_TxID tx) h) (U op) else U op)"
  by (simp add: tx_utxo_def created_def fold_create1_other fold_spend1)

lemma tx_utxo_created: "op \<in> created tx \<Longrightarrow> \<exists>out. \<forall>U. tx_utxo h tx U op = Some (new_utxo out)"
  using fold_create1_slot [of op "tx_TxID tx" 0 "tx_Outputs tx"] by (auto simp: tx_utxo_def created_def)

lemma undo_utxo: "undo_utxo tx U op =
     (if op \<in> created tx then None else if op \<in> set (tx_Inputs tx) then map_option unspend (U op) else U op)"
  by (simp add: undo_utxo_def created_def fold_delete1 fold_unspend1)

text \<open>The effect of a block on a record depends on that record alone.\<close>

lemma block_utxo_local: "U op = V op \<Longrightarrow> fold (tx_utxo h) txs U op = fold (tx_utxo h) txs V op"
proof (induction txs arbitrary: U V)
  case (Cons tx txs)
  have "tx_utxo h tx U op = tx_utxo h tx V op"
  proof (cases "op \<in> created tx")
    case True
    from tx_utxo_created [OF this, of h] show ?thesis by auto
  qed (simp add: tx_utxo_other Cons.prems)
  from Cons.IH [of "tx_utxo h tx U" "tx_utxo h tx V", OF this] show ?case by simp
qed simp

lemma unspend_simps [simp]: "unspend (spend x h u) = unspend u" "unspend (unspend u) = unspend u"
  by (simp_all add: spend_def unspend_def)

lemma tx_utxo_unspend:
  "op \<notin> created tx \<Longrightarrow> map_option unspend (tx_utxo h tx U op) = map_option unspend (U op)"
  by (cases "U op") (simp_all add: tx_utxo_other)

lemma block_utxo_unspend:
  "op \<notin> created_by txs \<Longrightarrow> map_option unspend (fold (tx_utxo h) txs U op) = map_option unspend (U op)"
proof (induction txs arbitrary: U)
  case (Cons tx txs)
  then have "op \<notin> created tx" "op \<notin> created_by txs" by auto
  then show ?case using Cons.IH [of "tx_utxo h tx U"] by (simp add: tx_utxo_unspend)
qed simp

lemma block_utxo_other:
  "op \<notin> created_by txs \<Longrightarrow> op \<notin> inputs_of txs \<Longrightarrow> fold (tx_utxo h) txs U op = U op"
proof (induction txs arbitrary: U)
  case (Cons tx txs)
  then have "op \<notin> created tx" "op \<notin> set (tx_Inputs tx)" "op \<notin> created_by txs" "op \<notin> inputs_of txs" by auto
  then show ?case using Cons.IH [of "tx_utxo h tx U"] by (simp add: tx_utxo_other)
qed simp

text \<open>A block spends at its own height only.\<close>

lemma block_utxo_height:
  assumes "\<forall>k\<in>S. \<not> spent_at k (U op)" and "h \<notin> S"
  shows "\<forall>k\<in>S. \<not> spent_at k (fold (tx_utxo h) txs U op)"
  using assms(1)
proof (induction txs arbitrary: U)
  case (Cons tx txs)
  have "\<forall>k\<in>S. \<not> spent_at k (tx_utxo h tx U op)"
  proof (cases "op \<in> created tx")
    case True
    from tx_utxo_created [OF this, of h] show ?thesis by (auto simp: spent_at_def new_utxo_def)
  next
    case False
    with Cons.prems assms(2) show ?thesis
      by (auto simp: tx_utxo_other spent_at_def spend_def split: option.splits)
  qed
  from Cons.IH [of "tx_utxo h tx U", OF this] show ?case by simp
qed simp

lemma undo_all:
  "fold undo_utxo txs U op =
     (if op \<in> created_by txs then None else if op \<in> inputs_of txs then map_option unspend (U op) else U op)"
proof (induction txs arbitrary: U)
  case (Cons tx txs)
  have "fold undo_utxo (tx # txs) U op = (if op \<in> created_by txs then None
      else if op \<in> inputs_of txs then map_option unspend (undo_utxo tx U op) else undo_utxo tx U op)"
    by (simp add: Cons.IH [of "undo_utxo tx U"])
  then show ?case
    by (cases "U op") (auto simp: undo_utxo [of tx U op])
qed simp

section \<open>Reorgs\<close>

text \<open>
  A block fits a set of outputs when it creates only new ones and the stored outputs it spends are
  unspent. \<open>fits_chain\<close> says it of each block of a chain, at the outputs the earlier blocks leave.
\<close>

definition block_utxo :: "Ingestor \<Rightarrow> Block \<Rightarrow> (Outpoint \<rightharpoonup> UTXO) \<Rightarrow> (Outpoint \<rightharpoonup> UTXO)" where
  "block_utxo inn b = fold (tx_utxo (bl_Height b)) (own_list inn b)"

definition fits :: "Ingestor \<Rightarrow> (Outpoint \<rightharpoonup> UTXO) \<Rightarrow> Block \<Rightarrow> bool" where
  "fits inn U b \<longleftrightarrow>
     (\<forall>tx \<in> set (own_list inn b). \<forall>op \<in> created tx. U op = None) \<and>
     (\<forall>tx \<in> set (own_list inn b). \<forall>op \<in> set (tx_Inputs tx). U op = map_option unspend (U op))"

fun fits_chain :: "Ingestor \<Rightarrow> (Outpoint \<rightharpoonup> UTXO) \<Rightarrow> Block list \<Rightarrow> bool" where
  "fits_chain inn U [] = True"
| "fits_chain inn U (b # bs) \<longleftrightarrow> fits inn U b \<and> fits_chain inn (block_utxo inn b U) bs"

definition evict_utxo :: "uint32 set \<Rightarrow> (Outpoint \<rightharpoonup> UTXO) \<Rightarrow> (Outpoint \<rightharpoonup> UTXO)" where
  "evict_utxo S U op = (if \<exists>h\<in>S. spent_at h (U op) then None else U op)"

lemma evict_utxo_evict_utxo: "evict_utxo S (evict_utxo T U) = evict_utxo (S \<union> T) U"
  by (auto simp: evict_utxo_def spent_at_def fun_eq_iff split: option.splits)

lemma undo_block_utxo:
  assumes "fits inn U b"
  shows "fold undo_utxo (own_list inn b) (block_utxo inn b U) = U"
proof
  fix op
  let ?txs = "own_list inn b"
  show "fold undo_utxo ?txs (block_utxo inn b U) op = U op"
  proof (cases "op \<in> created_by ?txs")
    case True
    with assms show ?thesis by (auto simp: undo_all fits_def)
  next
    case False
    show ?thesis
    proof (cases "op \<in> inputs_of ?txs")
      case True
      with assms have "U op = map_option unspend (U op)" by (auto simp: fits_def)
      with True False show ?thesis by (simp add: undo_all block_utxo_def block_utxo_unspend)
    next
      case False
      with \<open>op \<notin> created_by ?txs\<close> show ?thesis by (simp add: undo_all block_utxo_def block_utxo_other)
    qed
  qed
qed

lemma unspent_record: "r = map_option unspend r \<Longrightarrow> \<not> spent_at h r"
proof (cases r)
  case (Some u)
  assume "r = map_option unspend r"
  with Some have "u_Spent u = u_Spent (unspend u)" by simp
  then have "\<not> u_Spent u" by (simp add: unspend_def)
  with Some show ?thesis by (simp add: spent_at_def)
qed (simp add: spent_at_def)

lemma block_evict_commute:
  assumes "fits inn U b" and "bl_Height b \<notin> S"
  shows "evict_utxo S (block_utxo inn b U) = block_utxo inn b (evict_utxo S U)" and "fits inn (evict_utxo S U) b"
proof -
  let ?txs = "own_list inn b"
  have same: "\<forall>k\<in>S. \<not> spent_at k (U op)" if "op \<in> created_by ?txs \<union> inputs_of ?txs" for op
  proof -
    from that assms(1) have "U op = None \<or> U op = map_option unspend (U op)" by (auto simp: fits_def)
    then show ?thesis using unspent_record [of "U op"] by (auto simp: spent_at_def)
  qed
  then have keep: "evict_utxo S U op = U op" if "op \<in> created_by ?txs \<union> inputs_of ?txs" for op
    using that by (auto simp: evict_utxo_def)
  show "evict_utxo S (block_utxo inn b U) = block_utxo inn b (evict_utxo S U)"
  proof
    fix op
    show "evict_utxo S (block_utxo inn b U) op = block_utxo inn b (evict_utxo S U) op"
    proof (cases "op \<in> created_by ?txs \<union> inputs_of ?txs")
      case True
      from block_utxo_height [of S U op, OF same [OF True] assms(2), of ?txs]
      have "evict_utxo S (block_utxo inn b U) op = block_utxo inn b U op"
        by (simp add: evict_utxo_def block_utxo_def)
      also have "\<dots> = block_utxo inn b (evict_utxo S U) op"
        unfolding block_utxo_def by (rule block_utxo_local) (simp add: keep [OF True])
      finally show ?thesis .
    next
      case False
      then show ?thesis by (simp add: evict_utxo_def block_utxo_def block_utxo_other)
    qed
  qed
  show "fits inn (evict_utxo S U) b"
    unfolding fits_def
  proof (intro conjI ballI)
    fix tx op assume tx: "tx \<in> set ?txs"
    { assume "op \<in> created tx"
      with tx have "op \<in> created_by ?txs \<union> inputs_of ?txs" "U op = None" using assms(1) by (auto simp: fits_def)
      then show "evict_utxo S U op = None" by (simp add: keep) }
    { assume "op \<in> set (tx_Inputs tx)"
      with tx have "op \<in> created_by ?txs \<union> inputs_of ?txs" "U op = map_option unspend (U op)"
        using assms(1) by (auto simp: fits_def)
      then show "evict_utxo S U op = map_option unspend (evict_utxo S U op)" by (simp add: keep) }
  qed
qed

lemma fits_chain_evict:
  "fits_chain inn U bs \<Longrightarrow> \<forall>b\<in>set bs. bl_Height b \<notin> S \<Longrightarrow> fits_chain inn (evict_utxo S U) bs"
proof (induction bs arbitrary: U)
  case (Cons b bs)
  then have b: "fits inn U b" "bl_Height b \<notin> S" by simp_all
  from Cons.IH [of "block_utxo inn b U"] Cons.prems block_evict_commute [OF b] show ?case by simp
qed simp

text \<open>The utxo part of the effects on the reference store.\<close>

lemma fold_tx_effect_utxo:
  "fs_utxo (fold (tx_effect b) xs a) = fold (tx_utxo (bl_Height b)) (map (\<lambda>(si, li, tx). tx) xs) (fs_utxo a)"
  by (induction xs arbitrary: a) (auto simp: tx_effect_def)

lemma fold_subtree_frame:
  "fs_utxo (fold (\<lambda>sub a. a\<lparr>fs_subtree := (fs_subtree a)(su_Root sub \<mapsto> su_TxIDs sub)\<rparr>) xs a) = fs_utxo a"
  for a :: FlatStore
  by (induction xs arbitrary: a) simp_all

lemma block_effect_utxo: "fs_utxo (block_effect inn b a) = block_utxo inn b (fs_utxo a)"
  by (simp add: block_effect_def fold_tx_effect_utxo own_list block_utxo_def flat_ops_def flat_PutBlock_def
      fold_subtree_frame)

lemma undo_all_utxo: "fs_utxo (fold undo_tx txs a) = fold undo_utxo txs (fs_utxo a)"
  by (induction txs arbitrary: a) (simp_all add: undo_tx_def)

lemma evict_utxo: "fs_utxo (evict S I a) = evict_utxo S (fs_utxo a)"
  by (simp add: fun_eq_iff evict_sel evict_utxo_def)

fun ingest_all :: "'s store_ops \<Rightarrow> Ingestor \<Rightarrow> Block list \<Rightarrow> 's \<times> Pruner option \<Rightarrow> 's \<times> Pruner option" where
  "ingest_all ops inn [] sp = sp"
| "ingest_all ops inn (b # bs) sp = ingest_all ops inn bs (fst (IngestBlock ops inn b sp))"

fun rollback_all :: "'s store_ops \<Rightarrow> Ingestor \<Rightarrow> Block list \<Rightarrow> 's \<Rightarrow> 's" where
  "rollback_all ops inn [] s = s"
| "rollback_all ops inn (b # bs) s = rollback_all ops inn bs (fst (RollbackBlock ops inn b s))"

definition pruner_D :: "Pruner option \<Rightarrow> nat \<Rightarrow> bool" where
  "pruner_D p d = (case p of None \<Rightarrow> True | Some pr \<Rightarrow> unat (policy_D (pr_policy pr)) = d)"

lemma swept_old: "pruner_D p d \<Longrightarrow> k \<in> swept p h \<Longrightarrow> unat k + d \<le> unat h"
  by (auto simp: pruner_D_def swept_def due_def split: option.splits)

lemma pruner_D_ok: "pruner_D p d \<Longrightarrow> 0 < d \<Longrightarrow> pruner_ok p"
  by (auto simp: pruner_D_def pruner_ok_def split: option.splits)

lemma pruner_D_advance: "pruner_D p d \<Longrightarrow> advance p h p' \<Longrightarrow> pruner_D p' d"
  by (auto simp: pruner_D_def advance_def split: option.splits)

lemma ingest_all_flat:
  assumes "fits_chain inn (fs_utxo a) bs" and "pruner_D p d" and "R \<le> d"
    and "\<forall>b\<in>set bs. H < unat (bl_Height b) \<and> unat (bl_Height b) \<le> H + R"
    and "\<forall>b\<in>set bs. in_skipValidate inn \<or> validateBlock b = None"
  shows "\<exists>S. (\<forall>k\<in>S. unat k + d \<le> H + R) \<and>
    fs_utxo (fst (ingest_all flat_ops inn bs (a, p))) = fold (block_utxo inn) bs (evict_utxo S (fs_utxo a))"
  using assms
proof (induction bs arbitrary: a p)
  case Nil
  then show ?case by (intro exI [of _ "{}"]) (simp add: evict_utxo_def)
next
  case (Cons b bs)
  let ?h = "bl_Height b" and ?U = "fs_utxo a"
  have fit: "fits inn ?U b" and h: "H < unat ?h" "unat ?h \<le> H + R" and d: "0 < d" using Cons.prems by auto
  obtain p' st where i: "IngestBlock flat_ops inn b (a, p) = ((evict (swept p ?h) (swept_index p ?h) (block_effect inn b a), p'), st, None)"
    and adv: "advance p ?h p'"
    using ingest_block_flat [OF pruner_D_ok [OF Cons.prems(2) d], of inn b a] Cons.prems(5) by auto
  let ?a' = "evict (swept p ?h) (swept_index p ?h) (block_effect inn b a)"
  have old: "unat k + d \<le> H + R" if "k \<in> swept p ?h" for k
    using swept_old [OF Cons.prems(2) that] h by simp
  have later: "bl_Height b' \<notin> S" if "b' \<in> set (b # bs)" "\<forall>k\<in>S. unat k + d \<le> H + R" for b' S
    using Cons.prems(3,4) that by fastforce
  have U': "fs_utxo ?a' = evict_utxo (swept p ?h) (block_utxo inn b ?U)"
    by (simp add: evict_utxo block_effect_utxo)
  have "fits_chain inn (fs_utxo ?a') bs"
    unfolding U' using Cons.prems(1) later old by (intro fits_chain_evict) auto
  from Cons.IH [OF this pruner_D_advance [OF Cons.prems(2) adv] Cons.prems(3)] Cons.prems(4,5)
  obtain S where S: "\<forall>k\<in>S. unat k + d \<le> H + R"
    "fs_utxo (fst (ingest_all flat_ops inn bs (?a', p'))) = fold (block_utxo inn) bs (evict_utxo S (fs_utxo ?a'))" by auto
  have un: "\<forall>k\<in>S \<union> swept p ?h. unat k + d \<le> H + R" using S(1) old by auto
  have "evict_utxo S (fs_utxo ?a') = block_utxo inn b (evict_utxo (S \<union> swept p ?h) ?U)"
    unfolding U' evict_utxo_evict_utxo by (rule block_evict_commute [OF fit later [OF _ un]]) simp
  with S(2) un show ?case by (intro exI [of _ "S \<union> swept p ?h"]) (simp add: i)
qed

lemma fits_chain_snoc:
  "fits_chain inn U (bs @ [b]) \<longleftrightarrow> fits_chain inn U bs \<and> fits inn (fold (block_utxo inn) bs U) b"
  by (induction bs arbitrary: U) simp_all

lemma rollback_all_flat:
  "fits_chain inn V bs \<Longrightarrow> fs_utxo a = fold (block_utxo inn) bs V \<Longrightarrow>
   fs_utxo (rollback_all flat_ops inn (rev bs) a) = V"
proof (induction bs arbitrary: a rule: rev_induct)
  case (snoc b bs)
  then have f: "fits_chain inn V bs" "fits inn (fold (block_utxo inn) bs V) b" by (simp_all add: fits_chain_snoc)
  have "fs_utxo (fst (RollbackBlock flat_ops inn b a)) = fold (block_utxo inn) bs V"
    using snoc.prems(2) undo_block_utxo [OF f(2)] by (simp add: rollback_block_flat undo_all_utxo)
  from snoc.IH [OF f(1) this] show ?case by simp
qed simp

context store_backend
begin

lemma ingest_all_sim:
  assumes "iv s"
  shows "iv (fst (ingest_all ops inn bs (s, p))) \<and>
    ingest_all flat_ops inn bs (af s, p) = (af (fst (ingest_all ops inn bs (s, p))), snd (ingest_all ops inn bs (s, p)))"
  using assms
proof (induction bs arbitrary: s p)
  case (Cons b bs)
  obtain s1 p1 st e where m: "IngestBlock ops inn b (s, p) = ((s1, p1), st, e)" by (metis prod.exhaust)
  note sim = ingest_block_sim [OF Cons.prems m]
  from Cons.IH [OF sim(1), of p1] sim(2) show ?case by (simp add: m)
qed simp

lemma rollback_all_sim:
  assumes "iv s"
  shows "iv (rollback_all ops inn bs s) \<and> rollback_all flat_ops inn bs (af s) = af (rollback_all ops inn bs s)"
  using assms
proof (induction bs arbitrary: s)
  case (Cons b bs)
  obtain s1 r where m: "RollbackBlock ops inn b s = (s1, r)" by (cases "RollbackBlock ops inn b s")
  from implementsD [OF rollback_block_sim Cons.prems m] Cons.IH [of s1] show ?case by (simp add: m)
qed simp

end

text \<open>
  C3. The reorg horizon is survived. A memory store whose pruner keeps at least \<open>R\<close> blocks (depth
  \<open>d \<ge> R\<close>) ingests a chain of blocks at heights up to \<open>R\<close> above some height \<open>H\<close>, pruning after each
  one, and then rolls them all back, newest first. Every output then answers as before the reorg,
  except that a spend at height \<open>k\<close> with \<open>k + d \<le> H + R\<close> may have been evicted: an output that was
  unspent, or spent within the horizon, is restored exactly. The blocks need only create new outputs
  and spend unspent ones.
\<close>

theorem reorg_restores_utxo:
  assumes "mem_inv s" and "fits_chain inn (utxo_of s) bs" and "pruner_D p d" and "R \<le> d"
    and "\<forall>b\<in>set bs. H < unat (bl_Height b) \<and> unat (bl_Height b) \<le> H + R"
    and "\<forall>b\<in>set bs. in_skipValidate inn \<or> validateBlock b = None"
  shows "utxo_of (rollback_all mem_ops inn (rev bs) (fst (ingest_all mem_ops inn bs (s, p)))) op = utxo_of s op \<or>
    (\<exists>u. utxo_of s op = Some u \<and> u_Spent u \<and> unat (u_SpentHeight u) + d \<le> H + R)"
proof -
  let ?s1 = "fst (ingest_all mem_ops inn bs (s, p))"
  have U: "utxo_of s = fs_utxo (mem_abs s)" for s by (rule ext) (rule utxo_of_abs)
  from ingest_all_flat [OF assms(2) [unfolded U] assms(3-6)] obtain S where
    S: "\<forall>k\<in>S. unat k + d \<le> H + R"
    "fs_utxo (fst (ingest_all flat_ops inn bs (mem_abs s, p))) = fold (block_utxo inn) bs (evict_utxo S (fs_utxo (mem_abs s)))"
    by blast
  note sim1 = mem.ingest_all_sim [OF assms(1), of inn bs p]
  have s1: "fs_utxo (mem_abs ?s1) = fold (block_utxo inn) bs (evict_utxo S (fs_utxo (mem_abs s)))"
    using S(2) sim1 by simp
  have "fits_chain inn (evict_utxo S (fs_utxo (mem_abs s))) bs"
    using assms(2,4,5) S(1) unfolding U by (intro fits_chain_evict) fastforce+
  from rollback_all_flat [OF this s1] mem.rollback_all_sim [of ?s1 inn "rev bs"] sim1
  have "fs_utxo (mem_abs (rollback_all mem_ops inn (rev bs) ?s1)) = evict_utxo S (fs_utxo (mem_abs s))" by simp
  then have "utxo_of (rollback_all mem_ops inn (rev bs) ?s1) op = evict_utxo S (fs_utxo (mem_abs s)) op"
    by (simp add: utxo_of_abs)
  then show ?thesis
    using S(1) by (auto simp: evict_utxo_def utxo_of_abs spent_at_def split: option.splits if_splits)
qed

definition ex_tx :: Tx where
  "ex_tx = \<lparr>tx_TxID = copy_from [9], tx_Inputs = [ex_op], tx_Outputs = [\<lparr>to_Value = 3, to_ScriptHash = copy_from []\<rparr>]\<rparr>"

definition ex_block :: Block where
  "ex_block = \<lparr>bl_Hash = copy_from [7], bl_Height = 5, bl_Time = 0, bl_MerkleRoot = copy_from [], bl_SubtreeRoots = [copy_from []],
     bl_Header = copy_from [], bl_Subtrees = [\<lparr>su_Root = copy_from [], su_TxIDs = [copy_from [9]], su_Txs = [ex_tx]\<rparr>]\<rparr>"

definition ex_live :: MemStore where
  "ex_live = fst (mem_PutUTXO ex_op (unspend ex_utxo) New)"

definition ex_trusting :: Ingestor where
  "ex_trusting = \<lparr>in_k = 0, in_id = 0, in_skipValidate = True\<rparr>"

lemma ex_live_inv: "mem_inv ex_live"
  using mem_put_utxo mem_inv_New by (auto simp: ex_live_def implements_def)

lemma ex_live_utxo: "utxo_of ex_live op = (if op = ex_op then Some (unspend ex_utxo) else None)"
  by (simp add: ex_live_def mem_PutUTXO_def mem_GetUTXO_def Let_def set_stripe_def New_def newStripe_def
      ex_utxo_def unspend_def)

lemma ex_own_list: "own_list ex_trusting ex_block = [ex_tx]"
  by (simp add: own_list_def ex_block_def ex_trusting_def owns_def)

lemma ex_fits: "fits ex_trusting (utxo_of ex_live) ex_block"
  by (simp add: fits_def ex_own_list ex_live_utxo created_def slot_def ex_tx_def) (simp add: ex_op_def)

theorem reorg_restores_utxo_witness:
  "utxo_of (rollback_all mem_ops ex_trusting [ex_block]
     (fst (ingest_all mem_ops ex_trusting [ex_block] (ex_live, Some (NewPruner RecommendedPolicy))))) ex_op = Some (unspend ex_utxo)"
  using reorg_restores_utxo [of ex_live ex_trusting "[ex_block]" "Some (NewPruner RecommendedPolicy)" 30 1 4 ex_op]
    ex_live_inv ex_fits
  by (simp add: ex_live_utxo pruner_D_def ex_prune_defs ex_block_def ex_trusting_def unspend_def)

section \<open>What ingest makes servable\<close>

lemma fold_tx_effect_frame:
  "fs_subtree (fold (tx_effect b) xs a) = fs_subtree a" "fs_blocks (fold (tx_effect b) xs a) = fs_blocks a"
  by (induction xs arbitrary: a) (simp_all add: tx_effect_def flat_PutTxIndex_def split: prod.split)

lemma fold_tx_effect_index:
  "txid \<in> (\<lambda>(si, li, tx). tx_TxID tx) ` set xs \<Longrightarrow>
   \<exists>(si, li, tx)\<in>set xs. tx_TxID tx = txid \<and> fs_txindex (fold (tx_effect b) xs a) txid = Some (tx_index b si li)"
proof (induction xs arbitrary: a rule: rev_induct)
  case (snoc x xs)
  obtain si li tx where x: "x = (si, li, tx)" by (metis prod.exhaust)
  show ?case
  proof (cases "tx_TxID tx = txid")
    case True
    then show ?thesis by (auto simp: x tx_effect_def flat_PutTxIndex_def)
  next
    case False
    with snoc.prems have "txid \<in> (\<lambda>(si, li, tx). tx_TxID tx) ` set xs" by (auto simp: x)
    from snoc.IH [OF this, of a] False show ?thesis by (fastforce simp: x tx_effect_def flat_PutTxIndex_def)
  qed
qed simp

lemma fold_put_subtree:
  assumes "sub \<in> set xs" and "distinct (map su_Root xs)"
  shows "fs_subtree (fold (\<lambda>sub a. a\<lparr>fs_subtree := (fs_subtree a)(su_Root sub \<mapsto> su_TxIDs sub)\<rparr>) xs a) (su_Root sub) = Some (su_TxIDs sub)"
  using assms
proof (induction xs arbitrary: a rule: rev_induct)
  case (snoc x xs)
  show ?case
  proof (cases "sub = x")
    case False
    with snoc.prems have "sub \<in> set xs" by simp
    then have "su_Root sub \<in> su_Root ` set xs" by (rule imageI)
    with snoc.prems have "su_Root sub \<noteq> su_Root x" by auto
    with snoc \<open>sub \<in> set xs\<close> show ?thesis by simp
  qed simp
qed simp

lemma block_txs_mem:
  "(si, li, tx) \<in> set (block_txs b) \<longleftrightarrow>
   si < length (bl_Subtrees b) \<and> li < length (su_Txs (bl_Subtrees b ! si)) \<and> tx = su_Txs (bl_Subtrees b ! si) ! li"
  by (auto simp: block_txs_def in_set_enumerate_eq image_iff)

lemma validate_nth:
  "validate_subtrees subs rs \<Longrightarrow> length subs = length rs \<Longrightarrow> i < length subs \<Longrightarrow>
   MerkleRoot (su_TxIDs (subs ! i)) = Inr (rs ! i) \<and> su_Root (subs ! i) = rs ! i"
proof (induction subs rs arbitrary: i rule: validate_subtrees.induct)
  case (1 sub subs r rs)
  then show ?case by (cases i) (auto split: sum.splits if_splits)
qed auto

lemma validateBlock_sound:
  assumes "validateBlock b = None"
  shows "length (bl_Subtrees b) = length (bl_SubtreeRoots b)" and "map su_Root (bl_Subtrees b) = bl_SubtreeRoots b"
    and "i < length (bl_Subtrees b) \<Longrightarrow> MerkleRoot (su_TxIDs (bl_Subtrees b ! i)) = Inr (bl_SubtreeRoots b ! i)"
    and "MerkleRoot (bl_SubtreeRoots b) = Inr (bl_MerkleRoot b)" and "HeaderMerkleRoot (bl_Header b) = bl_MerkleRoot b"
proof -
  have *: "length (bl_Subtrees b) = length (bl_SubtreeRoots b)" "validate_subtrees (bl_Subtrees b) (bl_SubtreeRoots b)"
    "MerkleRoot (bl_SubtreeRoots b) = Inr (bl_MerkleRoot b)" "HeaderMerkleRoot (bl_Header b) = bl_MerkleRoot b"
    using assms by (auto simp: validateBlock_def split: if_splits sum.splits)
  then show "length (bl_Subtrees b) = length (bl_SubtreeRoots b)"
    "MerkleRoot (bl_SubtreeRoots b) = Inr (bl_MerkleRoot b)" "HeaderMerkleRoot (bl_Header b) = bl_MerkleRoot b" by simp_all
  note nth = validate_nth [OF *(2,1)]
  show "i < length (bl_Subtrees b) \<Longrightarrow> MerkleRoot (su_TxIDs (bl_Subtrees b ! i)) = Inr (bl_SubtreeRoots b ! i)"
    using nth by simp
  show "map su_Root (bl_Subtrees b) = bl_SubtreeRoots b"
    using nth *(1) by (simp add: list_eq_iff_nth_eq)
qed

lemma block_effect_blocks: "fs_blocks (block_effect inn b a) (bl_Hash b) = Some (block_rec b)"
  by (simp add: block_effect_def fold_tx_effect_frame flat_ops_def flat_PutBlock_def block_rec_def)

lemma block_effect_subtree:
  assumes "sub \<in> set (bl_Subtrees b)" and "ownAny inn sub" and "distinct (map su_Root (bl_Subtrees b))"
  shows "fs_subtree (block_effect inn b a) (su_Root sub) = Some (su_TxIDs sub)"
proof -
  have "distinct (map su_Root (filter (ownAny inn) (bl_Subtrees b)))"
    using assms(3) by (rule distinct_map_filter)
  from fold_put_subtree [OF _ this, of sub a] assms(1,2) show ?thesis
    by (simp add: block_effect_def fold_tx_effect_frame flat_ops_def flat_PutBlock_def)
qed

lemma block_effect_provable:
  assumes v: "validateBlock b = None" and par: "\<forall>sub\<in>set (bl_Subtrees b). map tx_TxID (su_Txs sub) = su_TxIDs sub"
    and dist: "distinct (bl_SubtreeRoots b)"
    and sizes: "\<forall>sub\<in>set (bl_Subtrees b). length (su_TxIDs sub) \<le> 2 ^ 20" "length (bl_Subtrees b) \<le> 2 ^ 32"
    and mem: "txid \<in> set (concat (map su_TxIDs (bl_Subtrees b)))" and own: "owns inn txid"
  shows "\<exists>si li leaves. provable (block_effect inn b a) txid (tx_index b si li) (block_rec b) leaves"
proof -
  from mem par obtain i j where "i < length (bl_Subtrees b)" "j < length (su_Txs (bl_Subtrees b ! i))"
    "tx_TxID (su_Txs (bl_Subtrees b ! i) ! j) = txid"
    by (auto simp: in_set_conv_nth) (metis length_map nth_map nth_mem)
  then have "(i, j, su_Txs (bl_Subtrees b ! i) ! j) \<in> set (owned_txs inn b)"
    using own by (simp add: owned_txs_def block_txs_mem)
  then have "txid \<in> (\<lambda>(si, li, tx). tx_TxID tx) ` set (owned_txs inn b)"
    using \<open>tx_TxID _ = txid\<close> by force
  from fold_tx_effect_index [OF this] obtain si li tx where t: "(si, li, tx) \<in> set (owned_txs inn b)" "tx_TxID tx = txid"
    and ix: "fs_txindex (block_effect inn b a) txid = Some (tx_index b si li)"
    by (fastforce simp: block_effect_def)
  let ?sub = "bl_Subtrees b ! si"
  from t have si: "si < length (bl_Subtrees b)" and li: "li < length (su_Txs ?sub)" and tx: "tx = su_Txs ?sub ! li"
    by (simp_all add: owned_txs_def block_txs_mem)
  have ids: "map tx_TxID (su_Txs ?sub) = su_TxIDs ?sub" "length (su_TxIDs ?sub) \<le> 2 ^ 20" using par sizes si by simp_all
  then have leaf: "li < length (su_TxIDs ?sub)" "su_TxIDs ?sub ! li = txid"
    using li t(2) tx by (metis length_map, metis nth_map)
  from leaf have "txid \<in> set (su_TxIDs ?sub)" by (metis nth_mem)
  with own have ownA: "ownAny inn ?sub" by (auto simp: ownAny_def list_ex_iff)
  note vs = validateBlock_sound [OF v]
  have "su_Root ?sub = bl_SubtreeRoots b ! si" using si vs(2) by (metis nth_map)
  with block_effect_subtree [OF nth_mem [OF si] ownA, of a] dist vs(2)
  have sub: "fs_subtree (block_effect inn b a) (bl_SubtreeRoots b ! si) = Some (su_TxIDs ?sub)" by simp
  have idx: "unat (of_nat si :: uint32) = si" "unat (of_nat li :: uint32) = li"
    using si li sizes(2) leaf(1) ids(2) by (simp_all add: unat_of_nat)
  have "provable (block_effect inn b a) txid (tx_index b si li) (block_rec b) (su_TxIDs ?sub)"
    using vs(1) vs(3) [OF si] vs(4) si sub ix leaf ids sizes(2) idx block_effect_blocks [of inn b a]
    by (simp add: provable_def tx_index_def block_rec_def)
  then show ?thesis by blast
qed

lemma provable_evict: "provable (evict S {} a) = provable a"
  by (simp add: fun_eq_iff provable_def evict_sel listed_def restrict_map_def)

text \<open>
  A block of which the shard can serve \<open>txid\<close>: it passes validation, is well formed in what
  validation does not check (transactions parallel to txids, distinct subtree roots, sizes within a
  subtree's 2^20 leaves), and has the transaction, which the shard owns.
\<close>

definition serves :: "Ingestor \<Rightarrow> Block \<Rightarrow> hash \<Rightarrow> bool" where
  "serves inn b txid \<longleftrightarrow>
     validateBlock b = None \<and> (\<forall>sub\<in>set (bl_Subtrees b). map tx_TxID (su_Txs sub) = su_TxIDs sub) \<and>
     distinct (bl_SubtreeRoots b) \<and> (\<forall>sub\<in>set (bl_Subtrees b). length (su_TxIDs sub) \<le> 2 ^ 20) \<and>
     length (bl_Subtrees b) \<le> 2 ^ 32 \<and> txid \<in> set (concat (map su_TxIDs (bl_Subtrees b))) \<and> owns inn txid"

definition keeps_index :: "Pruner option \<Rightarrow> bool" where
  "keeps_index p \<longleftrightarrow> (case p of None \<Rightarrow> True | Some pr \<Rightarrow> po_IndexRetention (pr_policy pr) = 0)"

lemma ingest_provable:
  assumes "mem_inv s" and "pruner_ok p" and "keeps_index p"
    and "IngestBlock mem_ops inn b (s, p) = ((s', p'), st, e)" and "serves inn b txid"
  shows "e = None \<and> mem_inv s' \<and>
    (\<exists>si li leaves. provable (mem_abs s') txid (tx_index b si li) (block_rec b) leaves)"
proof -
  note sim = mem.ingest_block_sim [OF assms(1,4)]
  have v: "validateBlock b = None" using assms(5) by (simp add: serves_def)
  have "swept_index p (bl_Height b) = {}"
    using assms(3) by (auto simp: keeps_index_def swept_index_def due_index_def split: option.splits)
  with ingest_block_flat [OF assms(2), of inn b "mem_abs s"] v sim(2)
  have e: "e = None" and a': "mem_abs s' = evict (swept p (bl_Height b)) {} (block_effect inn b (mem_abs s))" by auto
  have "\<exists>si li leaves. provable (mem_abs s') txid (tx_index b si li) (block_rec b) leaves"
    unfolding a' provable_evict by (rule block_effect_provable) (use assms(5) in \<open>auto simp: serves_def\<close>)
  with e sim(1) show ?thesis by blast
qed

lemma build_mem:
  assumes "mem_inv s" and "provable (mem_abs s) txid (tx_index b si li) (block_rec b) leaves"
  shows "\<exists>pf. snd (Build mem_ops txid s) = Inr pf \<and> Verify pf \<and> pf_Leaf pf = txid \<and> pf_BlockRoot pf = bl_MerkleRoot b \<and>
    pf_BlockHash pf = bl_Hash b \<and> pf_Height pf = bl_Height b \<and> pf_Header pf = bl_Header b"
proof -
  from build_provable [OF assms(2)] obtain pf where pf: "Build flat_ops txid (mem_abs s) = (mem_abs s, Inr pf)"
    "Verify pf" "pf_Leaf pf = txid" "pf_BlockRoot pf = bl_MerkleRoot b" "pf_BlockHash pf = bl_Hash b"
    "pf_Height pf = bl_Height b" "pf_Header pf = bl_Header b"
    by (auto simp: block_rec_def tx_index_def)
  obtain s2 r where m: "Build mem_ops txid s = (s2, r)" by (cases "Build mem_ops txid s")
  from implementsD(2) [OF mem.build_sim assms(1) m] pf(1) have "r = Inr pf" by simp
  then show ?thesis using pf(2-) m by simp
qed

text \<open>
  C5. Ingest to proof: after a validated block is ingested into a memory store (un-sharded, or a shard
  that owns the transaction), with or without a pruner that keeps index data, the store serves an
  inclusion proof for every transaction of the block. The proof verifies, starts at the txid, ends
  at the root committed in the block's header, and names the block's hash and height. The block must
  be well formed in what validation does not check: transactions parallel to txids, distinct subtree
  roots, and sizes within a subtree's 2^20 leaves.
\<close>

theorem ingest_then_prove:
  assumes "mem_inv s" and "pruner_ok p" and "\<forall>pr. p = Some pr \<longrightarrow> po_IndexRetention (pr_policy pr) = 0"
    and "IngestBlock mem_ops inn b (s, p) = ((s', p'), st, e)" and "validateBlock b = None"
    and "\<forall>sub\<in>set (bl_Subtrees b). map tx_TxID (su_Txs sub) = su_TxIDs sub" and "distinct (bl_SubtreeRoots b)"
    and "\<forall>sub\<in>set (bl_Subtrees b). length (su_TxIDs sub) \<le> 2 ^ 20" and "length (bl_Subtrees b) \<le> 2 ^ 32"
    and "txid \<in> set (concat (map su_TxIDs (bl_Subtrees b)))" and "owns inn txid"
  shows "e = None \<and> (\<exists>pf. snd (Build mem_ops txid s') = Inr pf \<and> Verify pf \<and> pf_Leaf pf = txid \<and>
    pf_BlockRoot pf = HeaderMerkleRoot (pf_Header pf) \<and> pf_Header pf = bl_Header b \<and>
    pf_BlockHash pf = bl_Hash b \<and> pf_Height pf = bl_Height b)"
proof -
  have "keeps_index p" using assms(3) by (simp add: keeps_index_def split: option.split)
  moreover have "serves inn b txid" using assms(5-11) by (simp add: serves_def)
  ultimately have i: "e = None" "mem_inv s'" "\<exists>si li leaves. provable (mem_abs s') txid (tx_index b si li) (block_rec b) leaves"
    using ingest_provable [OF assms(1,2) _ assms(4)] by blast+
  then obtain si li leaves where "provable (mem_abs s') txid (tx_index b si li) (block_rec b) leaves" by blast
  from i(1) build_mem [OF i(2) this] validateBlock_sound(5) [OF assms(5)] show ?thesis by auto
qed

definition ex_valid :: Block where
  "ex_valid = \<lparr>bl_Hash = copy_from [7], bl_Height = 5, bl_Time = 0, bl_MerkleRoot = copy_from [9], bl_SubtreeRoots = [copy_from [9]],
     bl_Header = buildHeader 5 0 (copy_from [9]),
     bl_Subtrees = [\<lparr>su_Root = copy_from [9], su_TxIDs = [copy_from [9]], su_Txs = [ex_tx]\<rparr>]\<rparr>"

lemma HeaderMerkleRoot_buildHeader: "HeaderMerkleRoot (buildHeader h t root) = root"
  by (rule HeaderMerkleRoot_slice) (rule slice_buildHeader)

lemma MerkleRoot_single: "MerkleRoot [x] = Inr x"
  by (simp add: MerkleRoot_Inr build_layers.simps)

lemma ex_valid: "validateBlock ex_valid = None"
  by (simp add: validateBlock_def ex_valid_def MerkleRoot_single HeaderMerkleRoot_buildHeader)

theorem ingest_then_prove_witness:
  "let r = IngestBlock mem_ops \<lparr>in_k = 0, in_id = 0, in_skipValidate = False\<rparr> ex_valid (New, Some (NewPruner RecommendedPolicy))
   in \<exists>pf. snd (Build mem_ops (copy_from [9]) (fst (fst r))) = Inr pf \<and> Verify pf \<and> pf_Leaf pf = copy_from [9] \<and> pf_Height pf = 5"
proof -
  let ?r = "IngestBlock mem_ops \<lparr>in_k = 0, in_id = 0, in_skipValidate = False\<rparr> ex_valid (New, Some (NewPruner RecommendedPolicy))"
  show ?thesis
    using ingest_then_prove [of New "Some (NewPruner RecommendedPolicy)" "\<lparr>in_k = 0, in_id = 0, in_skipValidate = False\<rparr>" ex_valid
        "fst (fst ?r)" "snd (fst ?r)" "fst (snd ?r)" "snd (snd ?r)" "copy_from [9]"] mem_inv_New ex_valid
    by (auto simp: pruner_ok_def ex_prune_defs ex_valid_def ex_tx_def owns_def)
qed

text \<open>
  C20. Validation is complete and failure is clean: an ingestor that validates accepts a block exactly
  when every subtree's txids hash to its claimed root and to the root listed for it, the listed
  roots hash to the block root, and the header commits to that root. Otherwise it reports
  \<open>ErrInvalidBlock\<close> and neither the store nor the pruner changes.
\<close>

theorem ingest_accepts_iff:
  assumes "mem_inv s" and "pruner_ok p" and "\<not> in_skipValidate inn"
    and "IngestBlock mem_ops inn b (s, p) = (sp', st, e)"
  shows "if length (bl_Subtrees b) = length (bl_SubtreeRoots b) \<and>
      (\<forall>i < length (bl_Subtrees b). MerkleRoot (su_TxIDs (bl_Subtrees b ! i)) = Inr (bl_SubtreeRoots b ! i) \<and>
         su_Root (bl_Subtrees b ! i) = bl_SubtreeRoots b ! i) \<and>
      MerkleRoot (bl_SubtreeRoots b) = Inr (bl_MerkleRoot b) \<and> HeaderMerkleRoot (bl_Header b) = bl_MerkleRoot b
    then e = None \<and> is_Blocks st = 1 else sp' = (s, p) \<and> st = zeroStats \<and> e = Some ErrInvalidBlock"
proof -
  have complete: "validate_subtrees subs rs" if "length subs = length rs"
    "\<forall>i < length subs. MerkleRoot (su_TxIDs (subs ! i)) = Inr (rs ! i) \<and> su_Root (subs ! i) = rs ! i" for subs rs
    using that
  proof (induction subs rs rule: validate_subtrees.induct)
    case (1 sub subs r rs)
    from "1.prems"(2) have "MerkleRoot (su_TxIDs sub) = Inr r \<and> su_Root sub = r" by (auto dest: spec [of _ 0])
    moreover have "\<forall>i < length subs. MerkleRoot (su_TxIDs (subs ! i)) = Inr (rs ! i) \<and> su_Root (subs ! i) = rs ! i"
      using "1.prems"(2) by auto
    ultimately show ?case using 1 by auto
  qed auto
  have errs: "validateBlock b = None \<or> validateBlock b = Some ErrInvalidBlock"
    by (auto simp: validateBlock_def split: sum.splits)
  obtain s' p' where sp': "sp' = (s', p')" by (cases sp')
  show ?thesis
  proof (cases "validateBlock b = None")
    case True
    from mem.ingest_block_sim [OF assms(1)] assms(4) sp'
    have "IngestBlock flat_ops inn b (mem_abs s, p) = ((mem_abs s', p'), st, e)" by blast
    with ingest_block_flat [OF assms(2), of inn b "mem_abs s"] True have "e = None \<and> is_Blocks st = 1" by auto
    then show ?thesis using validateBlock_sound [OF True] by (auto simp: list_eq_iff_nth_eq)
  next
    case False
    then have "sp' = (s, p) \<and> st = zeroStats \<and> e = Some ErrInvalidBlock"
      using errs assms(3,4) by (auto simp: IngestBlock_def)
    moreover have "\<not> (length (bl_Subtrees b) = length (bl_SubtreeRoots b) \<and>
      (\<forall>i < length (bl_Subtrees b). MerkleRoot (su_TxIDs (bl_Subtrees b ! i)) = Inr (bl_SubtreeRoots b ! i) \<and>
         su_Root (bl_Subtrees b ! i) = bl_SubtreeRoots b ! i) \<and>
      MerkleRoot (bl_SubtreeRoots b) = Inr (bl_MerkleRoot b) \<and> HeaderMerkleRoot (bl_Header b) = bl_MerkleRoot b)"
      using False complete [of "bl_Subtrees b" "bl_SubtreeRoots b"] by (auto simp: validateBlock_def)
    ultimately show ?thesis by auto
  qed
qed

theorem ingest_accepts_iff_witness:
  "let r = IngestBlock mem_ops \<lparr>in_k = 0, in_id = 0, in_skipValidate = False\<rparr> ex_block (New, None)
   in fst r = (New, None) \<and> snd (snd r) = Some ErrInvalidBlock"
proof -
  let ?r = "IngestBlock mem_ops \<lparr>in_k = 0, in_id = 0, in_skipValidate = False\<rparr> ex_block (New, None)"
  have "copy_from [9] \<noteq> (copy_from [] :: hash)"
  proof
    assume "copy_from [9] = (copy_from [] :: hash)"
    then have "slice (copy_from [9] :: hash) ! 0 = slice (copy_from [] :: hash) ! 0" by simp
    then show False by (simp add: slice_copy_from)
  qed
  moreover have "bl_Subtrees ex_block = [\<lparr>su_Root = copy_from [], su_TxIDs = [copy_from [9]], su_Txs = [ex_tx]\<rparr>]"
    "bl_SubtreeRoots ex_block = [copy_from []]"
    by (simp_all add: ex_block_def)
  ultimately show ?thesis
    using ingest_accepts_iff [of New None "\<lparr>in_k = 0, in_id = 0, in_skipValidate = False\<rparr>" ex_block "fst ?r" "fst (snd ?r)" "snd (snd ?r)"]
      mem_inv_New
    by (simp add: pruner_ok_def MerkleRoot_single Let_def)
qed

section \<open>Draining the mock source\<close>

lemma mock_block_valid:
  assumes "mock_Next m = (m', Inr (Some b))" and "0 < mc_SubtreesPer (mk_cfg m)" and "0 < mc_TxsPerSubtree (mk_cfg m)"
  shows "validateBlock b = None"
proof -
  define n where "n = (if 0 < mc_SpendFraction (mk_cfg m) \<and> mk_live m \<noteq> []
     then nat (int (length (mk_live m)) div mc_SpendFraction (mk_cfg m)) else 0)"
  obtain m1 subs where s: "mock_subtrees (m\<lparr>mk_live := drop n (mk_live m)\<rparr>) (mk_height m) (take n (mk_live m)) 0 0
      (nat (mc_SubtreesPer (mk_cfg m))) = (m1, subs)"
    by (metis prod.exhaust)
  have b: "bl_Subtrees b = subs" "bl_SubtreeRoots b = map su_Root subs" "bl_MerkleRoot b = root_or_zero (map su_Root subs)"
    "HeaderMerkleRoot (bl_Header b) = root_or_zero (map su_Root subs)"
    using assms(1) s by (auto simp: mock_Next_def Let_def n_def HeaderMerkleRoot_buildHeader split: if_splits)
  from mock_subtrees_frame [OF s] assms(2,3) have "subs \<noteq> []" and
    sub: "\<forall>sub\<in>set subs. MerkleRoot (su_TxIDs sub) = Inr (su_Root sub)"
    by (auto intro!: root_or_zero)
  from sub have "validate_subtrees subs (map su_Root subs)"
    by (induction subs) simp_all
  with \<open>subs \<noteq> []\<close> show ?thesis by (simp add: validateBlock_def b root_or_zero)
qed

lemma mock_Next_some: "mk_made m < mc_Blocks (mk_cfg m) \<Longrightarrow> \<exists>m' b. mock_Next m = (m', Inr (Some b))"
  by (auto simp: mock_Next_def Let_def split: prod.split)

context store_backend
begin

lemma run_mock:
  assumes "iv s" and "pruner_D p d" and "0 < d" and "0 < mc_SubtreesPer (mk_cfg m)" and "0 < mc_TxsPerSubtree (mk_cfg m)"
  shows "\<exists>m' s' p' st. Run ops inn mock_Next m (s, p) tot = Some ((m', s', p'), st, None) \<and> iv s' \<and>
     is_Blocks st = is_Blocks tot + nat (mc_Blocks (mk_cfg m) - mk_made m)"
  using assms
proof (induction "nat (mc_Blocks (mk_cfg m) - mk_made m)" arbitrary: m s p tot)
  case 0
  then show ?case by (subst Run.simps) (simp add: mock_Next_def)
next
  case (Suc k)
  then have "mk_made m < mc_Blocks (mk_cfg m)" by simp
  then obtain m1 b where nx: "mock_Next m = (m1, Inr (Some b))" using mock_Next_some by blast
  note fr = mock_Next_frame [OF nx]
  have v: "validateBlock b = None" using mock_block_valid [OF nx] Suc.prems by simp
  obtain s1 p1 st1 e1 where i: "IngestBlock ops inn b (s, p) = ((s1, p1), st1, e1)" by (metis prod.exhaust)
  note sim = ingest_block_sim [OF Suc.prems(1) i]
  from ingest_block_flat [OF pruner_D_ok [OF Suc.prems(2,3)], of inn b "af s"] v sim(2)
  have e: "e1 = None" and adv: "advance p (bl_Height b) p1" and one: "is_Blocks st1 = 1" by auto
  have k: "k = nat (mc_Blocks (mk_cfg m1) - mk_made m1)" using Suc.hyps(2) fr by simp
  from Suc.hyps(1) [OF k sim(1) pruner_D_advance [OF Suc.prems(2) adv] Suc.prems(3), of "add_stats tot st1"] Suc.prems(4,5) fr
  obtain m' s' p' st where "Run ops inn mock_Next m1 (s1, p1) (add_stats tot st1) = Some ((m', s', p'), st, None)" "iv s'"
    "is_Blocks st = is_Blocks tot + 1 + k"
    using one k by (auto simp: add_stats_def)
  then show ?case using Suc.hyps(2) by (subst Run.simps) (simp add: nx i e)
qed

end

text \<open>
  Draining the mock source ends: whatever the configuration, \<open>Run\<close> over a memory store returns, without
  an error, after ingesting as many blocks as the configuration asks for (at least one). Every block
  the mock source builds passes validation.
\<close>

theorem run_mock_returns:
  assumes "mem_inv s" and "pruner_D p d" and "0 < d"
  shows "\<exists>m' s' p' st. Run mem_ops inn (so_Next MockSrc) (NewMock cfg) (s, p) zeroStats = Some ((m', s', p'), st, None) \<and>
    is_Blocks st = nat (max 1 (mc_Blocks cfg)) \<and> mem_inv s'"
proof -
  have n: "mc_Blocks (mk_cfg (NewMock cfg)) = max 1 (mc_Blocks cfg)" "mk_made (NewMock cfg) = 0"
    by (auto simp: NewMock_def Let_def)
  show ?thesis
    using mem.run_mock [OF assms NewMock_positive(2,3) [of cfg], of inn zeroStats]
    by (auto simp: MockSrc_def n zeroStats_def)
qed

theorem run_mock_returns_witness:
  "\<exists>m' s' p' st. Run mem_ops ex_trusting (so_Next MockSrc)
     (NewMock \<lparr>mc_Blocks = 3, mc_SubtreesPer = 2, mc_TxsPerSubtree = 4, mc_SpendFraction = 2, mc_StartHeight = 7, mc_Seed = 0\<rparr>)
     (New, Some (NewPruner RecommendedPolicy)) zeroStats = Some ((m', s', p'), st, None) \<and> is_Blocks st = 3"
  using run_mock_returns [of New "Some (NewPruner RecommendedPolicy)" 30 ex_trusting
    "\<lparr>mc_Blocks = 3, mc_SubtreesPer = 2, mc_TxsPerSubtree = 4, mc_SpendFraction = 2, mc_StartHeight = 7, mc_Seed = 0\<rparr>"] mem_inv_New
  by (simp add: pruner_D_def ex_prune_defs) blast

end
