(* ===== verification/Api.thy ===== *)
theory Api
  imports Ingest
begin

text \<open>
  \<^verbatim>\<open>api/api.go\<close>: the query surface (seen, mined, inclusion proof, output status) over any
  store. The lemmas relate its answers to what was ingested and pruned.
\<close>

record Server =
  sv_AdvertisedD :: uint32

record SeenResult =
  sr_Seen :: bool
  sr_SeenTime :: int64

record MinedResult =
  mr_Mined :: bool
  mr_BlockHash :: hash
  mr_Height :: uint32
  mr_BlockTime :: uint32

datatype UTXOStatus = UTXOUnknown | UTXOUnspent | UTXOSpent | UTXONotInWindow

record UTXOResult =
  ur_Status :: UTXOStatus
  ur_Value :: uint64
  ur_SpentBy :: hash
  ur_SpentHeight :: uint32

definition Seen :: "'s store_ops \<Rightarrow> hash \<Rightarrow> ('s, SeenResult) gom" where
  "Seen ops txid =
     bindM (so_GetTxIndex ops txid) (\<lambda>r. case r of
       None \<Rightarrow> ret \<lparr>sr_Seen = False, sr_SeenTime = 0\<rparr>
     | Some ix \<Rightarrow> ret \<lparr>sr_Seen = True, sr_SeenTime = ti_SeenTime ix\<rparr>)"

definition Mined :: "'s store_ops \<Rightarrow> hash \<Rightarrow> ('s, MinedResult) gom" where
  "Mined ops txid =
     bindM (so_GetTxIndex ops txid) (\<lambda>r. case r of
       None \<Rightarrow> ret \<lparr>mr_Mined = False, mr_BlockHash = copy_from [], mr_Height = 0, mr_BlockTime = 0\<rparr>
     | Some ix \<Rightarrow>
         if \<not> ti_Mined ix
         then ret \<lparr>mr_Mined = False, mr_BlockHash = copy_from [], mr_Height = 0, mr_BlockTime = 0\<rparr>
         else ret \<lparr>mr_Mined = True, mr_BlockHash = ti_BlockHash ix, mr_Height = ti_Height ix,
                   mr_BlockTime = ti_BlockTime ix\<rparr>)"

definition api_MerklePath :: "'s store_ops \<Rightarrow> hash \<Rightarrow> ('s, Proof) gom" where
  "api_MerklePath ops txid = Build ops txid"

fun UTXOStatus_String :: "UTXOStatus \<Rightarrow> string" where
  "UTXOStatus_String UTXOUnspent = ''unspent''"
| "UTXOStatus_String UTXOSpent = ''spent''"
| "UTXOStatus_String UTXONotInWindow = ''not-in-retained-window''"
| "UTXOStatus_String UTXOUnknown = ''unknown''"

definition status_only :: "UTXOStatus \<Rightarrow> UTXOResult" where
  "status_only st = \<lparr>ur_Status = st, ur_Value = 0, ur_SpentBy = copy_from [], ur_SpentHeight = 0\<rparr>"

definition api_UTXO :: "'s store_ops \<Rightarrow> Outpoint \<Rightarrow> ('s, UTXOResult) gom" where
  "api_UTXO ops op =
     bindM (so_GetUTXO ops op) (\<lambda>r. case r of
       Some u \<Rightarrow>
         if u_Spent u
         then ret ((status_only UTXOSpent)\<lparr>ur_SpentBy := u_SpentBy u, ur_SpentHeight := u_SpentHeight u\<rparr>)
         else ret ((status_only UTXOUnspent)\<lparr>ur_Value := u_Value u\<rparr>)
     | None \<Rightarrow>
         bindM (so_GetTxIndex ops (op_TxID op)) (\<lambda>r. case r of
           Some ix \<Rightarrow> if ti_Mined ix then ret (status_only UTXONotInWindow) else ret (status_only UTXOUnknown)
         | None \<Rightarrow> ret (status_only UTXOUnknown)))"

context store_backend
begin

lemma seen_sim: "implements iv af (Seen ops txid) (Seen flat_ops txid)"
  unfolding Seen_def by (intro sim_intros get_txindex)

lemma mined_sim: "implements iv af (Mined ops txid) (Mined flat_ops txid)"
  unfolding Mined_def by (intro sim_intros get_txindex)

lemma utxo_sim: "implements iv af (api_UTXO ops op) (api_UTXO flat_ops op)"
  unfolding api_UTXO_def by (intro sim_intros get_txindex get_utxo)

end

text \<open>The answer as a function of the two records it depends on.\<close>

definition utxo_answer :: "UTXO option \<Rightarrow> TxIndex option \<Rightarrow> UTXOResult" where
  "utxo_answer r i =
     (case r of
        Some u \<Rightarrow>
          if u_Spent u
          then (status_only UTXOSpent)\<lparr>ur_SpentBy := u_SpentBy u, ur_SpentHeight := u_SpentHeight u\<rparr>
          else (status_only UTXOUnspent)\<lparr>ur_Value := u_Value u\<rparr>
      | None \<Rightarrow> status_only (case i of Some ix \<Rightarrow> if ti_Mined ix then UTXONotInWindow else UTXOUnknown | None \<Rightarrow> UTXOUnknown))"

lemma api_UTXO_flat: "api_UTXO flat_ops op a = (a, Inr (utxo_answer (fs_utxo a op) (fs_txindex a (op_TxID op))))"
  by (simp add: api_UTXO_def utxo_answer_def flat_ops_def bindM_def ret_def split: option.split)

lemma api_UTXO_mem:
  assumes "mem_inv s"
  shows "snd (api_UTXO mem_ops op s) = Inr (utxo_answer (fs_utxo (mem_abs s) op) (fs_txindex (mem_abs s) (op_TxID op)))"
proof -
  obtain s' r where m: "api_UTXO mem_ops op s = (s', r)" by (cases "api_UTXO mem_ops op s")
  from implementsD(2) [OF mem.utxo_sim assms m] m show ?thesis by (auto simp: api_UTXO_flat)
qed

text \<open>
  C21. Pruning never turns an answer into a wrong one. When the pruner that keeps index data advances, the
  answer for an output of a mined transaction stays what it was, except that a spent output whose
  spend is at least \<open>D\<close> blocks below the tip may become "not in retained window". No answer becomes
  "unspent" and none becomes "unknown".
\<close>

theorem prune_answers_honest:
  assumes "mem_inv s" and "pruner_ok (Some pr)" and "po_IndexRetention (pr_policy pr) = 0"
    and "OnNewBlock mem_ops tip (s, pr) = ((s', pr'), r)"
    and "snd (mem_GetTxIndex (op_TxID op) s) = Inr (Some ix)" and "ti_Mined ix"
  shows "snd (api_UTXO mem_ops op s') = snd (api_UTXO mem_ops op s) \<or>
    (\<exists>u. utxo_of s op = Some u \<and> u_Spent u \<and> unat (u_SpentHeight u) + unat (policy_D (pr_policy pr)) \<le> unat tip \<and>
      snd (api_UTXO mem_ops op s') = Inr (status_only UTXONotInWindow))"
proof -
  have nw: "no_wrap pr" using assms(2) by (simp add: pruner_ok_def)
  have "due_index pr tip = {}" using assms(3) by (simp add: due_index_def)
  with mem_on_new_block [OF assms(1) nw assms(4)]
  have inv: "mem_inv s'" and abs: "mem_abs s' = evict (due_spent pr tip) {} (mem_abs s)" by simp_all
  have ix: "fs_txindex (mem_abs s) (op_TxID op) = Some ix"
    using assms(5) by (simp add: mem_GetTxIndex_def mem_abs_sel)
  have ix': "fs_txindex (mem_abs s') = fs_txindex (mem_abs s)"
    by (simp add: abs evict_sel listed_def restrict_map_def)
  show ?thesis
  proof (cases "\<exists>h\<in>due_spent pr tip. spent_at h (fs_utxo (mem_abs s) op)")
    case True
    then obtain u where "fs_utxo (mem_abs s) op = Some u" "u_Spent u" "u_SpentHeight u \<in> due_spent pr tip"
      by (auto simp: spent_at_def split: option.splits)
    moreover have "fs_utxo (mem_abs s') op = None" using True by (simp add: abs evict_sel)
    ultimately show ?thesis
      using inv ix ix' assms(6) by (auto simp: api_UTXO_mem utxo_answer_def utxo_of_abs due_def)
  next
    case False
    then have "fs_utxo (mem_abs s') op = fs_utxo (mem_abs s) op" by (simp add: abs evict_sel)
    then show ?thesis using inv assms(1) ix' by (simp add: api_UTXO_mem)
  qed
qed

definition ex_mined :: MemStore where
  "ex_mined = fst (mem_PutTxIndex (op_TxID ex_op) (tx_index ex_block 0 0) ex_store)"

lemma ex_mined_inv: "mem_inv ex_mined"
  using mem_put_txindex ex_store_inv by (auto simp: ex_mined_def implements_def)

lemma ex_mined_sel: "utxo_of ex_mined ex_op = Some ex_utxo"
  "snd (mem_GetTxIndex (op_TxID ex_op) ex_mined) = Inr (Some (tx_index ex_block 0 0))"
  using ex_store_utxo
  by (simp_all add: ex_mined_def mem_PutTxIndex_def mem_GetTxIndex_def mem_GetUTXO_def Let_def set_stripe_def)

theorem prune_answers_honest_witness:
  "snd (api_UTXO mem_ops ex_op (fst (fst (OnNewBlock mem_ops 40 (ex_mined, NewPruner RecommendedPolicy))))) = snd (api_UTXO mem_ops ex_op ex_mined) \<or>
    (\<exists>u. utxo_of ex_mined ex_op = Some u \<and> u_Spent u \<and> unat (u_SpentHeight u) + 30 \<le> 40 \<and>
      snd (api_UTXO mem_ops ex_op (fst (fst (OnNewBlock mem_ops 40 (ex_mined, NewPruner RecommendedPolicy))))) = Inr (status_only UTXONotInWindow))"
proof -
  let ?r = "OnNewBlock mem_ops 40 (ex_mined, NewPruner RecommendedPolicy)"
  show ?thesis
    using prune_answers_honest [of ex_mined "NewPruner RecommendedPolicy" 40 "fst (fst ?r)" "snd (fst ?r)" "snd ?r" ex_op
        "tx_index ex_block 0 0"] ex_mined_inv ex_mined_sel
    by (simp add: pruner_ok_def ex_prune_defs tx_index_def)
qed

section \<open>Answers after ingest\<close>

lemma slot_eq_iff: "i < 2 ^ 32 \<Longrightarrow> j < 2 ^ 32 \<Longrightarrow> slot t i = slot t' j \<longleftrightarrow> t = t' \<and> i = j"
  by (auto simp: slot_def word_unat_eq_iff unat_of_nat)

lemma fold_create1_nth:
  assumes "i < length outs" and "k + length outs \<le> 2 ^ 32"
  shows "fold (create1 txid) (enumerate k outs) U (slot txid (k + i)) = Some (new_utxo (outs ! i))"
  using assms
proof (induction outs arbitrary: k i U)
  case (Cons out outs)
  show ?case
  proof (cases i)
    case 0
    have "slot txid k \<notin> slot txid ` {Suc k..<Suc k + length outs}"
      using Cons.prems by (auto simp: slot_eq_iff)
    with 0 show ?thesis by (simp add: fold_create1_other create1_apply)
  next
    case (Suc j)
    with Cons show ?thesis using Cons.IH [of j "Suc k" "create1 txid (k, out) U"] by simp
  qed
qed simp

lemma tx_utxo_slot:
  assumes "i < length (tx_Outputs tx)" and "length (tx_Outputs tx) \<le> 2 ^ 32"
  shows "tx_utxo h tx U (slot (tx_TxID tx) i) = Some (new_utxo (tx_Outputs tx ! i))"
  using fold_create1_nth [of i "tx_Outputs tx" 0] assms by (simp add: tx_utxo_def)

lemma created_txid: "op \<in> created tx \<Longrightarrow> op_TxID op = tx_TxID tx"
  by (auto simp: created_def slot_def)

lemma block_utxo_new:
  assumes "tx \<in> set txs" and "distinct (map tx_TxID txs)" and "i < length (tx_Outputs tx)"
    and "length (tx_Outputs tx) \<le> 2 ^ 32" and "slot (tx_TxID tx) i \<notin> inputs_of txs"
  shows "fold (tx_utxo h) txs U (slot (tx_TxID tx) i) = Some (new_utxo (tx_Outputs tx ! i))"
proof -
  let ?op = "slot (tx_TxID tx) i"
  obtain xs ys where txs: "txs = xs @ tx # ys" using assms(1) by (meson split_list)
  have "?op \<notin> created tx'" if "tx' \<in> set ys" for tx'
    using created_txid [of ?op tx'] that assms(2) by (auto simp: txs slot_def image_iff)
  then have "?op \<notin> created_by ys" "?op \<notin> inputs_of ys" using assms(5) by (auto simp: txs)
  from block_utxo_other [OF this] show ?thesis
    by (simp add: txs tx_utxo_slot [OF assms(3,4)])
qed

lemma block_utxo_spent:
  assumes "tx \<in> set txs" and "op \<in> set (tx_Inputs tx)" and "op \<notin> created_by txs" and "U op = Some u"
    and "\<forall>tx'\<in>set txs. op \<in> set (tx_Inputs tx') \<longrightarrow> tx_TxID tx' = tx_TxID tx"
  shows "fold (tx_utxo h) txs U op = Some (spend (tx_TxID tx) h u)"
proof -
  let ?by = "tx_TxID tx"
  have idem: "spend x h (spend x h u) = spend x h u" for x u by (simp add: spend_def)
  have step: "V op = Some u \<or> V op = Some (spend ?by h u) \<Longrightarrow> op \<notin> created_by ys \<Longrightarrow>
     \<forall>tx'\<in>set ys. op \<in> set (tx_Inputs tx') \<longrightarrow> tx_TxID tx' = ?by \<Longrightarrow>
     fold (tx_utxo h) ys V op = (if op \<in> inputs_of ys then Some (spend ?by h u) else V op)" for ys V
  proof (induction ys arbitrary: V)
    case (Cons t ys)
    have "op \<notin> created t" using Cons.prems(2) by simp
    then have t: "tx_utxo h t V op = (if op \<in> set (tx_Inputs t) then Some (spend ?by h u) else V op)"
      using Cons.prems(1,3) idem by (auto simp: tx_utxo_other)
    have v: "tx_utxo h t V op = Some u \<or> tx_utxo h t V op = Some (spend ?by h u)"
      using t Cons.prems(1) by (simp split: if_split)
    have ys: "op \<notin> created_by ys" "\<forall>tx'\<in>set ys. op \<in> set (tx_Inputs tx') \<longrightarrow> tx_TxID tx' = ?by"
      using Cons.prems(2,3) by simp_all
    show ?case by (simp add: Cons.IH [of "tx_utxo h t V", OF v ys] t)
  qed simp
  have "op \<in> inputs_of txs" using assms(1,2) by blast
  with step [of U txs] assms(3,4,5) show ?thesis by simp
qed

lemma ingest_utxo_mem:
  assumes "mem_inv s" and "pruner_ok p" and "in_skipValidate inn \<or> validateBlock b = None"
    and "IngestBlock mem_ops inn b (s, p) = ((s', p'), st, e)"
  shows "mem_inv s'" and "fs_utxo (mem_abs s') = evict_utxo (swept p (bl_Height b)) (block_utxo inn b (fs_utxo (mem_abs s)))"
proof -
  note sim = mem.ingest_block_sim [OF assms(1,4)]
  with ingest_block_flat [OF assms(2,3), of "mem_abs s"]
  show "mem_inv s'" and "fs_utxo (mem_abs s') = evict_utxo (swept p (bl_Height b)) (block_utxo inn b (fs_utxo (mem_abs s)))"
    by (auto simp: evict_utxo block_effect_utxo)
qed



text \<open>
  A sharded deployment answers a false "unspent". A shard skips every transaction whose txid it does
  not own, inputs included, so an unspent output it stores stays "unspent" after a block in which a
  transaction of another shard spends it. The package comment of the query surface says that a false
  "unspent" is never returned.
\<close>

theorem shard_false_unspent:
  assumes "mem_inv s" and "in_skipValidate inn \<or> validateBlock b = None"
    and "IngestBlock mem_ops inn b (s, None) = ((s', p'), st, e)"
    and "utxo_of s op = Some u" and "\<not> u_Spent u"
    and "\<forall>sub\<in>set (bl_Subtrees b). \<forall>tx\<in>set (su_Txs sub). op \<in> set (tx_Inputs tx) \<or> op_TxID op = tx_TxID tx \<longrightarrow>
           Of (tx_TxID tx) (in_k inn) \<noteq> in_id inn"
    and "in_k inn \<noteq> 0"
  shows "snd (api_UTXO mem_ops op s') = Inr ((status_only UTXOUnspent)\<lparr>ur_Value := u_Value u\<rparr>)"
proof -
  have "pruner_ok None" by (simp add: pruner_ok_def)
  note s' = ingest_utxo_mem [OF assms(1) this assms(2,3)]
  have "op \<notin> created_by (own_list inn b)" "op \<notin> inputs_of (own_list inn b)"
    using assms(6,7) by (auto simp: own_list_def owns_def dest: created_txid)
  from block_utxo_other [OF this] have "fs_utxo (mem_abs s') op = Some u"
    using assms(4) by (simp add: s'(2) swept_def evict_utxo_def block_utxo_def utxo_of_abs)
  then show ?thesis using assms(5) by (simp add: api_UTXO_mem [OF s'(1)] utxo_answer_def)
qed

theorem shard_false_unspent_witness:
  "let r = IngestBlock mem_ops \<lparr>in_k = 1, in_id = 1, in_skipValidate = True\<rparr> ex_block (ex_live, None) in
   ex_op \<in> set (tx_Inputs ex_tx) \<and> su_Txs (hd (bl_Subtrees ex_block)) = [ex_tx] \<and>
   snd (api_UTXO mem_ops ex_op (fst (fst r))) = Inr ((status_only UTXOUnspent)\<lparr>ur_Value := 5\<rparr>)"
proof -
  let ?in = "\<lparr>in_k = 1, in_id = 1, in_skipValidate = True\<rparr>"
  let ?r = "IngestBlock mem_ops ?in ex_block (ex_live, None)"
  have "Of (copy_from [9]) 1 = 0" by code_simp
  then show ?thesis
    using shard_false_unspent [of ex_live ?in ex_block "fst (fst ?r)" "snd (fst ?r)" "fst (snd ?r)" "snd (snd ?r)" ex_op "unspend ex_utxo"]
      ex_live_inv
    by (simp add: ex_live_utxo Let_def) (simp add: ex_block_def ex_tx_def unspend_def ex_utxo_def)
qed

end
