(* ===== verification/Client.thy ===== *)
theory Client
  imports Attest Api
begin

text \<open>
  \<^verbatim>\<open>client/client.go\<close>: the client that combines the answers of several untrusted operators.
  An operator is the record of its answers; \<open>op_MinedAttested\<close> is \<open>None\<close> for an operator that does
  not implement \<^verbatim>\<open>AttestingOperator\<close>. Each method asks an operator at most once per question,
  so an answer is a function of the question.
\<close>

record Operator =
  op_Seen :: "hash \<Rightarrow> go_error + SeenResult"
  op_Mined :: "hash \<Rightarrow> go_error + MinedResult"
  op_MerklePath :: "hash \<Rightarrow> go_error + Proof"
  op_UTXO :: "Outpoint \<Rightarrow> go_error + UTXOResult"
  op_MinedAttested :: "(hash \<Rightarrow> go_error + MinedResult \<times> Attestation) option"

record MultiClient =
  mc_ops :: "Operator list"

definition NewClient :: "Operator list \<Rightarrow> MultiClient" where
  "NewClient ops = \<lparr>mc_ops = ops\<rparr>"

record Agreement =
  ag_Responders :: int
  ag_Agree :: int

section \<open>Inclusion\<close>

fun first_proof :: "hash \<Rightarrow> Operator list \<Rightarrow> go_error + Proof" where
  "first_proof txid [] = Inl ErrNoProof"
| "first_proof txid (op # ops) =
     (case op_MerklePath op txid of Inl _ \<Rightarrow> first_proof txid ops
      | Inr p \<Rightarrow> if pf_Leaf p = txid \<and> Verify p then Inr p else first_proof txid ops)"

definition client_MerklePath :: "MultiClient \<Rightarrow> hash \<Rightarrow> go_error + Proof" where
  "client_MerklePath m txid = first_proof txid (mc_ops m)"

abbreviation no_mined :: MinedResult where
  "no_mined \<equiv> \<lparr>mr_Mined = False, mr_BlockHash = copy_from [], mr_Height = 0, mr_BlockTime = 0\<rparr>"

text \<open>The voting loop of \<open>Mined\<close>: the last positive answer, the responders, the positive votes.\<close>

fun mined_votes :: "hash \<Rightarrow> Operator list \<Rightarrow> MinedResult \<Rightarrow> int \<Rightarrow> int \<Rightarrow> MinedResult \<times> int \<times> int" where
  "mined_votes txid [] res responders votes = (res, responders, votes)"
| "mined_votes txid (op # ops) res responders votes =
     (case op_Mined op txid of Inl _ \<Rightarrow> mined_votes txid ops res responders votes
      | Inr r \<Rightarrow>
          if mr_Mined r then mined_votes txid ops r (responders + 1) (votes + 1)
          else mined_votes txid ops res (responders + 1) votes)"

definition client_Mined :: "MultiClient \<Rightarrow> hash \<Rightarrow> MinedResult \<times> bool \<times> Agreement" where
  "client_Mined m txid =
     (case client_MerklePath m txid of
        Inr p \<Rightarrow>
          (no_mined\<lparr>mr_Mined := True, mr_BlockHash := pf_BlockHash p, mr_Height := pf_Height p\<rparr>, True,
           \<lparr>ag_Responders = int (length (mc_ops m)), ag_Agree = int (length (mc_ops m))\<rparr>)
      | Inl _ \<Rightarrow>
          (case mined_votes txid (mc_ops m) no_mined 0 0 of (res, responders, votes) \<Rightarrow>
             if responders < votes * 2
             then (res\<lparr>mr_Mined := True\<rparr>, False, \<lparr>ag_Responders = responders, ag_Agree = votes\<rparr>)
             else (no_mined, False, \<lparr>ag_Responders = responders, ag_Agree = responders - votes\<rparr>)))"

section \<open>Seen\<close>

fun seen_votes :: "hash \<Rightarrow> Operator list \<Rightarrow> SeenResult \<Rightarrow> Agreement \<Rightarrow> SeenResult \<times> Agreement" where
  "seen_votes txid [] out ag = (out, ag)"
| "seen_votes txid (op # ops) out ag =
     (case op_Seen op txid of Inl _ \<Rightarrow> seen_votes txid ops out ag
      | Inr r \<Rightarrow>
          let ag = ag\<lparr>ag_Responders := ag_Responders ag + 1\<rparr>
          in if sr_Seen r then seen_votes txid ops r (ag\<lparr>ag_Agree := ag_Agree ag + 1\<rparr>)
             else seen_votes txid ops out ag)"

definition client_Seen :: "MultiClient \<Rightarrow> hash \<Rightarrow> SeenResult \<times> Agreement" where
  "client_Seen m txid =
     (case seen_votes txid (mc_ops m) \<lparr>sr_Seen = False, sr_SeenTime = 0\<rparr> \<lparr>ag_Responders = 0, ag_Agree = 0\<rparr> of
        (out, ag) \<Rightarrow> (out\<lparr>sr_Seen := 0 < ag_Agree ag\<rparr>, ag))"

section \<open>Output status\<close>

text \<open>
  The two Go maps of the counting loop. Their iteration order is unspecified in Go: \<open>client_UTXO\<close>
  takes it as the argument \<open>order\<close>, a list of the keys of the tally.
\<close>

fun utxo_tally ::
  "Outpoint \<Rightarrow> Operator list \<Rightarrow> (UTXOStatus \<rightharpoonup> int) \<Rightarrow> (UTXOStatus \<rightharpoonup> UTXOResult) \<Rightarrow> int \<Rightarrow>
     (UTXOStatus \<rightharpoonup> int) \<times> (UTXOStatus \<rightharpoonup> UTXOResult) \<times> int" where
  "utxo_tally op [] tally results responders = (tally, results, responders)"
| "utxo_tally op (o' # ops) tally results responders =
     (case op_UTXO o' op of Inl _ \<Rightarrow> utxo_tally op ops tally results responders
      | Inr r \<Rightarrow>
          utxo_tally op ops
            (tally(ur_Status r \<mapsto> (case tally (ur_Status r) of None \<Rightarrow> 0 | Some n \<Rightarrow> n) + 1))
            (results(ur_Status r \<mapsto> r)) (responders + 1))"

fun best_status :: "(UTXOStatus \<rightharpoonup> int) \<Rightarrow> UTXOStatus list \<Rightarrow> UTXOStatus \<Rightarrow> int \<Rightarrow> UTXOStatus \<times> int" where
  "best_status tally [] best bestN = (best, bestN)"
| "best_status tally (s # order) best bestN =
     (let n = (case tally s of None \<Rightarrow> 0 | Some n \<Rightarrow> n)
      in if bestN < n then best_status tally order s n else best_status tally order best bestN)"

definition client_UTXO :: "UTXOStatus list \<Rightarrow> MultiClient \<Rightarrow> Outpoint \<Rightarrow> UTXOResult \<times> Agreement" where
  "client_UTXO order m op =
     (case utxo_tally op (mc_ops m) Map.empty Map.empty 0 of (tally, results, responders) \<Rightarrow>
        case best_status tally order UTXOUnknown (- 1) of (best, bestN) \<Rightarrow>
          let ag = \<lparr>ag_Responders = responders, ag_Agree = bestN\<rparr>
          in if bestN < 0 then (status_only UTXOUnknown, ag)
             else ((case results best of None \<Rightarrow> status_only UTXOUnknown | Some r \<Rightarrow> r), ag))"

section \<open>Fraud detection and spending cap\<close>

text \<open>A panic of a signature check ends the search, as it ends the program.\<close>

fun detect_loop :: "sig_verify \<Rightarrow> hash \<Rightarrow> Proof \<Rightarrow> Operator list \<Rightarrow> go_error + FraudProof option" where
  "detect_loop vf txid p [] = Inr None"
| "detect_loop vf txid p (op # ops) =
     (case op_MinedAttested op of None \<Rightarrow> detect_loop vf txid p ops
      | Some f \<Rightarrow>
          (case f txid of Inl _ \<Rightarrow> detect_loop vf txid p ops
           | Inr (_, att) \<Rightarrow>
               (case ProveFalseNegative vf att p of
                  Inr fp \<Rightarrow> Inr (Some fp)
                | Inl e \<Rightarrow> if is_panic e then Inl e else detect_loop vf txid p ops)))"

definition DetectFraud :: "sig_verify \<Rightarrow> MultiClient \<Rightarrow> hash \<Rightarrow> go_error + FraudProof option" where
  "DetectFraud vf m txid =
     (case client_MerklePath m txid of Inl _ \<Rightarrow> Inr None
      | Inr p \<Rightarrow> detect_loop vf txid p (mc_ops m))"

record SpendGuard =
  sg_Max :: uint64

definition Allow :: "SpendGuard \<Rightarrow> uint64 \<Rightarrow> bool" where
  "Allow g cumulative = (cumulative \<le> sg_Max g)"

section \<open>Voting\<close>

definition honest_proof :: "hash \<Rightarrow> Operator \<Rightarrow> bool" where
  "honest_proof txid op = (case op_MerklePath op txid of Inl _ \<Rightarrow> False | Inr p \<Rightarrow> pf_Leaf p = txid \<and> Verify p)"

lemma first_proof_exact:
  "first_proof txid ops =
     (case filter (honest_proof txid) ops of [] \<Rightarrow> Inl ErrNoProof | op # _ \<Rightarrow> op_MerklePath op txid)"
  by (induction ops) (auto simp: honest_proof_def split: sum.splits)

lemma first_proof_Inr:
  "first_proof txid ops = Inr p \<Longrightarrow> pf_Leaf p = txid \<and> Verify p \<and> list_ex (honest_proof txid) ops \<and>
     (\<exists>op \<in> set ops. op_MerklePath op txid = Inr p)"
  by (induction ops) (auto simp: honest_proof_def split: sum.splits if_splits)

lemma first_proof_Inl: "first_proof txid ops = Inl e \<Longrightarrow> \<not> list_ex (honest_proof txid) ops"
  by (induction ops) (auto simp: honest_proof_def split: sum.splits if_splits)

text \<open>The answers that arrived, and how many of them satisfy \<open>P\<close>.\<close>

definition answers :: "(Operator \<Rightarrow> go_error + 'a) \<Rightarrow> Operator list \<Rightarrow> 'a list" where
  "answers f ops = concat (map (\<lambda>op. case f op of Inl _ \<Rightarrow> [] | Inr r \<Rightarrow> [r]) ops)"

lemma answers_simps [simp]:
  "answers f [] = []"
  "answers f (op # ops) = (case f op of Inl _ \<Rightarrow> answers f ops | Inr r \<Rightarrow> r # answers f ops)"
  by (auto simp: answers_def split: sum.split)

lemma mined_votes_exact:
  "mined_votes txid ops res r v =
     (let as = answers (\<lambda>op. op_Mined op txid) ops; ms = filter mr_Mined as
      in (if ms = [] then res else last ms, r + int (length as), v + int (length ms)))"
  by (induction ops arbitrary: res r v) (auto simp: Let_def split: sum.splits)

lemma seen_votes_exact:
  "seen_votes txid ops res ag =
     (let as = answers (\<lambda>op. op_Seen op txid) ops; ms = filter sr_Seen as
      in (if ms = [] then res else last ms,
          ag\<lparr>ag_Responders := ag_Responders ag + int (length as), ag_Agree := ag_Agree ag + int (length ms)\<rparr>))"
  by (induction ops arbitrary: res ag) (auto simp: Let_def split: sum.splits)

lemma mined_True: "mr_Mined r \<Longrightarrow> r\<lparr>mr_Mined := True\<rparr> = (r :: MinedResult)"
  by (cases r) simp

text \<open>
  C18. The mined answer of the client is decided by evidence first and votes second. It is proven
  exactly when some operator returns a proof of this transaction that verifies, whatever the other
  operators say; block and height are then those of such a proof. Without one, the answer is
  "mined" exactly when a strict majority of the operators that answered says so, and the agreement
  is the number of answers on the winning side, at least half of them.
\<close>

theorem client_mined_decides:
  "case client_Mined m txid of (res, proven, ag) \<Rightarrow>
     proven = list_ex (honest_proof txid) (mc_ops m) \<and>
     (if proven
      then (\<exists>op p. op \<in> set (mc_ops m) \<and> op_MerklePath op txid = Inr p \<and> pf_Leaf p = txid \<and> Verify p \<and>
              mr_Mined res \<and> mr_BlockHash res = pf_BlockHash p \<and> mr_Height res = pf_Height p)
      else let as = answers (\<lambda>op. op_Mined op txid) (mc_ops m)
           in ag_Responders ag = int (length as) \<and>
              mr_Mined res = (length as < 2 * length (filter mr_Mined as)) \<and>
              ag_Agree ag = int (length (filter (\<lambda>r. mr_Mined r = mr_Mined res) as)) \<and>
              ag_Responders ag \<le> 2 * ag_Agree ag \<and>
              (if mr_Mined res then res \<in> set as else res = no_mined))"
proof (cases "client_MerklePath m txid")
  case (Inr p)
  then have p: "pf_Leaf p = txid" "Verify p" "list_ex (honest_proof txid) (mc_ops m)"
    "\<exists>op \<in> set (mc_ops m). op_MerklePath op txid = Inr p"
    using first_proof_Inr [of txid "mc_ops m" p] by (auto simp: client_MerklePath_def)
  with p Inr show ?thesis by (auto simp: client_Mined_def)
next
  case (Inl e)
  let ?as = "answers (\<lambda>op. op_Mined op txid) (mc_ops m)"
  have n: "\<not> list_ex (honest_proof txid) (mc_ops m)" using Inl first_proof_Inl by (auto simp: client_MerklePath_def)
  have part: "length (filter mr_Mined ?as) + length (filter (\<lambda>r. \<not> mr_Mined r) ?as) = length ?as"
    by (rule sum_length_filter_compl)
  show ?thesis
  proof (cases "length ?as < 2 * length (filter mr_Mined ?as)")
    case True
    then have ne: "filter mr_Mined ?as \<noteq> []" by auto
    then have l: "last (filter mr_Mined ?as) \<in> set ?as" "mr_Mined (last (filter mr_Mined ?as))"
      using last_in_set [OF ne] by auto
    then show ?thesis using True ne l n Inl by (simp add: mined_True client_Mined_def mined_votes_exact Let_def)
  next
    case False
    then show ?thesis using n Inl part by (auto simp: client_Mined_def mined_votes_exact Let_def)
  qed
qed

section \<open>Plurality\<close>

definition count_status :: "UTXOResult list \<Rightarrow> UTXOStatus \<Rightarrow> nat" where
  "count_status as s = length (filter (\<lambda>r. ur_Status r = s) as)"

lemma utxo_tally_exact:
  "utxo_tally op ops t rs n =
     (let as = answers (\<lambda>o'. op_UTXO o' op) ops
      in (\<lambda>s. if count_status as s = 0 then t s
              else Some ((case t s of None \<Rightarrow> 0 | Some k \<Rightarrow> k) + int (count_status as s)),
          \<lambda>s. let rs' = filter (\<lambda>r. ur_Status r = s) as in if rs' = [] then rs s else Some (last rs'),
          n + int (length as)))"
proof (induction ops arbitrary: t rs n)
  case Nil
  then show ?case by (simp add: count_status_def)
next
  case (Cons o' ops)
  then show ?case by (cases "op_UTXO o' op") (auto simp: Let_def fun_eq_iff count_status_def)
qed

lemma best_status_exact:
  assumes "best_status t order b n = (b', n')"
  shows "n \<le> n' \<and> (\<forall>s \<in> set order. (case t s of None \<Rightarrow> 0 | Some k \<Rightarrow> k) \<le> n') \<and>
    (b' = b \<and> n' = n \<or> b' \<in> set order \<and> n' = (case t b' of None \<Rightarrow> 0 | Some k \<Rightarrow> k))"
  using assms
proof (induction order arbitrary: b n)
  case (Cons s order)
  show ?case
  proof (cases "n < (case t s of None \<Rightarrow> 0 | Some k \<Rightarrow> k)")
    case True
    with Cons.prems have "best_status t order s (case t s of None \<Rightarrow> 0 | Some k \<Rightarrow> k) = (b', n')" by (simp add: Let_def)
    from Cons.IH [OF this] True show ?thesis by auto
  next
    case False
    with Cons.prems have "best_status t order b n = (b', n')" by (simp add: Let_def)
    from Cons.IH [OF this] False show ?thesis by auto
  qed
qed simp

text \<open>An iteration of the tally visits exactly the statuses that were answered.\<close>

definition tally_order :: "MultiClient \<Rightarrow> Outpoint \<Rightarrow> UTXOStatus list \<Rightarrow> bool" where
  "tally_order m op order = (distinct order \<and> set order = ur_Status ` set (answers (\<lambda>o'. op_UTXO o' op) (mc_ops m)))"

lemma count_pos: "0 < count_status as s \<longleftrightarrow> s \<in> ur_Status ` set as"
  by (auto simp: count_status_def length_greater_0_conv filter_empty_conv simp del: length_greater_0_conv)

lemma client_UTXO_exact:
  assumes "tally_order m op order" and "client_UTXO order m op = (res, ag)" and "as = answers (\<lambda>o'. op_UTXO o' op) (mc_ops m)"
  shows "ag_Responders ag = int (length as) \<and>
    (if as = [] then res = status_only UTXOUnknown \<and> ag_Agree ag = - 1
     else res \<in> set as \<and> ag_Agree ag = int (count_status as (ur_Status res)) \<and>
       (\<forall>s. count_status as s \<le> count_status as (ur_Status res)))"
proof -
  define t where "t = (\<lambda>s. if count_status as s = 0 then None else Some (int (count_status as s)))"
  define rs where "rs = (\<lambda>s. let rs' = filter (\<lambda>r. ur_Status r = s) as in if rs' = [] then None else Some (last rs'))"
  have ta: "utxo_tally op (mc_ops m) Map.empty Map.empty 0 = (t, rs, int (length as))"
    unfolding t_def rs_def assms(3) utxo_tally_exact by (simp add: Let_def fun_eq_iff)
  obtain b k where be: "best_status t order UTXOUnknown (- 1) = (b, k)" by (cases "best_status t order UTXOUnknown (- 1)")
  have cnt: "(case t s of None \<Rightarrow> 0 | Some k \<Rightarrow> k) = int (count_status as s)" for s by (simp add: t_def)
  note B = best_status_exact [OF be, unfolded cnt]
  have ord: "s \<in> set order \<longleftrightarrow> 0 < count_status as s" for s
    using assms(1,3) by (simp add: tally_order_def count_pos)
  show ?thesis
  proof (cases "as = []")
    case True
    then have "order = []" using assms(1,3) by (simp add: tally_order_def)
    with be have "k = -1" by simp
    then show ?thesis using True assms(2) ta be by (auto simp: client_UTXO_def)
  next
    case False
    then obtain r where "r \<in> set as" by (cases as) auto
    then have "0 < count_status as (ur_Status r)" "ur_Status r \<in> set order" using ord count_pos by auto
    with B have k: "0 < k" by force
    with B have b: "b \<in> set order" "k = int (count_status as b)" by auto
    then have ne: "filter (\<lambda>r. ur_Status r = b) as \<noteq> []" using ord by (auto simp: count_status_def)
    define q where "q = last (filter (\<lambda>r. ur_Status r = b) as)"
    have q: "rs b = Some q" using ne by (simp add: rs_def q_def Let_def)
    have "ur_Status q = b" "q \<in> set as" using last_in_set [OF ne] by (auto simp: q_def)
    moreover have "count_status as s \<le> count_status as b" for s
      using B b ord [of s] by (cases "s \<in> set order") auto
    ultimately show ?thesis using False assms(2) ta be k b q by (auto simp: client_UTXO_def Let_def)
  qed
qed


definition ex_op :: "UTXOStatus \<Rightarrow> Operator" where
  "ex_op s = \<lparr>op_Seen = (\<lambda>_. Inl (ErrBackend 0)), op_Mined = (\<lambda>_. Inl (ErrBackend 0)), op_MerklePath = (\<lambda>_. Inl (ErrBackend 0)),
     op_UTXO = (\<lambda>_. Inr (status_only s)), op_MinedAttested = None\<rparr>"


section \<open>A lying operator\<close>

lemma Verify_forged_proof: "pf_Leaf (forged_proof txid sr bh h hdr) = txid \<and> Verify (forged_proof txid sr bh h hdr)"
  by (simp add: forged_proof_def Verify_def VerifyToBlockRoot_def MaxDepth_def)

text \<open>
  C1. One lying operator defeats the client: when the first operator answers with a fabricated proof
  (empty paths, the transaction as its own block root, block hash and height of its choice), \<open>Mined\<close>
  reports the transaction as mined and proven at that height against all other operators, and
  \<open>DetectFraud\<close> turns the truthful signed "not mined" of an honest operator into a fraud proof that
  verifies and names that operator. The package comment says a lying operator cannot forge a proof.
\<close>

theorem liar_frames_honest:
  assumes "op_MerklePath liar txid = Inr (forged_proof txid sr bh h hdr)" and "op_MinedAttested liar = None"
    and "op_MinedAttested honest = Some f" and "f txid = Inr (no_mined, att)"
    and "at_Statement att = \<lparr>st_Kind = StmtMined, st_TxID = txid, st_Vout = 0, st_Flag = False, st_Height = 0,
                             st_BlockHash = copy_from [], st_Tip = tip\<rparr>"
    and "att_Verify vf att = Inr True" and "m = NewClient (liar # honest # others)"
  shows "(case client_Mined m txid of (res, proven, ag) \<Rightarrow>
            mr_Mined res \<and> proven \<and> mr_BlockHash res = bh \<and> mr_Height res = h \<and> ag_Agree ag = int (length (mc_ops m))) \<and>
    (\<exists>fp. DetectFraud vf m txid = Inr (Some fp) \<and> fp_Verify vf fp = Inr (at_Operator att, None, True))"
proof -
  have p: "client_MerklePath m txid = Inr (forged_proof txid sr bh h hdr)"
    using assms(1,7) Verify_forged_proof by (simp add: client_MerklePath_def NewClient_def)
  obtain fp where "ProveFalseNegative vf att (forged_proof txid sr bh h hdr) = Inr fp" "fp_Verify vf fp = Inr (at_Operator att, None, True)"
    using false_negative_forgeable [OF assms(6), of sr bh h hdr] assms(5) by auto
  then have "DetectFraud vf m txid = Inr (Some fp)" "fp_Verify vf fp = Inr (at_Operator att, None, True)"
    using p assms by (simp_all add: DetectFraud_def NewClient_def)
  moreover have "pf_BlockHash (forged_proof txid sr bh h hdr) = bh" "pf_Height (forged_proof txid sr bh h hdr) = h"
    by (simp_all add: forged_proof_def)
  ultimately show ?thesis using p by (simp add: client_Mined_def)
qed

definition ex_liar :: Operator where
  "ex_liar = (ex_op UTXOUnknown)\<lparr>op_MerklePath := \<lambda>txid. Inr (forged_proof txid (copy_from []) (copy_from []) 77 (copy_from []))\<rparr>"

definition ex_honest :: Operator where
  "ex_honest = (ex_op UTXOUnknown)\<lparr>op_MinedAttested := Some (\<lambda>_. Inr (no_mined, ex_att False))\<rparr>"

theorem liar_frames_honest_witness:
  "\<exists>fp. DetectFraud accept_sig (NewClient [ex_liar, ex_honest]) (copy_from [7]) = Inr (Some fp) \<and>
        fp_Verify accept_sig fp = Inr (Some ex_key, None, True)"
  using liar_frames_honest [of ex_liar "copy_from [7]" "copy_from []" "copy_from []" 77 "copy_from []" ex_honest
      "\<lambda>_. Inr (no_mined, ex_att False)" "ex_att False" 9 accept_sig "NewClient [ex_liar, ex_honest]" "[]"] ex_att_ok [of False]
  by (simp add: ex_liar_def ex_honest_def ex_op_def ex_att_def ex_stmt_def)

end
