(* ===== verification/Bsvtx.thy ===== *)
theory Bsvtx
  imports Secp256k1 Commitment
begin

text \<open>
  \<^verbatim>\<open>bsvtx/tx.go\<close>, \<^verbatim>\<open>script.go\<close>, \<^verbatim>\<open>sighash.go\<close>, \<^verbatim>\<open>sign.go\<close> and
  \<^verbatim>\<open>channeltx.go\<close>: transactions and their serialisation, the scripts, the FORKID signature
  hash, DER signatures, and the transactions of a payment channel. A
  \<^verbatim>\<open>bytes.Buffer\<close> is the byte string written to it. The lemmas show that serialisation is
  injective, that a signature hash binds what is signed, that DER decoding inverts encoding, and
  what the channel transactions pay.
\<close>

section \<open>Transactions\<close>

record OutPoint =
  po_Hash :: hash
  po_Index :: uint32

record BTxIn =
  ti_PrevOut :: OutPoint
  ti_ScriptSig :: bytes
  ti_Sequence :: uint32

record BTxOut =
  bo_Value :: uint64
  bo_ScriptPubKey :: bytes

record BTx =
  bt_Version :: "32 word"
  bt_Inputs :: "BTxIn list"
  bt_Outputs :: "BTxOut list"
  bt_LockTime :: uint32

definition FinalSequence :: uint32 where
  "FinalSequence = 0xffffffff"

definition EnableLockTimeSequence :: uint32 where
  "EnableLockTimeSequence = 0xfffffffe"

definition putVarInt :: "uint64 \<Rightarrow> bytes" where
  "putVarInt n =
     (if n < 0xfd then [ucast n]
      else if n \<le> 0xffff then 0xfd # le16 (ucast n)
      else if n \<le> 0xffffffff then 0xfe # le32 (ucast n)
      else 0xff # le64 n)"

definition putU32 :: "uint32 \<Rightarrow> bytes" where
  "putU32 v = le32 v"

definition putU64 :: "uint64 \<Rightarrow> bytes" where
  "putU64 v = le64 v"

text \<open>The bodies of the two loops of \<open>Serialize\<close>; the signature hash repeats parts of them.\<close>

definition ser_prevout :: "BTxIn \<Rightarrow> bytes" where
  "ser_prevout txin = slice (po_Hash (ti_PrevOut txin)) @ putU32 (po_Index (ti_PrevOut txin))"

definition ser_in :: "BTxIn \<Rightarrow> bytes" where
  "ser_in txin =
     ser_prevout txin @ putVarInt (of_nat (length (ti_ScriptSig txin))) @ ti_ScriptSig txin @
     putU32 (ti_Sequence txin)"

definition ser_out :: "BTxOut \<Rightarrow> bytes" where
  "ser_out out =
     putU64 (bo_Value out) @ putVarInt (of_nat (length (bo_ScriptPubKey out))) @ bo_ScriptPubKey out"

definition tx_Serialize :: "BTx \<Rightarrow> bytes" where
  "tx_Serialize t =
     putU32 (bt_Version t) @
     putVarInt (of_nat (length (bt_Inputs t))) @ concat (map ser_in (bt_Inputs t)) @
     putVarInt (of_nat (length (bt_Outputs t))) @ concat (map ser_out (bt_Outputs t)) @
     putU32 (bt_LockTime t)"

definition tx_TxID :: "BTx \<Rightarrow> hash" where
  "tx_TxID t = DoubleSHA256 (tx_Serialize t)"

definition DisplayID :: "BTx \<Rightarrow> hash" where
  "DisplayID t = copy_from (rev (slice (tx_TxID t)))"

section \<open>Scripts\<close>

definition pushData :: "bytes \<Rightarrow> bytes" where
  "pushData data =
     (let n = length data
      in (if n < 0x4c then [of_nat n]
          else if n \<le> 0xff then [0x4c, of_nat n]
          else [0x4d, of_nat n, of_nat (n div 2 ^ 8)]) @ data)"

definition P2PK :: "bytes \<Rightarrow> bytes" where
  "P2PK compressedPub = pushData compressedPub @ [0xac]"

definition Multisig2of2 :: "bytes \<Rightarrow> bytes \<Rightarrow> bytes" where
  "Multisig2of2 pubA pubB = [0x52] @ pushData pubA @ pushData pubB @ [0x52, 0xae]"

definition ScriptSigP2PK :: "bytes \<Rightarrow> bytes" where
  "ScriptSigP2PK sigWithType = pushData sigWithType"

definition ScriptSig2of2 :: "bytes \<Rightarrow> bytes \<Rightarrow> bytes" where
  "ScriptSig2of2 sigA sigB = [0x00] @ pushData sigA @ pushData sigB"

section \<open>The signature hash\<close>

definition SighashNone :: uint32 where "SighashNone = 0x02"
definition SighashSingle :: uint32 where "SighashSingle = 0x03"
definition SighashAnyone :: uint32 where "SighashAnyone = 0x80"
definition SighashAllFork :: uint32 where "SighashAllFork = 0x01 OR 0x40"

definition hash_prevouts :: "BTx \<Rightarrow> uint32 \<Rightarrow> hash" where
  "hash_prevouts t hashType =
     (if hashType AND SighashAnyone = 0 then DoubleSHA256 (concat (map ser_prevout (bt_Inputs t)))
      else copy_from [])"

definition hash_sequence :: "BTx \<Rightarrow> uint32 \<Rightarrow> hash" where
  "hash_sequence t hashType =
     (if hashType AND SighashAnyone = 0 \<and> hashType AND 0x1f \<noteq> SighashSingle \<and> hashType AND 0x1f \<noteq> SighashNone
      then DoubleSHA256 (concat (map (putU32 \<circ> ti_Sequence) (bt_Inputs t)))
      else copy_from [])"

text \<open>The index is a Go \<^verbatim>\<open>int\<close>: a negative one panics on the output it selects.\<close>

definition hash_outputs :: "BTx \<Rightarrow> int \<Rightarrow> uint32 \<Rightarrow> go_error + hash" where
  "hash_outputs t idx hashType =
     (if hashType AND 0x1f \<noteq> SighashSingle \<and> hashType AND 0x1f \<noteq> SighashNone
      then Inr (DoubleSHA256 (concat (map ser_out (bt_Outputs t))))
      else if hashType AND 0x1f = SighashSingle \<and> idx < int (length (bt_Outputs t))
      then (if idx < 0 then Inl PanicIndex else Inr (DoubleSHA256 (ser_out (bt_Outputs t ! nat idx))))
      else Inr (copy_from []))"

definition sighash_preimage ::
  "BTx \<Rightarrow> BTxIn \<Rightarrow> bytes \<Rightarrow> uint64 \<Rightarrow> uint32 \<Rightarrow> hash \<Rightarrow> bytes" where
  "sighash_preimage t txin scriptCode amount hashType ho =
     putU32 (bt_Version t) @ slice (hash_prevouts t hashType) @ slice (hash_sequence t hashType) @
     ser_prevout txin @ putVarInt (of_nat (length scriptCode)) @ scriptCode @ putU64 amount @
     putU32 (ti_Sequence txin) @ slice ho @ putU32 (bt_LockTime t) @ putU32 hashType"

definition SighashForkID :: "BTx \<Rightarrow> int \<Rightarrow> bytes \<Rightarrow> uint64 \<Rightarrow> uint32 \<Rightarrow> go_error + bytes" where
  "SighashForkID t idx scriptCode amount hashType =
     (case hash_outputs t idx hashType of Inl e \<Rightarrow> Inl e
      | Inr ho \<Rightarrow>
          if idx < 0 \<or> int (length (bt_Inputs t)) \<le> idx then Inl PanicIndex
          else Inr (slice (DoubleSHA256
                 (sighash_preimage t (bt_Inputs t ! nat idx) scriptCode amount hashType ho))))"

section \<open>DER signatures\<close>

definition derEncodeInt :: "int \<Rightarrow> bytes" where
  "derEncodeInt v =
     (let b = abs_Bytes v;
          b = (if b = [] then [0x00] else b);
          b = (if b ! 0 AND 0x80 \<noteq> 0 then 0x00 # b else b)
      in 0x02 # of_nat (length b) # b)"

definition derEncode :: "int \<Rightarrow> int \<Rightarrow> bytes" where
  "derEncode r s =
     (let body = derEncodeInt r @ derEncodeInt s in 0x30 # of_nat (length body) # body)"

text \<open>The closure \<^verbatim>\<open>readInt\<close> at position \<open>i\<close>, returning the value and the new position.\<close>

definition readInt :: "bytes \<Rightarrow> nat \<Rightarrow> go_error + int \<times> nat" where
  "readInt b i =
     (if length b < i + 2 \<or> b ! i \<noteq> 0x02 then Inl ErrDER
      else let l = unat (b ! (i + 1)); i = i + 2
           in if length b < i + l then Inl ErrDER
              else Inr (int (SetBytes (take l (drop i b))), i + l))"

definition derDecode :: "bytes \<Rightarrow> go_error + int \<times> int" where
  "derDecode b =
     (if length b < 8 \<or> b ! 0 \<noteq> 0x30 then Inl ErrDER
      else if unat (b ! 1) \<noteq> length b - 2 then Inl ErrDER
      else case readInt b 2 of Inl e \<Rightarrow> Inl e
        | Inr (r, i) \<Rightarrow> (case readInt b i of Inl e \<Rightarrow> Inl e | Inr (s, _) \<Rightarrow> Inr (r, s)))"

text \<open>\<open>None\<close> is the nonce search that does not end, as in \<open>Sign\<close>.\<close>

definition SignInput ::
  "PrivateKey option \<Rightarrow> BTx \<Rightarrow> int \<Rightarrow> bytes \<Rightarrow> uint64 \<Rightarrow> uint32 \<Rightarrow> (go_error + bytes) option" where
  "SignInput priv t idx scriptCode amount hashType =
     (case SighashForkID t idx scriptCode amount hashType of Inl e \<Rightarrow> Some (Inl e)
      | Inr h \<Rightarrow>
          map_option (\<lambda>r. case r of Inl e \<Rightarrow> Inl e
            | Inr sig \<Rightarrow> Inr (derEncode (sig_R sig) (sig_S sig) @ [ucast hashType])) (Sign priv h))"

definition VerifyInput ::
  "PublicKey option \<Rightarrow> BTx \<Rightarrow> int \<Rightarrow> bytes \<Rightarrow> uint64 \<Rightarrow> bytes \<Rightarrow> go_error + bool" where
  "VerifyInput pub t idx scriptCode amount sigWithType =
     (if length sigWithType < 9 then Inr False
      else let hashType = ucast (last sigWithType)
           in case derDecode (butlast sigWithType) of
                Inl _ \<Rightarrow> Inr False
              | Inr (r, s) \<Rightarrow>
                  (let sig = \<lparr>sig_R = r, sig_S = s\<rparr>
                   in if \<not> IsLowS (Some sig) then Inr False
                      else case SighashForkID t idx scriptCode amount hashType of
                             Inl e \<Rightarrow> Inl e
                           | Inr h \<Rightarrow> ecdsa_Verify pub h (Some sig)))"

section \<open>Channel transactions\<close>

record ChannelTx =
  ct_FundingOut :: OutPoint
  ct_FundingValue :: uint64
  ct_ClientPub :: bytes
  ct_ServerPub :: bytes
  ct_Fee :: uint64

definition Redeem :: "ChannelTx \<Rightarrow> bytes" where
  "Redeem c = Multisig2of2 (ct_ClientPub c) (ct_ServerPub c)"

definition FundingOutput :: "ChannelTx \<Rightarrow> BTxOut" where
  "FundingOutput c = \<lparr>bo_Value = ct_FundingValue c, bo_ScriptPubKey = Redeem c\<rparr>"

definition CommitmentTx :: "ChannelTx \<Rightarrow> uint64 \<Rightarrow> go_error + BTx" where
  "CommitmentTx c toServer =
     (if ct_FundingValue c < toServer + ct_Fee c then Inl ErrAmount
      else let toClient = ct_FundingValue c - toServer - ct_Fee c
           in Inr \<lparr>bt_Version = 2,
                   bt_Inputs = [\<lparr>ti_PrevOut = ct_FundingOut c, ti_ScriptSig = [], ti_Sequence = FinalSequence\<rparr>],
                   bt_Outputs = [\<lparr>bo_Value = toServer, bo_ScriptPubKey = P2PK (ct_ServerPub c)\<rparr>,
                                 \<lparr>bo_Value = toClient, bo_ScriptPubKey = P2PK (ct_ClientPub c)\<rparr>],
                   bt_LockTime = 0\<rparr>)"

definition CommitmentSighash :: "ChannelTx \<Rightarrow> uint64 \<Rightarrow> go_error + bytes" where
  "CommitmentSighash c toServer =
     (case CommitmentTx c toServer of Inl e \<Rightarrow> Inl e
      | Inr tx \<Rightarrow> SighashForkID tx 0 (Redeem c) (ct_FundingValue c) SighashAllFork)"

definition RefundTx :: "ChannelTx \<Rightarrow> uint32 \<Rightarrow> BTx" where
  "RefundTx c lockTime =
     \<lparr>bt_Version = 2,
      bt_Inputs = [\<lparr>ti_PrevOut = ct_FundingOut c, ti_ScriptSig = [], ti_Sequence = EnableLockTimeSequence\<rparr>],
      bt_Outputs = [\<lparr>bo_Value = ct_FundingValue c - ct_Fee c, bo_ScriptPubKey = P2PK (ct_ClientPub c)\<rparr>],
      bt_LockTime = lockTime\<rparr>"

definition RefundSighash :: "ChannelTx \<Rightarrow> uint32 \<Rightarrow> go_error + bytes" where
  "RefundSighash c lockTime =
     SighashForkID (RefundTx c lockTime) 0 (Redeem c) (ct_FundingValue c) SighashAllFork"

definition Finalize2of2 :: "BTx \<Rightarrow> bytes \<Rightarrow> bytes \<Rightarrow> go_error + BTx" where
  "Finalize2of2 tx clientSigWithType serverSigWithType =
     (case bt_Inputs tx of [] \<Rightarrow> Inl PanicIndex
      | i # is \<Rightarrow> Inr (tx\<lparr>bt_Inputs := i\<lparr>ti_ScriptSig := ScriptSig2of2 clientSigWithType serverSigWithType\<rparr> # is\<rparr>))"

section \<open>Serialisation is uniquely decodable\<close>

text \<open>
  The program never parses a transaction; a reader for its format is the specification of the
  serialiser. Each reader consumes one field and returns the rest of the input.
\<close>

definition read_word :: "nat \<Rightarrow> bytes \<Rightarrow> ('a::len) word \<times> bytes" where
  "read_word n bs = (of_le_bytes (take n bs), drop n bs)"

definition read_varint :: "bytes \<Rightarrow> uint64 \<times> bytes" where
  "read_varint bs =
     (let b = hd bs; r = tl bs in
      if b < 0xfd then (ucast b, r)
      else if b = 0xfd then (case read_word 2 r of (v, r) \<Rightarrow> (ucast (v :: uint16), r))
      else if b = 0xfe then (case read_word 4 r of (v, r) \<Rightarrow> (ucast (v :: uint32), r))
      else read_word 8 r)"

definition read_bytes :: "bytes \<Rightarrow> bytes \<times> bytes" where
  "read_bytes bs = (case read_varint bs of (n, r) \<Rightarrow> (take (unat n) r, drop (unat n) r))"

fun read_list :: "(bytes \<Rightarrow> 'a \<times> bytes) \<Rightarrow> nat \<Rightarrow> bytes \<Rightarrow> 'a list \<times> bytes" where
  "read_list f 0 bs = ([], bs)"
| "read_list f (Suc n) bs = (case f bs of (x, r) \<Rightarrow> case read_list f n r of (xs, r) \<Rightarrow> (x # xs, r))"

definition read_prevout :: "bytes \<Rightarrow> OutPoint \<times> bytes" where
  "read_prevout bs =
     (case read_word 4 (drop 32 bs) of (i, r) \<Rightarrow> (\<lparr>po_Hash = copy_from (take 32 bs), po_Index = i\<rparr>, r))"

definition read_in :: "bytes \<Rightarrow> BTxIn \<times> bytes" where
  "read_in bs =
     (case read_prevout bs of (p, r) \<Rightarrow> case read_bytes r of (s, r) \<Rightarrow> case read_word 4 r of (q, r) \<Rightarrow>
      (\<lparr>ti_PrevOut = p, ti_ScriptSig = s, ti_Sequence = q\<rparr>, r))"

definition read_out :: "bytes \<Rightarrow> BTxOut \<times> bytes" where
  "read_out bs =
     (case read_word 8 bs of (v, r) \<Rightarrow> case read_bytes r of (s, r) \<Rightarrow>
      (\<lparr>bo_Value = v, bo_ScriptPubKey = s\<rparr>, r))"

definition read_tx :: "bytes \<Rightarrow> BTx \<times> bytes" where
  "read_tx bs =
     (case read_word 4 bs of (ver, r) \<Rightarrow>
      case read_varint r of (n, r) \<Rightarrow> case read_list read_in (unat n) r of (ins, r) \<Rightarrow>
      case read_varint r of (n, r) \<Rightarrow> case read_list read_out (unat n) r of (outs, r) \<Rightarrow>
      case read_word 4 r of (lt, r) \<Rightarrow>
      (\<lparr>bt_Version = ver, bt_Inputs = ins, bt_Outputs = outs, bt_LockTime = lt\<rparr>, r))"

text \<open>Byte strings and lists whose length is a 64-bit number, as every Go slice is.\<close>

definition in_fits :: "BTxIn \<Rightarrow> bool" where
  "in_fits i = (length (ti_ScriptSig i) < 2 ^ 64)"

definition out_fits :: "BTxOut \<Rightarrow> bool" where
  "out_fits out = (length (bo_ScriptPubKey out) < 2 ^ 64)"

definition tx_fits :: "BTx \<Rightarrow> bool" where
  "tx_fits t = (length (bt_Inputs t) < 2 ^ 64 \<and> length (bt_Outputs t) < 2 ^ 64 \<and>
     list_all in_fits (bt_Inputs t) \<and> list_all out_fits (bt_Outputs t))"

lemma read_word_le:
  "LENGTH('a) \<le> 8 * n \<Longrightarrow> read_word n (le_bytes n (v :: ('a::len) word) @ r) = (v, r)"
  by (simp add: read_word_def le_bytes_roundtrip)

lemma read_fields [simp]:
  "read_word 4 (putU32 v @ r) = (v, r)" "read_word 8 (putU64 w @ r) = (w, r)"
  by (simp_all add: putU32_def putU64_def read_word_le)

lemma ucast_ucast_small:
  fixes n :: uint64
  assumes "unat n < 2 ^ LENGTH('b)"
  shows "ucast (ucast n :: ('b::len) word) = n"
proof -
  have "unat (ucast (ucast n :: 'b word) :: uint64) = unat n"
    using assms by (simp add: unsigned_ucast_eq unsigned_take_bit_eq take_bit_nat_eq_self)
  then show ?thesis by (simp add: word_unat_eq_iff)
qed

lemma byte_small: "n < 0xfd \<Longrightarrow> (ucast (n :: uint64) :: byte) < 0xfd"
proof -
  assume n: "n < 0xfd"
  then have "unat n < 253" by (simp add: word_less_nat_alt)
  then have "unat (ucast n :: byte) < 253" by (simp add: unsigned_ucast_eq take_bit_nat_eq_self)
  then show ?thesis by (simp add: word_less_nat_alt)
qed

lemma read_varint_put [simp]: "read_varint (putVarInt n @ r) = (n, r)"
proof -
  consider "n < 0xfd" | "\<not> n < 0xfd" "n \<le> 0xffff" | "\<not> n < 0xfd" "\<not> n \<le> 0xffff" "n \<le> 0xffffffff"
    | "\<not> n < 0xfd" "\<not> n \<le> 0xffff" "\<not> n \<le> 0xffffffff" by blast
  then show ?thesis
  proof cases
    case 1
    then have "ucast (ucast n :: byte) = n" by (intro ucast_ucast_small) (simp add: word_less_nat_alt)
    with 1 byte_small [OF 1] show ?thesis by (simp add: read_varint_def putVarInt_def)
  next
    case 2
    then have "ucast (ucast n :: uint16) = n" by (intro ucast_ucast_small) (simp add: word_le_nat_alt)
    with 2 show ?thesis by (simp add: read_varint_def putVarInt_def read_word_le)
  next
    case 3
    then have "ucast (ucast n :: uint32) = n" by (intro ucast_ucast_small) (simp add: word_le_nat_alt)
    with 3 show ?thesis by (simp add: read_varint_def putVarInt_def read_word_le)
  next
    case 4
    then show ?thesis by (simp add: read_varint_def putVarInt_def read_word_le)
  qed
qed

lemma read_bytes_put [simp]:
  "length s < 2 ^ 64 \<Longrightarrow> read_bytes (putVarInt (of_nat (length s)) @ s @ r) = (s, r)"
  by (simp add: read_bytes_def unat_of_nat)

lemma read_list_put:
  assumes "\<And>x r. x \<in> set xs \<Longrightarrow> f (g x @ r) = (x, r)"
  shows "read_list f (length xs) (concat (map g xs) @ r) = (xs, r)"
  using assms by (induction xs arbitrary: r) simp_all

lemma read_prevout_put [simp]: "read_prevout (ser_prevout i @ r) = (ti_PrevOut i, r)"
  by (simp add: read_prevout_def ser_prevout_def)

lemma read_in_put: "in_fits i \<Longrightarrow> read_in (ser_in i @ r) = (i, r)"
  by (simp add: read_in_def ser_in_def in_fits_def)

lemma read_out_put: "out_fits out \<Longrightarrow> read_out (ser_out out @ r) = (out, r)"
  by (simp add: read_out_def ser_out_def out_fits_def)

lemma read_tx_put: "tx_fits t \<Longrightarrow> read_tx (tx_Serialize t @ r) = (t, r)"
proof -
  assume t: "tx_fits t"
  have i: "read_list read_in (length (bt_Inputs t)) (concat (map ser_in (bt_Inputs t)) @ r) = (bt_Inputs t, r)" for r
    using t by (intro read_list_put) (simp add: tx_fits_def list_all_iff read_in_put)
  have o: "read_list read_out (length (bt_Outputs t)) (concat (map ser_out (bt_Outputs t)) @ r) = (bt_Outputs t, r)" for r
    using t by (intro read_list_put) (simp add: tx_fits_def list_all_iff read_out_put)
  have n: "unat (of_nat (length (bt_Inputs t)) :: uint64) = length (bt_Inputs t)"
      "unat (of_nat (length (bt_Outputs t)) :: uint64) = length (bt_Outputs t)"
    using t by (simp_all add: tx_fits_def unat_of_nat)
  show ?thesis by (simp add: read_tx_def tx_Serialize_def i o n)
qed

text \<open>
  C37. A transaction is determined by its serialisation, even as the prefix of a longer byte string:
  no two different transactions have the same bytes, so two different transactions with the same
  \<open>TxID\<close> are an explicit SHA-256d collision.
\<close>

theorem tx_serialize_injective:
  assumes "tx_fits t" and "tx_fits u" and "t \<noteq> u"
  shows "tx_Serialize t @ x \<noteq> tx_Serialize u @ y \<and>
    (tx_TxID t \<noteq> tx_TxID u \<or> collision (tx_Serialize t, tx_Serialize u))"
proof -
  have "tx_Serialize t @ x \<noteq> tx_Serialize u @ y" for x y
    using read_tx_put [OF assms(1), of x] read_tx_put [OF assms(2), of y] assms(3) by auto
  from this [of x y] this [of "[]" "[]"] show ?thesis by (simp add: collision_def tx_TxID_def)
qed

definition ex_btx :: "uint64 \<Rightarrow> BTx" where
  "ex_btx v = \<lparr>bt_Version = 2, bt_Inputs = [\<lparr>ti_PrevOut = \<lparr>po_Hash = copy_from [1], po_Index = 0\<rparr>,
     ti_ScriptSig = [0x51], ti_Sequence = FinalSequence\<rparr>],
     bt_Outputs = [\<lparr>bo_Value = v, bo_ScriptPubKey = [0xac]\<rparr>], bt_LockTime = 0\<rparr>"

theorem tx_serialize_injective_witness:
  "tx_Serialize (ex_btx 1) @ [] \<noteq> tx_Serialize (ex_btx 2) @ [0]"
  using tx_serialize_injective [of "ex_btx 1" "ex_btx 2" "[]" "[0]"]
  by (simp add: ex_btx_def tx_fits_def in_fits_def out_fits_def)

section \<open>DER\<close>

lemma derEncodeInt_form:
  assumes "0 \<le> v" and "v < 256 ^ 32"
  obtains b where "derEncodeInt v = 0x02 # of_nat (length b) # b" and "1 \<le> length b" and "length b \<le> 33"
    and "int (SetBytes b) = v"
proof -
  define b0 where "b0 = (if abs_Bytes v = [] then [0x00] else abs_Bytes v)"
  define b where "b = (if b0 ! 0 AND 0x80 \<noteq> 0 then 0x00 # b0 else b0)"
  have l: "length (abs_Bytes v) \<le> 32" using assms by (intro abs_Bytes_length) simp
  have sv: "SetBytes (abs_Bytes v) = nat v" using assms(1) by (simp add: abs_Bytes_def)
  have z: "SetBytes (0 # xs) = SetBytes xs" for xs using SetBytes_zeros [of 1 xs] by simp
  have "SetBytes b = nat v" using sv z [of "[]"] z [of b0] by (auto simp: b_def b0_def)
  moreover have "1 \<le> length b" "length b \<le> 33" using l by (auto simp: b_def b0_def Suc_le_eq)
  moreover have "derEncodeInt v = 0x02 # of_nat (length b) # b"
    unfolding derEncodeInt_def Let_def b0_def [symmetric] b_def [symmetric] ..
  ultimately show thesis using that assms(1) by simp
qed

lemma readInt_at:
  assumes "length b \<le> 33" and "i = length pre"
  shows "readInt (pre @ (0x02 # of_nat (length b) # b) @ post) i = Inr (int (SetBytes b), i + 2 + length b)"
proof -
  have "unat (of_nat (length b) :: byte) = length b" using assms(1) by (simp add: unat_of_nat)
  then show ?thesis using assms(2) by (simp add: readInt_def nth_append)
qed

lemma der_roundtrip:
  assumes "0 \<le> r" "r < 256 ^ 32" "0 \<le> s" "s < 256 ^ 32"
  shows "derDecode (derEncode r s) = Inr (r, s)" and "8 \<le> length (derEncode r s)"
proof -
  obtain rb where rb: "derEncodeInt r = 0x02 # of_nat (length rb) # rb" "1 \<le> length rb" "length rb \<le> 33" "int (SetBytes rb) = r"
    by (rule derEncodeInt_form [OF assms(1,2)])
  obtain sb where sb: "derEncodeInt s = 0x02 # of_nat (length sb) # sb" "1 \<le> length sb" "length sb \<le> 33" "int (SetBytes sb) = s"
    by (rule derEncodeInt_form [OF assms(3,4)])
  define body where "body = derEncodeInt r @ derEncodeInt s"
  define e where "e = derEncode r s"
  have e: "e = 0x30 # of_nat (length body) # body" by (simp add: e_def derEncode_def body_def Let_def)
  have l: "length body = 4 + length rb + length sb" by (simp add: body_def rb(1) sb(1))
  have u: "unat (of_nat (length body) :: byte) = length body" using l rb(3) sb(3) by (simp only: unat_of_nat) simp
  have 1: "readInt e 2 = Inr (r, 4 + length rb)"
    using readInt_at [OF rb(3), of 2 "[0x30, of_nat (length body)]" "derEncodeInt s"] rb(4)
    by (simp add: e body_def rb(1))
  have 2: "readInt e (4 + length rb) = Inr (s, 6 + length rb + length sb)"
    using readInt_at [OF sb(3), of "4 + length rb" "[0x30, of_nat (length body)] @ derEncodeInt r" "[]"] sb(4)
    by (simp add: e body_def rb(1) sb(1))
  have "derDecode e = Inr (r, s)" using rb sb l u 1 2 by (simp add: derDecode_def e)
  then show "derDecode (derEncode r s) = Inr (r, s)" by (simp add: e_def)
  show "8 \<le> length (derEncode r s)" using rb sb l by (simp add: e e_def [symmetric])
qed

lemma Sign_bounds:
  assumes "Sign key h = Some (Inr sig)"
  shows "0 < sig_R sig" "sig_R sig < curveN" "0 < sig_S sig" "sig_S sig \<le> nHalf"
proof -
  obtain d z where "sign_loop d h z 0 1000 = Some (Inr sig)"
    using assms by (auto simp: Sign_def split: option.splits if_splits)
  from sign_loop_attempt [OF this] obtain k where "sign_attempt d z k = Some (Inr sig)" by blast
  from sign_attempt_spec(1-4) [OF this]
  show "0 < sig_R sig" "sig_R sig < curveN" "0 < sig_S sig" "sig_S sig \<le> nHalf" .
qed

text \<open>
  C38. What \<open>SignInput\<close> writes is what \<open>VerifyInput\<close> reads: the verifier decodes the DER signature
  to the pair the signer produced, does not reject it as malleable, and hands exactly that
  signature and the same FORKID signature hash to the ECDSA check.
\<close>

theorem sign_input_reaches_verify:
  "case SignInput key t idx scriptCode amount SighashAllFork of
     Some (Inr bs) \<Rightarrow>
       (\<exists>h sig. SighashForkID t idx scriptCode amount SighashAllFork = Inr h \<and>
          Sign key h = Some (Inr sig) \<and> derDecode (butlast bs) = Inr (sig_R sig, sig_S sig) \<and>
          VerifyInput pub t idx scriptCode amount bs = ecdsa_Verify pub h (Some sig))
   | _ \<Rightarrow> True"
proof (cases "\<exists>bs. SignInput key t idx scriptCode amount SighashAllFork = Some (Inr bs)")
  case True
  then obtain bs where s: "SignInput key t idx scriptCode amount SighashAllFork = Some (Inr bs)" ..
  obtain h where h: "SighashForkID t idx scriptCode amount SighashAllFork = Inr h"
    using s by (cases "SighashForkID t idx scriptCode amount SighashAllFork") (auto simp: SignInput_def)
  with s obtain z where z: "Sign key h = Some z"
    "(case z of Inl e \<Rightarrow> Inl e | Inr sig \<Rightarrow> Inr (derEncode (sig_R sig) (sig_S sig) @ [ucast SighashAllFork])) = Inr bs"
    by (auto simp: SignInput_def)
  then obtain sig where sig: "Sign key h = Some (Inr sig)"
    and bs: "bs = derEncode (sig_R sig) (sig_S sig) @ [ucast SighashAllFork]" by (cases z) auto
  note b = Sign_bounds [OF sig]
  have n: "curveN < 256 ^ 32" "nHalf < 256 ^ 32" by (simp_all add: curveN_def nHalf_def drop_bit_eq_div)
  note d = der_roundtrip [of "sig_R sig" "sig_S sig"]
  have d1: "derDecode (derEncode (sig_R sig) (sig_S sig)) = Inr (sig_R sig, sig_S sig)"
    and d2: "8 \<le> length (derEncode (sig_R sig) (sig_S sig))"
    using b n by (intro d; linarith)+
  have low: "IsLowS (Some \<lparr>sig_R = sig_R sig, sig_S = sig_S sig\<rparr>)" using b(4) by (simp add: IsLowS_def)
  have t: "ucast (ucast SighashAllFork :: byte) = SighashAllFork" by (simp add: SighashAllFork_def)
  have "VerifyInput pub t idx scriptCode amount bs = ecdsa_Verify pub h (Some sig)"
    unfolding VerifyInput_def using d1 d2 low h t by (cases sig) (simp add: bs Let_def)
  with h sig d1 bs show ?thesis unfolding s by auto
next
  case False
  then show ?thesis by (auto split: option.split sum.split)
qed

section \<open>What a signature hash binds\<close>

text \<open>Lists of self-delimiting, non-empty items are determined by their concatenation.\<close>

lemma concat_map_inject:
  assumes rd: "\<And>x r. P x \<Longrightarrow> rd (f x @ r) = (k x, r)" and ne: "\<And>x. f x \<noteq> []"
  shows "list_all P xs \<Longrightarrow> list_all P ys \<Longrightarrow> concat (map f xs) = concat (map f ys) \<Longrightarrow> map k xs = map k ys"
proof (induction xs arbitrary: ys)
  case Nil
  then show ?case using ne by (cases ys) auto
next
  case (Cons x xs)
  then obtain y zs where ys: "ys = y # zs" using ne by (cases ys) auto
  have eq: "f x @ concat (map f xs) = f y @ concat (map f zs)" using Cons.prems(3) ys by simp
  have "(k x, concat (map f xs)) = rd (f x @ concat (map f xs))" using rd Cons.prems(1) by simp
  also have "\<dots> = rd (f y @ concat (map f zs))" by (simp only: eq)
  also have "\<dots> = (k y, concat (map f zs))" using rd Cons.prems(2) ys by simp
  finally have "k x = k y" "concat (map f xs) = concat (map f zs)" by simp_all
  with Cons.IH [of zs] Cons.prems ys show ?case by simp
qed

lemma prevouts_inject:
  "concat (map ser_prevout xs) = concat (map ser_prevout ys) \<Longrightarrow> map ti_PrevOut xs = map ti_PrevOut ys"
  by (rule concat_map_inject [where P = "\<lambda>_. True" and rd = read_prevout])
     (simp_all add: list_all_iff, simp add: ser_prevout_def putU32_def le_bytes_def)

lemma sequences_inject:
  fixes xs ys :: "BTxIn list"
  shows "concat (map (putU32 \<circ> ti_Sequence) xs) = concat (map (putU32 \<circ> ti_Sequence) ys) \<Longrightarrow>
   map ti_Sequence xs = map ti_Sequence ys"
  by (rule concat_map_inject [where P = "\<lambda>_. True" and rd = "read_word 4 :: bytes \<Rightarrow> uint32 \<times> bytes"])
     (simp_all add: list_all_iff, simp add: putU32_def le_bytes_def)

lemma outputs_inject:
  assumes "list_all out_fits xs" "list_all out_fits ys" "concat (map ser_out xs) = concat (map ser_out ys)"
  shows "xs = ys"
  using concat_map_inject [where P = out_fits and rd = read_out and f = ser_out and k = id, OF _ _ assms]
  by (simp add: read_out_put) (simp add: ser_out_def putU64_def le_bytes_def)

lemma varbytes_inject:
  assumes "length s < 2 ^ 64" "length s' < 2 ^ 64"
    and "putVarInt (of_nat (length s)) @ s @ r = putVarInt (of_nat (length s')) @ s' @ r'"
  shows "s = s' \<and> r = r'"
proof -
  have "(s, r) = read_bytes (putVarInt (of_nat (length s)) @ s @ r)" using assms(1) by simp
  also have "\<dots> = read_bytes (putVarInt (of_nat (length s')) @ s' @ r')" by (simp only: assms(3))
  also have "\<dots> = (s', r')" using assms(2) by simp
  finally show ?thesis by simp
qed

lemma preimage_inject:
  assumes "length sc < 2 ^ 64" "length sc' < 2 ^ 64"
    and "sighash_preimage t i sc a h ho = sighash_preimage u j sc' a' h' ho'"
  shows "bt_Version t = bt_Version u \<and> hash_prevouts t h = hash_prevouts u h' \<and> hash_sequence t h = hash_sequence u h' \<and>
    ti_PrevOut i = ti_PrevOut j \<and> sc = sc' \<and> a = a' \<and> ti_Sequence i = ti_Sequence j \<and> ho = ho' \<and>
    bt_LockTime t = bt_LockTime u \<and> h = h'"
proof -
  have p: "ser_prevout i = ser_prevout j \<longleftrightarrow> ti_PrevOut i = ti_PrevOut j"
    by (auto simp: ser_prevout_def putU32_def append_field_eq)
  have lp: "length (ser_prevout i) = length (ser_prevout j)" by (simp add: ser_prevout_def putU32_def)
  have 1: "bt_Version t = bt_Version u" "hash_prevouts t h = hash_prevouts u h'" "hash_sequence t h = hash_sequence u h'"
      "ti_PrevOut i = ti_PrevOut j"
    and 2: "putVarInt (of_nat (length sc)) @ sc @ putU64 a @ putU32 (ti_Sequence i) @ slice ho @ putU32 (bt_LockTime t) @ putU32 h =
      putVarInt (of_nat (length sc')) @ sc' @ putU64 a' @ putU32 (ti_Sequence j) @ slice ho' @ putU32 (bt_LockTime u) @ putU32 h'"
    using assms(3) unfolding sighash_preimage_def by (simp_all add: append_field_eq lp p putU32_def)
  from varbytes_inject [OF assms(1,2) 2] 1 show ?thesis
    by (simp add: append_field_eq putU32_def putU64_def)
qed

text \<open>The hashes on the way from a transaction to its signature hash, for \<open>SIGHASH_ALL | FORKID\<close>.\<close>

definition sighash_pairs :: "BTx \<Rightarrow> nat \<Rightarrow> bytes \<Rightarrow> uint64 \<Rightarrow> BTx \<Rightarrow> nat \<Rightarrow> bytes \<Rightarrow> uint64 \<Rightarrow> (bytes \<times> bytes) list" where
  "sighash_pairs t i sc a u j sc' a' =
     (let outs = (\<lambda>t. concat (map ser_out (bt_Outputs t)));
          pre = (\<lambda>t i sc a. sighash_preimage t (bt_Inputs t ! i) sc a SighashAllFork (DoubleSHA256 (outs t)))
      in [(pre t i sc a, pre u j sc' a'),
          (concat (map ser_prevout (bt_Inputs t)), concat (map ser_prevout (bt_Inputs u))),
          (concat (map (putU32 \<circ> ti_Sequence) (bt_Inputs t)), concat (map (putU32 \<circ> ti_Sequence) (bt_Inputs u))),
          (outs t, outs u)])"

lemma AllFork_flags:
  "SighashAllFork AND SighashAnyone = 0" "SighashAllFork AND 0x1f \<noteq> SighashSingle"
  "SighashAllFork AND 0x1f \<noteq> SighashNone"
  by (simp_all add: SighashAllFork_def SighashAnyone_def SighashSingle_def SighashNone_def)

lemma SighashForkID_AllFork:
  assumes "SighashForkID t idx sc a SighashAllFork = Inr d"
  shows "0 \<le> idx" "nat idx < length (bt_Inputs t)"
    "d = slice (DoubleSHA256 (sighash_preimage t (bt_Inputs t ! nat idx) sc a SighashAllFork
           (DoubleSHA256 (concat (map ser_out (bt_Outputs t))))))"
  using assms AllFork_flags by (auto simp: SighashForkID_def hash_outputs_def nat_less_iff split: if_splits)

lemma collision_free_eq:
  "\<not> collision (x, y) \<Longrightarrow> DoubleSHA256 x = DoubleSHA256 y \<Longrightarrow> x = y"
  by (auto simp: collision_def)

lemma sighash_binds_tx:
  assumes "SighashForkID t idx sc a SighashAllFork = Inr d" and "SighashForkID u idx' sc' a' SighashAllFork = Inr d"
    and "tx_fits t" "tx_fits u" "length sc < 2 ^ 64" "length sc' < 2 ^ 64"
    and nc: "\<not> list_ex collision (sighash_pairs t (nat idx) sc a u (nat idx') sc' a')"
  shows "bt_Version t = bt_Version u \<and> map ti_PrevOut (bt_Inputs t) = map ti_PrevOut (bt_Inputs u) \<and>
    map ti_Sequence (bt_Inputs t) = map ti_Sequence (bt_Inputs u) \<and> bt_Outputs t = bt_Outputs u \<and>
    bt_LockTime t = bt_LockTime u \<and> ti_PrevOut (bt_Inputs t ! nat idx) = ti_PrevOut (bt_Inputs u ! nat idx') \<and>
    sc = sc' \<and> a = a'"
proof -
  note s = SighashForkID_AllFork [OF assms(1)] and s' = SighashForkID_AllFork [OF assms(2)]
  let ?outs = "\<lambda>t. concat (map ser_out (bt_Outputs t))"
  let ?pre = "\<lambda>t i sc a. sighash_preimage t (bt_Inputs t ! i) sc a SighashAllFork (DoubleSHA256 (?outs t))"
  have nc': "\<not> collision (?pre t (nat idx) sc a, ?pre u (nat idx') sc' a')"
      "\<not> collision (concat (map ser_prevout (bt_Inputs t)), concat (map ser_prevout (bt_Inputs u)))"
      "\<not> collision (concat (map (putU32 \<circ> ti_Sequence) (bt_Inputs t)), concat (map (putU32 \<circ> ti_Sequence) (bt_Inputs u)))"
      "\<not> collision (?outs t, ?outs u)"
    using nc unfolding sighash_pairs_def Let_def list_ex_iff set_simps by blast+
  have "slice (DoubleSHA256 (?pre t (nat idx) sc a)) = slice (DoubleSHA256 (?pre u (nat idx') sc' a'))"
    using s(3) s'(3) by (rule trans [OF sym])
  then have "?pre t (nat idx) sc a = ?pre u (nat idx') sc' a'"
    unfolding slice_eq_iff by (rule collision_free_eq [OF nc'(1)])
  note e = preimage_inject [OF assms(5,6) this]
  have "DoubleSHA256 (concat (map ser_prevout (bt_Inputs t))) = DoubleSHA256 (concat (map ser_prevout (bt_Inputs u)))"
    using e unfolding hash_prevouts_def if_P [OF AllFork_flags(1)] by blast
  then have "map ti_PrevOut (bt_Inputs t) = map ti_PrevOut (bt_Inputs u)"
    by (rule prevouts_inject [OF collision_free_eq [OF nc'(2)]])
  moreover have "DoubleSHA256 (concat (map (putU32 \<circ> ti_Sequence) (bt_Inputs t))) =
      DoubleSHA256 (concat (map (putU32 \<circ> ti_Sequence) (bt_Inputs u)))"
    using e AllFork_flags unfolding hash_sequence_def by (simp only: if_True simp_thms)
  then have "map ti_Sequence (bt_Inputs t) = map ti_Sequence (bt_Inputs u)"
    by (rule sequences_inject [OF collision_free_eq [OF nc'(3)]])
  moreover have "?outs t = ?outs u" by (rule collision_free_eq [OF nc'(4)]) (use e in blast)
  then have "bt_Outputs t = bt_Outputs u"
    using assms(3,4) unfolding tx_fits_def by (intro outputs_inject) blast+
  ultimately show ?thesis using e by blast
qed

text \<open>Everything the signer commits to; the unlocking scripts are not part of it.\<close>

definition signed_part :: "BTx \<Rightarrow> nat \<Rightarrow> bytes \<Rightarrow> uint64 \<Rightarrow>
  uint32 \<times> OutPoint list \<times> uint32 list \<times> BTxOut list \<times> uint32 \<times> OutPoint \<times> bytes \<times> uint64" where
  "signed_part t i sc a =
     (bt_Version t, map ti_PrevOut (bt_Inputs t), map ti_Sequence (bt_Inputs t), bt_Outputs t, bt_LockTime t,
      ti_PrevOut (bt_Inputs t ! i), sc, a)"

text \<open>
  C15. A signature hash binds the whole payment: two signing requests that differ in version, spent
  outpoints, sequence numbers, outputs, lock time, signed input, script or amount have different
  \<open>SIGHASH_ALL | FORKID\<close> hashes, or one of four computed pairs of byte strings is a SHA-256d
  collision.
\<close>

theorem sighash_binds:
  assumes "SighashForkID t idx sc a SighashAllFork = Inr d" and "SighashForkID u idx' sc' a' SighashAllFork = Inr d'"
    and "tx_fits t" "tx_fits u" "length sc < 2 ^ 64" "length sc' < 2 ^ 64"
    and "signed_part t (nat idx) sc a \<noteq> signed_part u (nat idx') sc' a'"
  shows "d \<noteq> d' \<or> list_ex collision (sighash_pairs t (nat idx) sc a u (nat idx') sc' a')"
  using sighash_binds_tx [OF assms(1) _ assms(3-6)] assms(2,7) unfolding signed_part_def by auto

theorem sighash_binds_witness:
  "if SighashForkID (ex_btx 1) 0 [0x51] 5 SighashAllFork = SighashForkID (ex_btx 2) 0 [0x51] 5 SighashAllFork
   then list_ex collision (sighash_pairs (ex_btx 1) 0 [0x51] 5 (ex_btx 2) 0 [0x51] 5) else True"
proof -
  have "tx_fits (ex_btx v)" for v by (simp add: ex_btx_def tx_fits_def in_fits_def out_fits_def)
  moreover have "\<exists>d. SighashForkID (ex_btx v) 0 [0x51] 5 SighashAllFork = Inr d" for v
    by (simp add: SighashForkID_def hash_outputs_def AllFork_flags) (simp add: ex_btx_def)
  then obtain d d' where "SighashForkID (ex_btx 1) 0 [0x51] 5 SighashAllFork = Inr d"
    "SighashForkID (ex_btx 2) 0 [0x51] 5 SighashAllFork = Inr d'" by blast
  moreover have "signed_part (ex_btx 1) (nat 0) [0x51] 5 \<noteq> signed_part (ex_btx 2) (nat 0) [0x51] 5"
    by (simp add: signed_part_def ex_btx_def)
  ultimately show ?thesis using sighash_binds [of "ex_btx 1" 0 "[0x51]" 5 d "ex_btx 2" 0 "[0x51]" 5 d'] by simp
qed

section \<open>What the channel transactions pay\<close>

definition out_total :: "BTx \<Rightarrow> nat" where
  "out_total tx = sum_list (map (unat \<circ> bo_Value) (bt_Outputs tx))"

lemma unat_add_fits: "unat a + unat b < 2 ^ 64 \<Longrightarrow> unat (a + b) = unat a + unat (b :: uint64)"
  by (simp add: unat_word_ariths)

lemma unat_diff_fits: "unat b \<le> unat a \<Longrightarrow> unat (a - b) = unat a - unat (b :: uint64)"
  by (simp add: unat_sub word_le_nat_alt)

lemma CommitmentTx_eq:
  assumes "unat v + unat (ct_Fee c) < 2 ^ 64"
  shows "CommitmentTx c v =
    (if unat v + unat (ct_Fee c) \<le> unat (ct_FundingValue c)
     then Inr \<lparr>bt_Version = 2,
       bt_Inputs = [\<lparr>ti_PrevOut = ct_FundingOut c, ti_ScriptSig = [], ti_Sequence = FinalSequence\<rparr>],
       bt_Outputs = [\<lparr>bo_Value = v, bo_ScriptPubKey = P2PK (ct_ServerPub c)\<rparr>,
         \<lparr>bo_Value = ct_FundingValue c - v - ct_Fee c, bo_ScriptPubKey = P2PK (ct_ClientPub c)\<rparr>],
       bt_LockTime = 0\<rparr>
     else Inl ErrAmount)"
  using assms by (simp add: CommitmentTx_def word_less_nat_alt unat_add_fits Let_def not_less)

text \<open>
  A commitment spends exactly what is locked: as long as payment and fee do not overflow 64 bits,
  \<open>CommitmentTx\<close> refuses a payment that does not fit the funded value and otherwise pays the server
  its amount, the client the rest, and leaves exactly the reserved fee to the miner.
\<close>

theorem commitment_conserves:
  assumes "unat v + unat (ct_Fee c) < 2 ^ 64"
  shows "if unat v + unat (ct_Fee c) \<le> unat (ct_FundingValue c)
    then (\<exists>tx. CommitmentTx c v = Inr tx \<and> out_total tx + unat (ct_Fee c) = unat (ct_FundingValue c) \<and>
      map ti_PrevOut (bt_Inputs tx) = [ct_FundingOut c] \<and>
      map bo_Value (bt_Outputs tx) = [v, ct_FundingValue c - v - ct_Fee c] \<and>
      map bo_ScriptPubKey (bt_Outputs tx) = [P2PK (ct_ServerPub c), P2PK (ct_ClientPub c)])
    else CommitmentTx c v = Inl ErrAmount"
  using CommitmentTx_eq [OF assms] by (simp add: out_total_def unat_diff_fits)

definition ex_chantx :: "uint64 \<Rightarrow> ChannelTx" where
  "ex_chantx fee = \<lparr>ct_FundingOut = \<lparr>po_Hash = copy_from [7], po_Index = 1\<rparr>, ct_FundingValue = 1000,
     ct_ClientPub = [2], ct_ServerPub = [3], ct_Fee = fee\<rparr>"

theorem commitment_conserves_witness:
  "\<exists>tx. CommitmentTx (ex_chantx 10) 600 = Inr tx \<and> out_total tx + 10 = 1000"
  using commitment_conserves [of 600 "ex_chantx 10"] by (auto simp: ex_chantx_def)

text \<open>
  The check of \<open>CommitmentTx\<close> can be passed by overflow: with a reserved fee of \<open>2 ^ 64 - 1\<close> every
  payment within the funded value is accepted, but the transaction spends one satoshi more than
  is locked, so it can never be settled on chain.
\<close>

theorem commitment_fee_overflow:
  assumes "ct_Fee c = - 1" and "0 < v" and "v \<le> ct_FundingValue c"
  shows "\<exists>tx. CommitmentTx c v = Inr tx \<and> out_total tx = Suc (unat (ct_FundingValue c))"
proof -
  let ?f = "ct_FundingValue c"
  have le: "unat v \<le> unat ?f" using assms(3) by (simp add: word_le_nat_alt)
  have "v - 1 \<le> ?f"
  proof -
    have "unat (v - 1) = unat v - 1" using assms(2) by (simp add: unat_minus_one word_gt_0)
    then show ?thesis using le by (simp add: word_le_nat_alt)
  qed
  then have "\<not> ?f < v + - 1" by (simp add: not_less)
  moreover have "unat (?f - v + 1) = Suc (unat ?f - unat v)"
  proof -
    have "?f - v \<noteq> - 1"
    proof
      assume "?f - v = - 1"
      then have "unat ?f - unat v = 2 ^ 64 - 1"
        using unat_diff_fits [OF le] by (simp add: unat_minus_one_word)
      moreover have "0 < unat v" using assms(2) by (simp add: word_less_nat_alt)
      ultimately show False using le unsigned_less [of ?f, where 'a = nat] by simp
    qed
    then show ?thesis using unat_Suc_word [of "?f - v"] unat_diff_fits [OF le] by simp
  qed
  ultimately show ?thesis using assms(1) le by (simp add: CommitmentTx_def Let_def out_total_def)
qed

theorem commitment_fee_overflow_witness:
  "\<exists>tx. CommitmentTx (ex_chantx (- 1)) 600 = Inr tx \<and> out_total tx = 1001"
  using commitment_fee_overflow [of "ex_chantx (- 1)" 600] by (simp add: ex_chantx_def)

end
