(* ===== verification/Channel.thy ===== *)
theory Channel
  imports Bsvtx
begin

text \<open>
  \<^verbatim>\<open>payment/channel/channel.go\<close>: the prepaid unidirectional payment channel. Amounts are
  64-bit words that wrap as in Go; \<open>QueryType\<close> and \<open>FeeMode\<close> are bytes, as they arrive on the
  wire. The mutex is not modelled: each method is one step. \<open>Authorize_with\<close> takes the
  signature check as an argument and the program's \<open>Authorize\<close> is its instance with \<open>verify\<close>; the
  lemmas about payment and accounting hold for every check.
\<close>

section \<open>Prices\<close>

type_synonym QueryType = byte

abbreviation "QSeen \<equiv> (0 :: QueryType)"
abbreviation "QMined \<equiv> (1 :: QueryType)"
abbreviation "QMerklePath \<equiv> (2 :: QueryType)"
abbreviation "QUTXO \<equiv> (3 :: QueryType)"

abbreviation "FeeUpfront \<equiv> (0 :: byte)"
abbreviation "FeeAmortized \<equiv> (1 :: byte)"

record Pricing =
  pg_Flat :: bool
  pg_FlatPrice :: uint64
  pg_PerType :: "uint64 list"
  pg_SettleFee :: uint64
  pg_FeeMode :: byte

text \<open>\<^verbatim>\<open>PerType\<close> is an array of four prices.\<close>

definition service :: "Pricing \<Rightarrow> QueryType \<Rightarrow> uint64" where
  "service p q =
     (if pg_Flat p then pg_FlatPrice p
      else if unat q < length (pg_PerType p) then pg_PerType p ! unat q
      else 0)"

definition ceilDiv :: "uint64 \<Rightarrow> uint64 \<Rightarrow> uint64" where
  "ceilDiv a b = (if b = 0 then 0 else (a + b - 1) div b)"

section \<open>Channels\<close>

record Params =
  pa_ChannelID :: hash
  pa_FundingTxID :: hash
  pa_FundingVout :: uint32
  pa_ClientPub :: bytes
  pa_ServerPub :: bytes
  pa_FundingValue :: uint64
  pa_Fee :: uint64

definition channelTx :: "Params \<Rightarrow> ChannelTx" where
  "channelTx p =
     \<lparr>ct_FundingOut = \<lparr>po_Hash = copy_from (slice (pa_FundingTxID p)), po_Index = pa_FundingVout p\<rparr>,
      ct_FundingValue = pa_FundingValue p, ct_ClientPub = pa_ClientPub p, ct_ServerPub = pa_ServerPub p,
      ct_Fee = pa_Fee p\<rparr>"

record ChanCommitment =
  cm_CumAmount :: uint64
  cm_Sig :: "Signature option"

record Config =
  cf_Params :: Params
  cf_Deposit :: uint64
  cf_ClientPub :: "PublicKey option"
  cf_Pricing :: Pricing
  cf_N :: uint64
  cf_RefundLockTime :: uint32
  cf_SettleBefore :: uint32

record Channel =
  ch_cfg :: Config
  ch_accesses :: uint64
  ch_cumPaid :: uint64
  ch_best :: "ChanCommitment option"
  ch_closed :: bool

definition Open :: "Config \<Rightarrow> go_error + Channel" where
  "Open cfg =
     (if cf_ClientPub cfg = None \<or> cf_Deposit cfg = 0 then Inl ErrConfig
      else if pg_FeeMode (cf_Pricing cfg) = FeeAmortized \<and> cf_N cfg = 0 then Inl ErrConfig
      else if cf_N cfg = 0 \<and> cf_SettleBefore cfg = 0 then Inl ErrConfig
      else if cf_RefundLockTime cfg \<noteq> 0 \<and> cf_SettleBefore cfg \<noteq> 0 \<and> cf_RefundLockTime cfg \<le> cf_SettleBefore cfg
      then Inl ErrConfig
      else
        let p = cf_Params cfg;
            p = (if pa_FundingValue p = 0 then p\<lparr>pa_FundingValue := cf_Deposit cfg\<rparr> else p)
        in case (if pa_ClientPub p = [] then SerializeCompressed (the (cf_ClientPub cfg)) else Inr (pa_ClientPub p)) of
             Inl e \<Rightarrow> Inl e
           | Inr pub \<Rightarrow>
               Inr \<lparr>ch_cfg = cfg\<lparr>cf_Params := p\<lparr>pa_ClientPub := pub\<rparr>\<rparr>, ch_accesses = 0, ch_cumPaid = 0,
                    ch_best = None, ch_closed = False\<rparr>)"

definition feeComponent :: "Channel \<Rightarrow> uint64 \<Rightarrow> uint64" where
  "feeComponent ch accessNo =
     (let p = cf_Pricing (ch_cfg ch)
      in if pg_FeeMode p = FeeUpfront then (if accessNo = 1 then pg_SettleFee p else 0)
         else if pg_FeeMode p = FeeAmortized then ceilDiv (pg_SettleFee p) (cf_N (ch_cfg ch))
         else 0)"

definition Quote :: "Channel \<Rightarrow> QueryType \<Rightarrow> uint64" where
  "Quote ch q =
     ch_cumPaid ch + service (cf_Pricing (ch_cfg ch)) q + feeComponent ch (ch_accesses ch + 1)"

section \<open>Signing and checking commitments\<close>

definition sighash :: "Params \<Rightarrow> uint64 \<Rightarrow> go_error + bytes" where
  "sighash p cum = CommitmentSighash (channelTx p) cum"

definition verify :: "PublicKey option \<Rightarrow> Params \<Rightarrow> uint64 \<Rightarrow> Signature option \<Rightarrow> go_error + bool" where
  "verify pub p cum sig =
     (if \<not> IsLowS sig then Inr False
      else case sighash p cum of Inl err \<Rightarrow> Inr False | Inr h \<Rightarrow> ecdsa_Verify pub h sig)"

definition SignCommitment :: "PrivateKey option \<Rightarrow> Params \<Rightarrow> uint64 \<Rightarrow> (go_error + ChanCommitment) option" where
  "SignCommitment priv p cum =
     (case sighash p cum of Inl e \<Rightarrow> Some (Inl e)
      | Inr h \<Rightarrow>
          map_option (\<lambda>r. case r of Inl e \<Rightarrow> Inl e
            | Inr sig \<Rightarrow> Inr \<lparr>cm_CumAmount = cum, cm_Sig = Some sig\<rparr>) (Sign priv h))"

section \<open>Operations\<close>

type_synonym sig_check = "PublicKey option \<Rightarrow> Params \<Rightarrow> uint64 \<Rightarrow> Signature option \<Rightarrow> go_error + bool"

text \<open>The new state and the error, if any; a panic in the check is reported like an error.\<close>

definition Authorize_with :: "sig_check \<Rightarrow> Channel \<Rightarrow> ChanCommitment option \<Rightarrow> QueryType \<Rightarrow> Channel \<times> go_error option" where
  "Authorize_with vf ch c q =
     (if ch_closed ch then (ch, Some ErrClosed)
      else case c of None \<Rightarrow> (ch, Some ErrBadSig)
      | Some c \<Rightarrow>
          if cm_Sig c = None then (ch, Some ErrBadSig)
          else
            let required = ch_cumPaid ch + service (cf_Pricing (ch_cfg ch)) q + feeComponent ch (ch_accesses ch + 1)
            in if cm_CumAmount c < required then (ch, Some ErrUnderpaid)
               else if cf_Deposit (ch_cfg ch) < cm_CumAmount c then (ch, Some ErrExceedsDeposit)
               else case vf (cf_ClientPub (ch_cfg ch)) (cf_Params (ch_cfg ch)) (cm_CumAmount c) (cm_Sig c) of
                      Inl e \<Rightarrow> (ch, Some e)
                    | Inr False \<Rightarrow> (ch, Some ErrBadSig)
                    | Inr True \<Rightarrow>
                        (ch\<lparr>ch_cumPaid := cm_CumAmount c, ch_accesses := ch_accesses ch + 1, ch_best := Some c\<rparr>, None))"

definition Authorize :: "Channel \<Rightarrow> ChanCommitment option \<Rightarrow> QueryType \<Rightarrow> Channel \<times> go_error option" where
  "Authorize = Authorize_with verify"

record Snapshot =
  sn_Accesses :: uint64
  sn_CumPaid :: uint64
  sn_Deposit :: uint64
  sn_Closed :: bool

definition snapshot :: "Channel \<Rightarrow> Snapshot" where
  "snapshot ch =
     \<lparr>sn_Accesses = ch_accesses ch, sn_CumPaid = ch_cumPaid ch, sn_Deposit = cf_Deposit (ch_cfg ch),
      sn_Closed = ch_closed ch\<rparr>"

definition ShouldSettle :: "Channel \<Rightarrow> uint32 \<Rightarrow> bool \<times> string" where
  "ShouldSettle ch now =
     (if ch_closed ch then (False, ''closed'')
      else if 0 < cf_N (ch_cfg ch) \<and> cf_N (ch_cfg ch) \<le> ch_accesses ch then (True, ''count'')
      else if 0 < cf_SettleBefore (ch_cfg ch) \<and> cf_SettleBefore (ch_cfg ch) \<le> now then (True, ''time'')
      else (False, []))"

record Settlement =
  se_ToServer :: uint64
  se_ToClient :: uint64
  se_MiningFee :: uint64
  se_NetServer :: uint64
  se_Accesses :: uint64

definition Settle :: "Channel \<Rightarrow> Channel \<times> (go_error + Settlement)" where
  "Settle ch =
     (if ch_closed ch then (ch, Inl ErrClosed)
      else
        let mining = pg_SettleFee (cf_Pricing (ch_cfg ch));
            mining = (if ch_cumPaid ch < mining then ch_cumPaid ch else mining)
        in (ch\<lparr>ch_closed := True\<rparr>,
            Inr \<lparr>se_ToServer = ch_cumPaid ch, se_ToClient = cf_Deposit (ch_cfg ch) - ch_cumPaid ch,
                 se_MiningFee = mining, se_NetServer = ch_cumPaid ch - mining, se_Accesses = ch_accesses ch\<rparr>))"

record Refund =
  rf_LockTime :: uint32
  rf_Amount :: uint64
  rf_ToClient :: bool

definition refund :: "Channel \<Rightarrow> Refund" where
  "refund ch = \<lparr>rf_LockTime = cf_RefundLockTime (ch_cfg ch), rf_Amount = cf_Deposit (ch_cfg ch), rf_ToClient = True\<rparr>"

definition derFromSig :: "Signature \<Rightarrow> bytes" where
  "derFromSig s = derEncode (sig_R s) (sig_S s)"

definition SettlementTx :: "Channel \<Rightarrow> PrivateKey option \<Rightarrow> (go_error + BTx) option" where
  "SettlementTx ch serverPriv =
     (case ch_best ch of None \<Rightarrow> Some (Inl ErrNoCommitment)
      | Some best \<Rightarrow>
          let c = channelTx (cf_Params (ch_cfg ch))
          in case CommitmentTx c (ch_cumPaid ch) of Inl e \<Rightarrow> Some (Inl e)
             | Inr tx \<Rightarrow>
                 map_option (\<lambda>r. case r of Inl e \<Rightarrow> Inl e
                   | Inr serverSig \<Rightarrow>
                       (case cm_Sig best of None \<Rightarrow> Inl PanicNil
                        | Some sg \<Rightarrow> Finalize2of2 tx (derFromSig sg @ [ucast SighashAllFork]) serverSig))
                   (SignInput serverPriv tx 0 (Redeem c) (ct_FundingValue c) SighashAllFork))"

definition RefundTxUnsigned :: "Channel \<Rightarrow> BTx" where
  "RefundTxUnsigned ch = RefundTx (channelTx (cf_Params (ch_cfg ch))) (cf_RefundLockTime (ch_cfg ch))"

definition DeriveChannelID :: "hash \<Rightarrow> uint32 \<Rightarrow> hash" where
  "DeriveChannelID fundingTxID vout =
     DoubleSHA256 (slice fundingTxID @
       [ucast vout, ucast (drop_bit 8 vout), ucast (drop_bit 16 vout), ucast (drop_bit 24 vout)])"

section \<open>Runs of a channel\<close>

text \<open>
  All ways a channel is used after \<open>Open\<close>: accepted and rejected commitments in any order, and
  settlement. The list records the accesses that were served.
\<close>

inductive chan_run :: "sig_check \<Rightarrow> Channel \<Rightarrow> QueryType list \<Rightarrow> Channel \<Rightarrow> bool"
  for vf :: sig_check and ch0 :: Channel where
  start: "chan_run vf ch0 [] ch0"
| serve: "chan_run vf ch0 qs ch \<Longrightarrow> Authorize_with vf ch c q = (ch', None) \<Longrightarrow> chan_run vf ch0 (qs @ [q]) ch'"
| reject: "chan_run vf ch0 qs ch \<Longrightarrow> Authorize_with vf ch c q = (ch', Some e) \<Longrightarrow> chan_run vf ch0 qs ch'"
| settle: "chan_run vf ch0 qs ch \<Longrightarrow> Settle ch = (ch', r) \<Longrightarrow> chan_run vf ch0 qs ch'"

definition chan_inv :: "sig_check \<Rightarrow> Channel \<Rightarrow> bool" where
  "chan_inv vf ch =
     (ch_cumPaid ch \<le> cf_Deposit (ch_cfg ch) \<and>
      (case ch_best ch of None \<Rightarrow> ch_cumPaid ch = 0
       | Some c \<Rightarrow> cm_CumAmount c = ch_cumPaid ch \<and> cm_Sig c \<noteq> None \<and>
           vf (cf_ClientPub (ch_cfg ch)) (cf_Params (ch_cfg ch)) (ch_cumPaid ch) (cm_Sig c) = Inr True))"

lemma Authorize_reject: "Authorize_with vf ch c q = (ch', Some e) \<Longrightarrow> ch' = ch"
  by (auto simp: Authorize_with_def Let_def split: if_splits option.splits sum.splits bool.splits)

lemma Authorize_accept:
  assumes "Authorize_with vf ch c q = (ch', None)"
  obtains cm where "c = Some cm" and "\<not> ch_closed ch" and "cm_Sig cm \<noteq> None"
    and "Quote ch q \<le> cm_CumAmount cm" and "cm_CumAmount cm \<le> cf_Deposit (ch_cfg ch)"
    and "vf (cf_ClientPub (ch_cfg ch)) (cf_Params (ch_cfg ch)) (cm_CumAmount cm) (cm_Sig cm) = Inr True"
    and "ch' = ch\<lparr>ch_cumPaid := cm_CumAmount cm, ch_accesses := ch_accesses ch + 1, ch_best := Some cm\<rparr>"
  using assms
  by (auto simp: Authorize_with_def Quote_def Let_def not_less split: if_splits option.splits sum.splits bool.splits)

lemma Settle_state: "Settle ch = (ch', r) \<Longrightarrow> ch' = ch\<lparr>ch_closed := True\<rparr>"
  by (auto simp: Settle_def Let_def split: if_splits)

lemma Open_form:
  "Open cfg = Inr ch \<Longrightarrow> \<exists>p. ch = \<lparr>ch_cfg = cfg\<lparr>cf_Params := p\<rparr>, ch_accesses = 0, ch_cumPaid = 0, ch_best = None, ch_closed = False\<rparr>"
  unfolding Open_def Let_def by (simp only: split: if_split_asm sum.split_asm) blast+

lemma Open_state:
  assumes "Open cfg = Inr ch"
  shows "ch_accesses ch = 0" "ch_cumPaid ch = 0" "ch_best ch = None" "\<not> ch_closed ch"
    "cf_Deposit (ch_cfg ch) = cf_Deposit cfg" "cf_Pricing (ch_cfg ch) = cf_Pricing cfg" "cf_N (ch_cfg ch) = cf_N cfg"
    "cf_ClientPub (ch_cfg ch) = cf_ClientPub cfg"
  using Open_form [OF assms] by auto

lemma run_inv:
  assumes "chan_run vf ch0 qs ch" and "chan_inv vf ch0"
  shows "chan_inv vf ch \<and> ch_cfg ch = ch_cfg ch0"
  using assms
proof (induction rule: chan_run.induct)
  case (serve qs ch c q ch')
  from serve.hyps(2) show ?case
    by (rule Authorize_accept) (use serve.IH serve.prems in \<open>simp add: chan_inv_def\<close>)
next
  case (reject qs ch c q ch' e)
  with Authorize_reject [OF reject.hyps(2)] show ?case by simp
next
  case (settle qs ch ch' r)
  with Settle_state [OF settle.hyps(2)] show ?case by (auto simp: chan_inv_def split: option.splits)
qed simp

lemma Open_inv: "Open cfg = Inr ch \<Longrightarrow> chan_inv vf ch"
  using Open_state [of cfg ch] by (simp add: chan_inv_def)

section \<open>Payment leads service\<close>

text \<open>Prices as natural numbers: the service price and the share of the settlement fee.\<close>

definition fee_at :: "Config \<Rightarrow> nat \<Rightarrow> nat" where
  "fee_at cfg i =
     (let p = cf_Pricing cfg; s = unat (pg_SettleFee p); n = unat (cf_N cfg)
      in if pg_FeeMode p = FeeUpfront then (if i = 1 then s else 0)
         else if pg_FeeMode p = FeeAmortized then (s + n - 1) div n
         else 0)"

definition total_price :: "Config \<Rightarrow> QueryType list \<Rightarrow> nat" where
  "total_price cfg qs =
     (\<Sum>i < length qs. unat (service (cf_Pricing cfg) (qs ! i)) + fee_at cfg (Suc i))"

text \<open>No sum of deposit, price and fee reaches \<open>2 ^ 64\<close>.\<close>

definition no_overflow :: "Config \<Rightarrow> bool" where
  "no_overflow cfg =
     (\<forall>q. unat (cf_Deposit cfg) + unat (service (cf_Pricing cfg) q) +
        unat (pg_SettleFee (cf_Pricing cfg)) + unat (cf_N cfg) < 2 ^ 64)"

lemma total_price_snoc:
  "total_price cfg (qs @ [q]) = total_price cfg qs + unat (service (cf_Pricing cfg) q) + fee_at cfg (Suc (length qs))"
  by (simp add: total_price_def nth_append)

lemma feeComponent_nat:
  assumes "no_overflow cfg" and "cf_Pricing (ch_cfg ch) = cf_Pricing cfg" "cf_N (ch_cfg ch) = cf_N cfg"
    and "pg_FeeMode (cf_Pricing cfg) = FeeAmortized \<Longrightarrow> cf_N cfg \<noteq> 0" and "unat i = n"
  shows "unat (feeComponent ch i) = fee_at cfg n" and "fee_at cfg n \<le> unat (pg_SettleFee (cf_Pricing cfg))"
proof -
  let ?s = "pg_SettleFee (cf_Pricing cfg)" and ?n = "cf_N cfg"
  have b: "unat ?s + unat ?n < 2 ^ 64" using assms(1) by (auto simp: no_overflow_def dest: spec [of _ 0])
  have c: "unat (ceilDiv ?s ?n) = (unat ?s + unat ?n - 1) div unat ?n" if "?n \<noteq> 0"
  proof -
    have p: "0 < unat ?n" using that by (simp add: unat_gt_0)
    have "unat (?s + ?n) = unat ?s + unat ?n" using b by (simp add: unat_add_fits)
    then have "unat (?s + ?n - 1) = unat ?s + unat ?n - 1"
      using p by (metis add_gr_0 unat_eq_zero less_not_refl unat_minus_one)
    then show ?thesis using that by (simp add: ceilDiv_def unat_div)
  qed
  have "i = 1 \<longleftrightarrow> n = 1" using assms(5) by (auto simp: word_unat_eq_iff)
  with c assms(2,3,4) show "unat (feeComponent ch i) = fee_at cfg n"
    by (auto simp: feeComponent_def fee_at_def Let_def)
  have "(a + k - 1) div k \<le> a" if "0 < k" for a k :: nat
  proof (cases a)
    case (Suc b)
    obtain m where "k = Suc m" using \<open>0 < k\<close> by (cases k) auto
    then have "a + k - 1 \<le> a * k" using Suc by simp
    then have "(a + k - 1) div k \<le> (a * k) div k" by (rule div_le_mono)
    then show ?thesis using that by simp
  qed (use that in simp)
  then show "fee_at cfg n \<le> unat ?s"
    using assms(4) by (auto simp: fee_at_def Let_def unat_gt_0)
qed

lemma Open_amortized: "Open cfg = Inr ch \<Longrightarrow> pg_FeeMode (cf_Pricing cfg) = FeeAmortized \<Longrightarrow> cf_N cfg \<noteq> 0"
  by (auto simp: Open_def split: if_splits)

lemma Quote_nat:
  assumes "no_overflow cfg" and "cf_Pricing (ch_cfg ch) = cf_Pricing cfg" "cf_N (ch_cfg ch) = cf_N cfg"
    and "pg_FeeMode (cf_Pricing cfg) = FeeAmortized \<Longrightarrow> cf_N cfg \<noteq> 0"
    and "unat (ch_accesses ch + 1) = Suc n" and "ch_cumPaid ch \<le> cf_Deposit cfg"
  shows "unat (Quote ch q) = unat (ch_cumPaid ch) + unat (service (cf_Pricing cfg) q) + fee_at cfg (Suc n)"
proof -
  note f = feeComponent_nat [OF assms(1-4) assms(5)]
  have b: "unat (cf_Deposit cfg) + unat (service (cf_Pricing cfg) q) + unat (pg_SettleFee (cf_Pricing cfg)) < 2 ^ 64"
    using assms(1) by (auto simp: no_overflow_def dest!: spec [of _ q])
  have c: "unat (ch_cumPaid ch) \<le> unat (cf_Deposit cfg)" using assms(6) by (simp add: word_le_nat_alt)
  have 1: "unat (ch_cumPaid ch + service (cf_Pricing cfg) q) = unat (ch_cumPaid ch) + unat (service (cf_Pricing cfg) q)"
    using b c by (intro unat_add_fits) linarith
  show ?thesis
    unfolding Quote_def assms(2) using b c 1 f by (subst unat_add_fits) simp_all
qed

lemma run_paid:
  assumes run: "chan_run vf ch0 qs ch" and op: "Open cfg = Inr ch0" and no: "no_overflow cfg" and len: "length qs < 2 ^ 64"
  shows "unat (ch_accesses ch) = length qs \<and> total_price cfg qs \<le> unat (ch_cumPaid ch)"
  using run len
proof (induction rule: chan_run.induct)
  case start
  then show ?case using Open_state [OF op] by (simp add: total_price_def)
next
  case (serve qs ch c q ch')
  have IH: "unat (ch_accesses ch) = length qs" "total_price cfg qs \<le> unat (ch_cumPaid ch)"
    using serve.IH serve.prems by simp_all
  note inv = run_inv [OF serve.hyps(1) Open_inv [OF op]] and st = Open_state [OF op]
  have a: "unat (ch_accesses ch + 1) = Suc (length qs)"
    using unat_add_fits [of "ch_accesses ch" 1] IH(1) serve.prems by simp
  from serve.hyps(2) show ?case
  proof (rule Authorize_accept)
    fix cm
    assume q: "Quote ch q \<le> cm_CumAmount cm"
      and ch': "ch' = ch\<lparr>ch_cumPaid := cm_CumAmount cm, ch_accesses := ch_accesses ch + 1, ch_best := Some cm\<rparr>"
    have "unat (Quote ch q) = unat (ch_cumPaid ch) + unat (service (cf_Pricing cfg) q) + fee_at cfg (Suc (length qs))"
    proof (rule Quote_nat [OF no _ _ Open_amortized [OF op] a])
      show "cf_Pricing (ch_cfg ch) = cf_Pricing cfg" "cf_N (ch_cfg ch) = cf_N cfg" using inv st by simp_all
      show "ch_cumPaid ch \<le> cf_Deposit cfg" using inv st(5) unfolding chan_inv_def by metis
    qed
    with q IH(2) a show ?thesis by (simp add: ch' total_price_snoc word_le_nat_alt)
  qed
next
  case (reject qs ch c q ch' e)
  with Authorize_reject [OF reject.hyps(2)] show ?case by simp
next
  case (settle qs ch ch' r)
  with Settle_state [OF settle.hyps(2)] show ?case by simp
qed

text \<open>
  C7. Prepay, then serve: in every run of a channel, with accepted and rejected commitments and
  settlement in any order and whatever the signature check accepts, the amount the server can
  collect covers the price of every access it served, including its share of the settlement fee,
  and never exceeds the deposit; the best commitment kept is one whose signature was checked for
  exactly that amount.
\<close>

theorem prepay_covers_service:
  assumes "Open cfg = Inr ch0" and "chan_run vf ch0 qs ch" and "no_overflow cfg" and "length qs < 2 ^ 64"
  shows "total_price cfg qs \<le> unat (ch_cumPaid ch) \<and> ch_cumPaid ch \<le> cf_Deposit cfg \<and>
    unat (ch_accesses ch) = length qs \<and>
    (case ch_best ch of None \<Rightarrow> ch_cumPaid ch = 0
     | Some c \<Rightarrow> cm_CumAmount c = ch_cumPaid ch \<and>
         vf (cf_ClientPub cfg) (cf_Params (ch_cfg ch0)) (ch_cumPaid ch) (cm_Sig c) = Inr True)"
proof -
  have "chan_inv vf ch \<and> ch_cfg ch = ch_cfg ch0" by (rule run_inv [OF assms(2) Open_inv [OF assms(1)]])
  then show ?thesis
    using run_paid [OF assms(2,1,3,4)] Open_state [OF assms(1)] by (auto simp: chan_inv_def split: option.splits)
qed

definition ex_pricing :: Pricing where
  "ex_pricing = \<lparr>pg_Flat = False, pg_FlatPrice = 0, pg_PerType = [1, 2, 3, 4], pg_SettleFee = 50, pg_FeeMode = FeeUpfront\<rparr>"

definition ex_cfg :: Config where
  "ex_cfg = \<lparr>cf_Params = \<lparr>pa_ChannelID = copy_from [1], pa_FundingTxID = copy_from [2], pa_FundingVout = 0,
     pa_ClientPub = [2], pa_ServerPub = [3], pa_FundingValue = 1000, pa_Fee = 10\<rparr>, cf_Deposit = 1000,
     cf_ClientPub = Some \<lparr>pk_X = Some 1, pk_Y = Some 1\<rparr>, cf_Pricing = ex_pricing, cf_N = 100,
     cf_RefundLockTime = 0, cf_SettleBefore = 0\<rparr>"

definition ex_channel :: Channel where
  "ex_channel = \<lparr>ch_cfg = ex_cfg, ch_accesses = 0, ch_cumPaid = 0, ch_best = None, ch_closed = False\<rparr>"

definition ex_commit :: "uint64 \<Rightarrow> ChanCommitment option" where
  "ex_commit v = Some \<lparr>cm_CumAmount = v, cm_Sig = Some \<lparr>sig_R = 1, sig_S = 1\<rparr>\<rparr>"

text \<open>A check that accepts everything, for examples.\<close>

abbreviation accept_all :: sig_check where
  "accept_all \<equiv> \<lambda>_ _ _ _. Inr True"

lemma ex_open: "Open ex_cfg = Inr ex_channel"
  by (simp add: Open_def ex_cfg_def ex_channel_def ex_pricing_def)

lemma ex_run:
  "chan_run accept_all ex_channel [QMined, QUTXO]
     (ex_channel\<lparr>ch_cumPaid := 60, ch_accesses := 2, ch_best := ex_commit 60\<rparr>)"
proof -
  have 1: "Authorize_with accept_all ex_channel (ex_commit 52) QMined =
      (ex_channel\<lparr>ch_cumPaid := 52, ch_accesses := 1, ch_best := ex_commit 52\<rparr>, None)" by code_simp
  have 2: "Authorize_with accept_all (ex_channel\<lparr>ch_cumPaid := 52, ch_accesses := 1, ch_best := ex_commit 52\<rparr>) (ex_commit 60) QUTXO =
      (ex_channel\<lparr>ch_cumPaid := 60, ch_accesses := 2, ch_best := ex_commit 60\<rparr>, None)" by code_simp
  show ?thesis using chan_run.serve [OF chan_run.serve [OF chan_run.start 1] 2] by simp
qed

lemma ex_no_overflow: "no_overflow ex_cfg"
proof -
  have "unat (service ex_pricing q) \<le> 4" for q
  proof -
    have "unat q = 0 \<or> unat q = 1 \<or> unat q = 2 \<or> unat q = 3 \<or> 4 \<le> unat q" by linarith
    then show ?thesis by (auto simp: service_def ex_pricing_def)
  qed
  then show ?thesis
    unfolding no_overflow_def
    by (intro allI) (rule le_less_trans [of _ "1000 + 4 + 50 + 100"], simp_all add: ex_cfg_def ex_pricing_def [THEN arg_cong [of _ _ pg_SettleFee]])
qed

theorem prepay_covers_service_witness:
  "total_price ex_cfg [QMined, QUTXO] \<le> 60 \<and> chan_run accept_all ex_channel [QMined, QUTXO]
     (ex_channel\<lparr>ch_cumPaid := 60, ch_accesses := 2, ch_best := ex_commit 60\<rparr>)"
  using prepay_covers_service [OF ex_open ex_run ex_no_overflow] ex_run by simp

section \<open>Settlement\<close>

lemma fee_first: "total_price cfg (q # qs) \<ge> fee_at cfg 1"
proof -
  have "unat (service (cf_Pricing cfg) ((q # qs) ! 0)) + fee_at cfg (Suc 0) \<le> total_price cfg (q # qs)"
    unfolding total_price_def by (rule member_le_sum) simp_all
  then show ?thesis by simp
qed

text \<open>
  C39. Settling is exact and final: whatever happened before, an open channel settles once, what goes
  to the server and to the client adds up to the deposit, the mining fee comes out of the server's
  share, and with an upfront fee one served access already pays the whole settlement fee; a closed
  channel refuses both settlement and further commitments without changing.
\<close>

theorem settle_conserves:
  assumes "Open cfg = Inr ch0" and "chan_run vf ch0 qs ch" and "no_overflow cfg" and "length qs < 2 ^ 64"
  shows "(if ch_closed ch then Settle ch = (ch, Inl ErrClosed) \<and> Authorize_with vf ch c q = (ch, Some ErrClosed)
    else (\<exists>s. Settle ch = (ch\<lparr>ch_closed := True\<rparr>, Inr s) \<and>
      unat (se_ToServer s) + unat (se_ToClient s) = unat (cf_Deposit cfg) \<and>
      unat (se_MiningFee s) + unat (se_NetServer s) = unat (se_ToServer s) \<and>
      total_price cfg qs \<le> unat (se_ToServer s) \<and>
      (if pg_FeeMode (cf_Pricing cfg) = FeeUpfront \<and> qs \<noteq> []
       then se_MiningFee s = pg_SettleFee (cf_Pricing cfg) else True)))"
proof -
  have inv: "chan_inv vf ch \<and> ch_cfg ch = ch_cfg ch0" by (rule run_inv [OF assms(2) Open_inv [OF assms(1)]])
  note st = Open_state [OF assms(1)] and paid = run_paid [OF assms(2,1,3,4)]
  have le: "ch_cumPaid ch \<le> cf_Deposit cfg" using inv st(5) unfolding chan_inv_def by metis
  show ?thesis
  proof (cases "ch_closed ch")
    case True
    then show ?thesis by (simp add: Settle_def Authorize_with_def)
  next
    case False
    let ?m = "pg_SettleFee (cf_Pricing cfg)"
    define m where "m = (if ch_cumPaid ch < ?m then ch_cumPaid ch else ?m)"
    have mle: "unat m \<le> unat (ch_cumPaid ch)" by (auto simp: m_def word_less_nat_alt)
    have up: "m = ?m" if "pg_FeeMode (cf_Pricing cfg) = FeeUpfront" "qs \<noteq> []"
    proof -
      have "fee_at cfg 1 = unat ?m" using that(1) by (simp add: fee_at_def)
      then have "unat ?m \<le> unat (ch_cumPaid ch)" using paid fee_first [of cfg "hd qs" "tl qs"] that(2) by simp
      then show ?thesis by (auto simp: m_def word_less_nat_alt)
    qed
    have "Settle ch = (ch\<lparr>ch_closed := True\<rparr>,
        Inr \<lparr>se_ToServer = ch_cumPaid ch, se_ToClient = cf_Deposit cfg - ch_cumPaid ch, se_MiningFee = m,
          se_NetServer = ch_cumPaid ch - m, se_Accesses = ch_accesses ch\<rparr>)"
      using False inv st(5,6) by (simp add: Settle_def m_def Let_def)
    then show ?thesis
      using False le mle paid up by (simp add: unat_diff_fits word_le_nat_alt)
  qed
qed

theorem settle_conserves_witness:
  "\<exists>s. snd (Settle (ex_channel\<lparr>ch_cumPaid := 60, ch_accesses := 2, ch_best := ex_commit 60\<rparr>)) = Inr s \<and>
     unat (se_ToServer s) + unat (se_ToClient s) = 1000 \<and> se_MiningFee s = 50"
  using settle_conserves [OF ex_open ex_run ex_no_overflow]
  by (auto simp: ex_channel_def ex_cfg_def ex_pricing_def)

lemma ecdsa_range:
  assumes "ecdsa_Verify pub h (Some sg) = Inr True"
  shows "0 < sig_R sg" "sig_R sg < curveN" "0 < sig_S sg" "sig_S sg < curveN"
  using assms by (auto simp: ecdsa_Verify_def Let_def not_le split: option.splits if_splits)

lemma VerifyInput_der:
  assumes "ecdsa_Verify pub h (Some sg) = Inr True" and "IsLowS (Some sg)"
    and "SighashForkID t idx sc a SighashAllFork = Inr h"
  shows "VerifyInput pub t idx sc a (derFromSig sg @ [ucast SighashAllFork]) = Inr True"
proof -
  note r = ecdsa_range [OF assms(1)]
  have n: "curveN < 256 ^ 32" by (simp add: curveN_def)
  have d1: "derDecode (derFromSig sg) = Inr (sig_R sg, sig_S sg)" and d2: "8 \<le> length (derFromSig sg)"
    unfolding derFromSig_def using r n by (intro der_roundtrip; linarith)+
  have t: "ucast (ucast SighashAllFork :: byte) = SighashAllFork" by (simp add: SighashAllFork_def)
  show ?thesis
    unfolding VerifyInput_def using d1 d2 assms t by (cases sg) (simp add: Let_def)
qed

lemma SighashForkID_scriptSig:
  "bt_Inputs t = [i] \<Longrightarrow>
   SighashForkID (t\<lparr>bt_Inputs := [i\<lparr>ti_ScriptSig := s\<rparr>]\<rparr>) 0 sc a h = SighashForkID t 0 sc a h"
  by (simp add: SighashForkID_def hash_outputs_def sighash_preimage_def hash_prevouts_def hash_sequence_def ser_prevout_def)



end
