(* ===== verification/Payment.thy ===== *)
theory Payment
  imports Api Channel
begin

text \<open>
  \<^verbatim>\<open>payment/paid.go\<close> and \<^verbatim>\<open>payment/abuse.go\<close>: the registry of channels in front of the
  lookup API, and its abuse controls. The state is a store together with the registry; alerts
  are the list of notifications sent so far. The lock is not modelled: every method is one step.
  As in theory Channel the signature check is an argument.
\<close>

section \<open>Abuse policy and alerts\<close>

record AbusePolicy =
  ap_MinDeposit :: uint64
  ap_MaxChannels :: int
  ap_MaxBadAttempts :: int

definition DefaultPolicy :: AbusePolicy where
  "DefaultPolicy = \<lparr>ap_MinDeposit = 0, ap_MaxChannels = 0, ap_MaxBadAttempts = 64\<rparr>"

type_synonym AlertKind = byte

abbreviation "AlertChannelBanned \<equiv> (0 :: AlertKind)"
abbreviation "AlertOpenRejected \<equiv> (1 :: AlertKind)"
abbreviation "AlertOpenFlood \<equiv> (2 :: AlertKind)"

definition AlertKind_String :: "AlertKind \<Rightarrow> string" where
  "AlertKind_String k =
     (if k = AlertChannelBanned then ''channel-banned''
      else if k = AlertOpenRejected then ''open-rejected''
      else if k = AlertOpenFlood then ''open-flood''
      else ''unknown'')"

record Alert =
  al_Kind :: AlertKind
  al_ChannelID :: hash
  al_Detail :: string
  al_Count :: int

section \<open>The registry\<close>

record PaidServer =
  ps_policy :: AbusePolicy
  ps_channels :: "(hash, Channel) fmap"
  ps_bad :: "(hash, int) fmap"
  ps_banned :: "(hash, bool) fmap"
  ps_alerts :: "Alert list"

definition NewWithPolicy :: "AbusePolicy \<Rightarrow> PaidServer" where
  "NewWithPolicy p =
     \<lparr>ps_policy = p, ps_channels = fmempty, ps_bad = fmempty, ps_banned = fmempty, ps_alerts = []\<rparr>"

definition Notify :: "Alert \<Rightarrow> PaidServer \<Rightarrow> PaidServer" where
  "Notify a ps = ps\<lparr>ps_alerts := ps_alerts ps @ [a]\<rparr>"

definition OpenChannel :: "Config \<Rightarrow> PaidServer \<Rightarrow> PaidServer \<times> (go_error + Channel)" where
  "OpenChannel cfg ps =
     (let cid = pa_ChannelID (cf_Params cfg); pol = ps_policy ps
      in if 0 < ap_MinDeposit pol \<and> cf_Deposit cfg < ap_MinDeposit pol
         then (Notify \<lparr>al_Kind = AlertOpenRejected, al_ChannelID = cid, al_Detail = ''deposit below MinDeposit'',
                       al_Count = 0\<rparr> ps, Inl ErrDepositTooSmall)
         else
           let count = int (fcard (fmdom (ps_channels ps)))
           in if 0 < ap_MaxChannels pol \<and> ap_MaxChannels pol \<le> count
              then (Notify \<lparr>al_Kind = AlertOpenFlood, al_ChannelID = cid, al_Detail = ''MaxChannels reached'',
                            al_Count = count\<rparr> ps, Inl ErrTooManyChannels)
              else case Open cfg of
                     Inl err \<Rightarrow> (ps, Inl err)
                   | Inr ch \<Rightarrow> (ps\<lparr>ps_channels := fmupd cid ch (ps_channels ps)\<rparr>, Inr ch))"

text \<open>A missing key of a Go map reads as the zero value.\<close>

definition lookup :: "PaidServer \<Rightarrow> hash \<Rightarrow> go_error + Channel" where
  "lookup ps cid =
     (if fmlookup (ps_banned ps) cid = Some True then Inl ErrChannelBanned
      else case fmlookup (ps_channels ps) cid of None \<Rightarrow> Inl ErrNoChannel | Some ch \<Rightarrow> Inr ch)"

definition bad_count :: "PaidServer \<Rightarrow> hash \<Rightarrow> int" where
  "bad_count ps cid = (case fmlookup (ps_bad ps) cid of None \<Rightarrow> 0 | Some n \<Rightarrow> n)"

definition recordBad :: "hash \<Rightarrow> PaidServer \<Rightarrow> PaidServer" where
  "recordBad cid ps =
     (if ap_MaxBadAttempts (ps_policy ps) \<le> 0 then ps
      else
        let n = bad_count ps cid + 1;
            ps = ps\<lparr>ps_bad := fmupd cid n (ps_bad ps)\<rparr>
        in if ap_MaxBadAttempts (ps_policy ps) \<le> n \<and> fmlookup (ps_banned ps) cid \<noteq> Some True
           then Notify \<lparr>al_Kind = AlertChannelBanned, al_ChannelID = cid,
                        al_Detail = ''bad-attempt budget exceeded'', al_Count = n\<rparr>
                  (ps\<lparr>ps_banned := fmupd cid True (ps_banned ps)\<rparr>)
           else ps)"

definition paid_Quote :: "PaidServer \<Rightarrow> hash \<Rightarrow> QueryType \<Rightarrow> go_error + uint64" where
  "paid_Quote ps channelID q = (case lookup ps channelID of Inl err \<Rightarrow> Inl err | Inr ch \<Rightarrow> Inr (Quote ch q))"

text \<open>The channel is an object behind a pointer: \<open>Authorize\<close> updates it in the registry.\<close>

definition authorize ::
  "sig_check \<Rightarrow> hash \<Rightarrow> ChanCommitment option \<Rightarrow> QueryType \<Rightarrow> PaidServer \<Rightarrow> PaidServer \<times> go_error option" where
  "authorize vf channelID c q ps =
     (case lookup ps channelID of Inl err \<Rightarrow> (ps, Some err)
      | Inr ch \<Rightarrow>
          (case Authorize_with vf ch c q of (ch', err) \<Rightarrow>
             let ps = ps\<lparr>ps_channels := fmupd channelID ch' (ps_channels ps)\<rparr>
             in case err of Some e \<Rightarrow> (recordBad channelID ps, Some e) | None \<Rightarrow> (ps, None)))"

text \<open>The shape of the four queries: authorize, then ask the API.\<close>

definition prepaid ::
  "sig_check \<Rightarrow> hash \<Rightarrow> ChanCommitment option \<Rightarrow> QueryType \<Rightarrow> ('s, 'a) gom \<Rightarrow> ('s \<times> PaidServer, 'a) gom" where
  "prepaid vf channelID c q m = (\<lambda>(s, ps).
     case authorize vf channelID c q ps of
       (ps', Some e) \<Rightarrow> ((s, ps'), Inl e)
     | (ps', None) \<Rightarrow> on_fst m (s, ps'))"

definition paid_Seen ::
  "sig_check \<Rightarrow> 's store_ops \<Rightarrow> hash \<Rightarrow> ChanCommitment option \<Rightarrow> hash \<Rightarrow> ('s \<times> PaidServer, SeenResult) gom" where
  "paid_Seen vf ops channelID c txid = prepaid vf channelID c QSeen (Seen ops txid)"

definition paid_Mined ::
  "sig_check \<Rightarrow> 's store_ops \<Rightarrow> hash \<Rightarrow> ChanCommitment option \<Rightarrow> hash \<Rightarrow> ('s \<times> PaidServer, MinedResult) gom" where
  "paid_Mined vf ops channelID c txid = prepaid vf channelID c QMined (Mined ops txid)"

definition paid_MerklePath ::
  "sig_check \<Rightarrow> 's store_ops \<Rightarrow> hash \<Rightarrow> ChanCommitment option \<Rightarrow> hash \<Rightarrow> ('s \<times> PaidServer, Proof) gom" where
  "paid_MerklePath vf ops channelID c txid = prepaid vf channelID c QMerklePath (api_MerklePath ops txid)"

definition paid_UTXO ::
  "sig_check \<Rightarrow> 's store_ops \<Rightarrow> hash \<Rightarrow> ChanCommitment option \<Rightarrow> Outpoint \<Rightarrow> ('s \<times> PaidServer, UTXOResult) gom" where
  "paid_UTXO vf ops channelID c op = prepaid vf channelID c QUTXO (api_UTXO ops op)"

text \<open>The sum over a map does not depend on the order of iteration.\<close>

definition Revenue :: "PaidServer \<Rightarrow> uint64" where
  "Revenue ps =
     (\<Sum>cid \<in> fset (fmdom (ps_channels ps)). sn_CumPaid (snapshot (the (fmlookup (ps_channels ps) cid))))"

definition Counts :: "PaidServer \<Rightarrow> nat \<times> nat" where
  "Counts ps = (fcard (fmdom (ps_channels ps)), fcard (fmdom (ps_banned ps)))"

section \<open>No answer without payment\<close>

lemma recordBad_frame: "ps_channels (recordBad cid ps) = ps_channels ps" "ps_policy (recordBad cid ps) = ps_policy ps"
  by (simp_all add: recordBad_def Let_def Notify_def)

lemma fmupd_same: "fmlookup m k = Some v \<Longrightarrow> fmupd k v m = m"
  by (rule fmap_ext) auto

lemma lookup_Inr: "lookup ps cid = Inr ch \<longleftrightarrow> fmlookup (ps_banned ps) cid \<noteq> Some True \<and> fmlookup (ps_channels ps) cid = Some ch"
  by (auto simp: lookup_def split: option.splits)

lemma authorize_refused:
  assumes "authorize vf cid c q ps = (ps', Some e)"
  shows "ps_channels ps' = ps_channels ps" and "ps_policy ps' = ps_policy ps"
proof -
  have "ps_channels ps' = ps_channels ps \<and> ps_policy ps' = ps_policy ps"
  proof (cases "lookup ps cid")
    case (Inl x)
    then show ?thesis using assms by (simp add: authorize_def)
  next
    case (Inr ch)
    obtain ch' err where a: "Authorize_with vf ch c q = (ch', err)" by (cases "Authorize_with vf ch c q")
    with assms Inr have err: "err = Some e" by (cases err) (auto simp: authorize_def Let_def)
    with a have "ch' = ch" by (simp add: Authorize_reject)
    with assms Inr a err show ?thesis
      by (auto simp: authorize_def Let_def recordBad_frame lookup_Inr fmupd_same)
  qed
  then show "ps_channels ps' = ps_channels ps" "ps_policy ps' = ps_policy ps" by simp_all
qed

lemma authorize_accepted:
  assumes "authorize vf cid c q ps = (ps', None)"
  obtains ch cm where "lookup ps cid = Inr ch" and "c = Some cm" and "Quote ch q \<le> cm_CumAmount cm"
    and "cm_CumAmount cm \<le> cf_Deposit (ch_cfg ch)"
    and "vf (cf_ClientPub (ch_cfg ch)) (cf_Params (ch_cfg ch)) (cm_CumAmount cm) (cm_Sig cm) = Inr True"
    and "ps' = ps\<lparr>ps_channels := fmupd cid (ch\<lparr>ch_cumPaid := cm_CumAmount cm, ch_accesses := ch_accesses ch + 1, ch_best := Some cm\<rparr>) (ps_channels ps)\<rparr>"
proof (cases "lookup ps cid")
  case (Inl x)
  then show thesis using assms by (simp add: authorize_def)
next
  case (Inr ch)
  obtain ch' err where a: "Authorize_with vf ch c q = (ch', err)" by (cases "Authorize_with vf ch c q")
  with assms Inr have err: "err = None" by (cases err) (auto simp: authorize_def Let_def)
  from a err have "Authorize_with vf ch c q = (ch', None)" by simp
  then show thesis
  proof (rule Authorize_accept)
    fix cm
    assume cm: "c = Some cm" "Quote ch q \<le> cm_CumAmount cm" "cm_CumAmount cm \<le> cf_Deposit (ch_cfg ch)"
      "vf (cf_ClientPub (ch_cfg ch)) (cf_Params (ch_cfg ch)) (cm_CumAmount cm) (cm_Sig cm) = Inr True"
      "ch' = ch\<lparr>ch_cumPaid := cm_CumAmount cm, ch_accesses := ch_accesses ch + 1, ch_best := Some cm\<rparr>"
    have "ps' = ps\<lparr>ps_channels := fmupd cid ch' (ps_channels ps)\<rparr>" using assms Inr a err by (simp add: authorize_def Let_def)
    with that [OF Inr cm(1,2,3,4)] cm(5) show thesis by simp
  qed
qed

text \<open>
  No answer without payment: each paid query either is refused, and then neither the store nor any
  channel has changed, or the API is asked exactly once, after the channel has booked one more
  access under a commitment that passed the check and is at least the quoted amount and at most the
  deposit.
\<close>

theorem paid_query_prepaid:
  "case prepaid vf cid c q m (s, ps) of ((s', ps'), r) \<Rightarrow>
     (case authorize vf cid c q ps of
        (_, Some e) \<Rightarrow> r = Inl e \<and> s' = s \<and> ps_channels ps' = ps_channels ps
      | (_, None) \<Rightarrow>
          (\<exists>ch cm. fmlookup (ps_channels ps) cid = Some ch \<and> fmlookup (ps_banned ps) cid \<noteq> Some True \<and>
             c = Some cm \<and> Quote ch q \<le> cm_CumAmount cm \<and> cm_CumAmount cm \<le> cf_Deposit (ch_cfg ch) \<and>
             vf (cf_ClientPub (ch_cfg ch)) (cf_Params (ch_cfg ch)) (cm_CumAmount cm) (cm_Sig cm) = Inr True \<and>
             ps' = ps\<lparr>ps_channels := fmupd cid (ch\<lparr>ch_cumPaid := cm_CumAmount cm,
               ch_accesses := ch_accesses ch + 1, ch_best := Some cm\<rparr>) (ps_channels ps)\<rparr> \<and>
             m s = (s', r)))"
proof (cases "authorize vf cid c q ps")
  case (Pair ps1 err)
  show ?thesis
  proof (cases err)
    case None
    with Pair have a: "authorize vf cid c q ps = (ps1, None)" by simp
    obtain s' r where m: "m s = (s', r)" by (cases "m s")
    have p: "prepaid vf cid c q m (s, ps) = ((s', ps1), r)" by (simp add: prepaid_def on_fst_def a m)
    from a obtain ch cm where "lookup ps cid = Inr ch" "c = Some cm" "Quote ch q \<le> cm_CumAmount cm"
      "cm_CumAmount cm \<le> cf_Deposit (ch_cfg ch)"
      "vf (cf_ClientPub (ch_cfg ch)) (cf_Params (ch_cfg ch)) (cm_CumAmount cm) (cm_Sig cm) = Inr True"
      "ps1 = ps\<lparr>ps_channels := fmupd cid (ch\<lparr>ch_cumPaid := cm_CumAmount cm, ch_accesses := ch_accesses ch + 1, ch_best := Some cm\<rparr>) (ps_channels ps)\<rparr>"
      by (rule authorize_accepted)
    then show ?thesis unfolding p a prod.case option.case lookup_Inr using m by blast
  next
    case (Some e)
    with Pair authorize_refused [of vf cid c q ps ps1 e] show ?thesis by (simp add: prepaid_def)
  qed
qed

section \<open>The abuse budget\<close>

datatype event = EOpen Config | EAuth hash "ChanCommitment option" QueryType

definition event_step :: "sig_check \<Rightarrow> event \<Rightarrow> PaidServer \<Rightarrow> PaidServer" where
  "event_step vf ev ps = (case ev of EOpen cfg \<Rightarrow> fst (OpenChannel cfg ps) | EAuth cid c q \<Rightarrow> fst (authorize vf cid c q ps))"

text \<open>An event on channel \<open>cid\<close> that reaches the channel and is rejected there: wasted work.\<close>

definition charged :: "sig_check \<Rightarrow> hash \<Rightarrow> event \<Rightarrow> PaidServer \<Rightarrow> bool" where
  "charged vf cid ev ps = (case ev of EOpen _ \<Rightarrow> False
   | EAuth cid' c q \<Rightarrow> cid' = cid \<and>
       (case lookup ps cid of Inl _ \<Rightarrow> False | Inr ch \<Rightarrow> snd (Authorize_with vf ch c q) \<noteq> None))"

fun charges :: "sig_check \<Rightarrow> hash \<Rightarrow> event list \<Rightarrow> PaidServer \<Rightarrow> nat" where
  "charges vf cid [] ps = 0"
| "charges vf cid (ev # evs) ps = (if charged vf cid ev ps then 1 else 0) + charges vf cid evs (event_step vf ev ps)"

definition budget_inv :: "hash \<Rightarrow> PaidServer \<Rightarrow> bool" where
  "budget_inv cid ps = (0 \<le> bad_count ps cid \<and> bad_count ps cid \<le> ap_MaxBadAttempts (ps_policy ps) \<and>
     (bad_count ps cid = ap_MaxBadAttempts (ps_policy ps) \<longrightarrow> fmlookup (ps_banned ps) cid = Some True))"

lemma OpenChannel_frame:
  "bad_count (fst (OpenChannel cfg ps)) cid = bad_count ps cid \<and>
   fmlookup (ps_banned (fst (OpenChannel cfg ps))) cid = fmlookup (ps_banned ps) cid \<and>
   ps_policy (fst (OpenChannel cfg ps)) = ps_policy ps"
  by (auto simp: OpenChannel_def Let_def Notify_def bad_count_def split: sum.split)

lemma recordBad_other:
  "cid' \<noteq> cid \<Longrightarrow> bad_count (recordBad cid' ps) cid = bad_count ps cid \<and>
   fmlookup (ps_banned (recordBad cid' ps)) cid = fmlookup (ps_banned ps) cid"
  by (simp add: recordBad_def Let_def Notify_def bad_count_def)

lemma recordBad_self:
  "0 < ap_MaxBadAttempts (ps_policy ps) \<Longrightarrow> bad_count (recordBad cid ps) cid = bad_count ps cid + 1 \<and>
   (fmlookup (ps_banned (recordBad cid ps)) cid = Some True \<longleftrightarrow>
      fmlookup (ps_banned ps) cid = Some True \<or> ap_MaxBadAttempts (ps_policy ps) \<le> bad_count ps cid + 1)"
  by (auto simp: recordBad_def Let_def Notify_def bad_count_def)

lemma authorize_budget:
  assumes "budget_inv cid ps" and "0 < ap_MaxBadAttempts (ps_policy ps)" and "authorize vf cid' c q ps = (ps', err)"
  shows "budget_inv cid ps' \<and> ps_policy ps' = ps_policy ps \<and>
    bad_count ps' cid = bad_count ps cid + (if charged vf cid (EAuth cid' c q) ps then 1 else 0)"
proof (cases "lookup ps cid'")
  case (Inl e)
  then show ?thesis using assms by (auto simp: authorize_def charged_def)
next
  case (Inr ch)
  obtain ch' er where a: "Authorize_with vf ch c q = (ch', er)" by (cases "Authorize_with vf ch c q")
  define p where "p = ps\<lparr>ps_channels := fmupd cid' ch' (ps_channels ps)\<rparr>"
  have p: "bad_count p x = bad_count ps x" "ps_banned p = ps_banned ps" "ps_policy p = ps_policy ps" for x
    by (simp_all add: p_def bad_count_def)
  have ps': "ps' = (if er = None then p else recordBad cid' p)"
    using assms(3) Inr a by (auto simp: authorize_def Let_def p_def split: option.splits)
  have ch: "charged vf cid (EAuth cid' c q) ps \<longleftrightarrow> cid' = cid \<and> er \<noteq> None"
    using Inr a by (auto simp: charged_def)
  show ?thesis
  proof (cases "er = None")
    case True
    then show ?thesis using assms(1) p ch by (simp add: ps' budget_inv_def)
  next
    case False
    show ?thesis
    proof (cases "cid' = cid")
      case True
      with Inr have nb: "fmlookup (ps_banned ps) cid \<noteq> Some True" by (simp add: lookup_Inr)
      with assms(1) have "bad_count ps cid < ap_MaxBadAttempts (ps_policy ps)" by (auto simp: budget_inv_def)
      then show ?thesis
        using assms(1,2) False True ch recordBad_self [of p cid] p nb by (auto simp: ps' budget_inv_def recordBad_frame)
    next
      case neq: False
      then show ?thesis
        using assms(1) False ch recordBad_other [OF neq, of p] p by (auto simp: ps' budget_inv_def recordBad_frame)
    qed
  qed
qed

lemma charges_bound:
  "budget_inv cid ps \<Longrightarrow> 0 < ap_MaxBadAttempts (ps_policy ps) \<Longrightarrow>
   int (charges vf cid evs ps) + bad_count ps cid \<le> ap_MaxBadAttempts (ps_policy ps)"
proof (induction evs arbitrary: ps)
  case Nil
  then show ?case by (simp add: budget_inv_def)
next
  case (Cons ev evs)
  show ?case
  proof (cases ev)
    case (EOpen cfg)
    then show ?thesis
      using Cons.IH [of "fst (OpenChannel cfg ps)"] Cons.prems OpenChannel_frame [of cfg ps cid]
      by (simp add: event_step_def charged_def budget_inv_def)
  next
    case (EAuth cid' c q)
    obtain ps' err where a: "authorize vf cid' c q ps = (ps', err)" by (cases "authorize vf cid' c q ps")
    note b = authorize_budget [OF Cons.prems a]
    show ?thesis
      using Cons.IH [of ps'] Cons.prems b a EAuth by (auto simp: event_step_def split: if_splits)
  qed
qed



text \<open>
  Re-opening a channel forgets what was paid: when the same open request is accepted twice, the
  commitment that paid for one access pays for it again, and the server ends in the state it had
  after the first access, with two answers served and one payment collectable.
\<close>

theorem reopen_replays_payment:
  assumes "ps_policy ps = DefaultPolicy" and "cid = pa_ChannelID (cf_Params cfg)"
    and "fmlookup (ps_banned ps) cid \<noteq> Some True" and "Open cfg = Inr ch" and "Authorize_with vf ch c q = (ch', None)"
  shows "\<exists>ps1 ps2 ps3. OpenChannel cfg ps = (ps1, Inr ch) \<and> authorize vf cid c q ps1 = (ps2, None) \<and>
    OpenChannel cfg ps2 = (ps3, Inr ch) \<and> authorize vf cid c q ps3 = (ps2, None)"
proof -
  define ps1 where "ps1 = ps\<lparr>ps_channels := fmupd cid ch (ps_channels ps)\<rparr>"
  define ps2 where "ps2 = ps\<lparr>ps_channels := fmupd cid ch' (ps_channels ps)\<rparr>"
  have up: "fmupd cid a (fmupd cid b m) = fmupd cid a m" for a b :: Channel and m by (rule fmap_ext) simp
  have 1: "OpenChannel cfg ps = (ps1, Inr ch)" "OpenChannel cfg ps2 = (ps1, Inr ch)"
    using assms by (simp_all add: OpenChannel_def DefaultPolicy_def Let_def ps1_def ps2_def up)
  have 2: "authorize vf cid c q ps1 = (ps2, None)"
    using assms(3,5) by (simp add: authorize_def lookup_def ps1_def ps2_def Let_def up)
  from 1 2 show ?thesis by blast
qed

theorem reopen_replays_payment_witness:
  "\<exists>ps1 ps2 ps3. OpenChannel ex_cfg (NewWithPolicy DefaultPolicy) = (ps1, Inr ex_channel) \<and>
     authorize accept_all (copy_from [1]) (ex_commit 52) QMined ps1 = (ps2, None) \<and>
     OpenChannel ex_cfg ps2 = (ps3, Inr ex_channel) \<and>
     authorize accept_all (copy_from [1]) (ex_commit 52) QMined ps3 = (ps2, None)"
proof (rule reopen_replays_payment)
  show "Authorize_with accept_all ex_channel (ex_commit 52) QMined =
      (ex_channel\<lparr>ch_cumPaid := 52, ch_accesses := 1, ch_best := ex_commit 52\<rparr>, None)" by code_simp
qed (simp_all add: NewWithPolicy_def ex_open ex_cfg_def [THEN arg_cong [of _ _ cf_Params]])

end
