(* ===== verification/Wire.thy ===== *)
theory Wire
  imports Attest
begin

text \<open>
  \<^verbatim>\<open>server/wire.go\<close>: the wire forms of hashes, proofs and attestations. Strings are
  character lists, \<^verbatim>\<open>encoding/hex\<close> is written out. JSON text itself is not modelled: a wire
  value is the record whose fields the encoder writes and the decoder reads.
\<close>

section \<open>Hexadecimal\<close>

definition hex_char :: "nat \<Rightarrow> char" where
  "hex_char n = char_of (if n < 10 then 48 + n else 87 + n)"

definition hex_EncodeToString :: "bytes \<Rightarrow> string" where
  "hex_EncodeToString bs = concat (map (\<lambda>b. [hex_char (unat b div 16), hex_char (unat b mod 16)]) bs)"

definition fromHexChar :: "char \<Rightarrow> nat option" where
  "fromHexChar c =
     (let n = of_char c :: nat
      in if 48 \<le> n \<and> n \<le> 57 then Some (n - 48)
         else if 97 \<le> n \<and> n \<le> 102 then Some (n - 97 + 10)
         else if 65 \<le> n \<and> n \<le> 70 then Some (n - 65 + 10)
         else None)"

text \<open>\<open>None\<close> for a character that is no hexadecimal digit and for an odd length.\<close>

fun hex_DecodeString :: "string \<Rightarrow> bytes option" where
  "hex_DecodeString [] = Some []"
| "hex_DecodeString [_] = None"
| "hex_DecodeString (a # b # s) =
     (case (fromHexChar a, fromHexChar b) of
        (Some x, Some y) \<Rightarrow> map_option (Cons (of_nat (16 * x + y))) (hex_DecodeString s)
      | _ \<Rightarrow> None)"

definition hexHash :: "hash \<Rightarrow> string" where
  "hexHash h = hex_EncodeToString (slice h)"

definition parseHash :: "string \<Rightarrow> hash option" where
  "parseHash s =
     (case hex_DecodeString s of None \<Rightarrow> None
      | Some b \<Rightarrow> if length b \<noteq> 32 then None else Some (copy_from b))"

section \<open>Proofs\<close>

record PathElemJSON =
  pj_Sibling :: string
  pj_Right :: bool

record ProofJSON =
  fj_Leaf :: string
  fj_L1 :: "PathElemJSON list"
  fj_SubtreeRoot :: string
  fj_L2 :: "PathElemJSON list"
  fj_BlockRoot :: string
  fj_BlockHash :: string
  fj_Height :: uint32
  fj_Header :: string

definition enc_path :: "PathElem list \<Rightarrow> PathElemJSON list" where
  "enc_path es = map (\<lambda>e. \<lparr>pj_Sibling = hexHash (pe_Sibling e), pj_Right = pe_Right e\<rparr>) es"

definition EncodeProof :: "Proof \<Rightarrow> ProofJSON" where
  "EncodeProof p =
     \<lparr>fj_Leaf = hexHash (pf_Leaf p), fj_L1 = enc_path (pf_L1 p), fj_SubtreeRoot = hexHash (pf_SubtreeRoot p),
      fj_L2 = enc_path (pf_L2 p), fj_BlockRoot = hexHash (pf_BlockRoot p), fj_BlockHash = hexHash (pf_BlockHash p),
      fj_Height = pf_Height p, fj_Header = hex_EncodeToString (slice (pf_Header p))\<rparr>"

fun dec_path :: "PathElemJSON list \<Rightarrow> PathElem list option" where
  "dec_path [] = Some []"
| "dec_path (e # es) =
     (case parseHash (pj_Sibling e) of None \<Rightarrow> None
      | Some sib \<Rightarrow> map_option (Cons \<lparr>pe_Sibling = sib, pe_Right = pj_Right e\<rparr>) (dec_path es))"

text \<open>\<open>None\<close> where the code returns \<^verbatim>\<open>false\<close>; the half-filled proof it returns then is not kept.\<close>

definition DecodeProof :: "ProofJSON \<Rightarrow> Proof option" where
  "DecodeProof j =
     Option.bind (parseHash (fj_Leaf j)) (\<lambda>leaf.
     Option.bind (dec_path (fj_L1 j)) (\<lambda>l1.
     Option.bind (parseHash (fj_SubtreeRoot j)) (\<lambda>sub.
     Option.bind (dec_path (fj_L2 j)) (\<lambda>l2.
     Option.bind (parseHash (fj_BlockRoot j)) (\<lambda>root.
     Option.bind (parseHash (fj_BlockHash j)) (\<lambda>bh.
     Option.bind (hex_DecodeString (fj_Header j)) (\<lambda>hb.
     if length hb \<noteq> 80 then None
     else Some \<lparr>pf_Leaf = leaf, pf_L1 = l1, pf_SubtreeRoot = sub, pf_L2 = l2, pf_BlockRoot = root, pf_BlockHash = bh,
                pf_Height = fj_Height j, pf_Header = copy_from hb\<rparr>)))))))"

section \<open>Attestations\<close>

record AttestationJSON =
  aj_Kind :: byte
  aj_TxID :: string
  aj_Vout :: uint32
  aj_Flag :: bool
  aj_Height :: uint32
  aj_BlockHash :: string
  aj_Tip :: uint32
  aj_Operator :: string
  aj_Sig :: string

text \<open>A nil operator or signature panics, as the methods dereference it.\<close>

definition EncodeAttestation :: "Attestation \<Rightarrow> go_error + AttestationJSON" where
  "EncodeAttestation a =
     (let st = at_Statement a
      in case at_Operator a of None \<Rightarrow> Inl PanicNil
         | Some opr \<Rightarrow>
             (case SerializeCompressed opr of Inl e \<Rightarrow> Inl e
              | Inr pub \<Rightarrow>
                  (case at_Sig a of None \<Rightarrow> Inl PanicNil
                   | Some sig \<Rightarrow>
                       (case Serialize sig of Inl e \<Rightarrow> Inl e
                        | Inr sb \<Rightarrow>
                            Inr \<lparr>aj_Kind = st_Kind st, aj_TxID = hexHash (st_TxID st), aj_Vout = st_Vout st,
                                 aj_Flag = st_Flag st, aj_Height = st_Height st,
                                 aj_BlockHash = hexHash (st_BlockHash st), aj_Tip = st_Tip st,
                                 aj_Operator = hex_EncodeToString pub, aj_Sig = hex_EncodeToString sb\<rparr>))))"

section \<open>Answers\<close>

record SeenResponse =
  rs_Seen :: bool
  rs_SeenTime :: int64
  rs_Tip :: uint32
  rs_Attestation :: "AttestationJSON option"

record MinedResponse =
  rm_Mined :: bool
  rm_BlockHash :: string
  rm_Height :: uint32
  rm_BlockTime :: uint32
  rm_Tip :: uint32
  rm_Attestation :: "AttestationJSON option"

record UTXOResponse =
  ru_Status :: string
  ru_Value :: uint64
  ru_SpentHeight :: uint32
  ru_Tip :: uint32
  ru_Attestation :: "AttestationJSON option"

record MerklePathResponse =
  rp_Proof :: ProofJSON

section \<open>Round trips\<close>

lemma of_char_hex_char: "n < 16 \<Longrightarrow> (of_char (hex_char n) :: nat) = (if n < 10 then 48 + n else 87 + n)"
  by (simp add: hex_char_def)

lemma fromHexChar_hex_char [simp]: "n < 16 \<Longrightarrow> fromHexChar (hex_char n) = Some n"
  by (simp add: fromHexChar_def of_char_hex_char Let_def)

lemma nibbles: "of_nat (16 * (unat b div 16) + unat b mod 16) = (b :: byte)"
  by simp

lemma unat_byte_lt: "unat (b :: byte) < 256"
  using unsigned_less [of b] by simp

lemma hex_roundtrip [simp]: "hex_DecodeString (hex_EncodeToString bs) = Some bs"
proof (induction bs)
  case (Cons b bs)
  have "unat b div 16 < 16" using unat_byte_lt [of b] by (simp add: less_mult_imp_div_less)
  with Cons show ?case by (simp add: hex_EncodeToString_def nibbles del: of_nat_add of_nat_mult)
qed (simp add: hex_EncodeToString_def)

lemma parseHash_hexHash [simp]: "parseHash (hexHash h) = Some h"
  by (simp add: parseHash_def hexHash_def)

lemma dec_path_enc_path [simp]: "dec_path (enc_path es) = Some es"
  by (induction es) (simp_all add: enc_path_def)

text \<open>Lower-case form of a hexadecimal string: the decoder accepts both cases, the encoder writes lower case.\<close>

definition lower_hex :: "char \<Rightarrow> char" where
  "lower_hex c = (let n = of_char c :: nat in if 65 \<le> n \<and> n \<le> 70 then char_of (n + 32) else c)"

lemma fromHexChar_inv: "fromHexChar c = Some n \<Longrightarrow> n < 16 \<and> hex_char n = lower_hex c"
  by (auto simp: fromHexChar_def hex_char_def lower_hex_def Let_def split: if_splits)

lemma hex_decode_inv: "hex_DecodeString s = Some bs \<Longrightarrow> hex_EncodeToString bs = map lower_hex s"
proof (induction s arbitrary: bs rule: hex_DecodeString.induct)
  case (3 a b s)
  from "3.prems" obtain x y bs' where xy: "fromHexChar a = Some x" "fromHexChar b = Some y"
    and bs': "hex_DecodeString s = Some bs'" "bs = of_nat (16 * x + y) # bs'"
    by (auto split: option.splits)
  have lt: "x < 16" "y < 16" and ch: "hex_char x = lower_hex a" "hex_char y = lower_hex b"
    using xy fromHexChar_inv by blast+
  then have "16 * x + y < 2 ^ 8" by simp
  then have u: "unat (of_nat (16 * x + y) :: byte) = 16 * x + y" by (simp add: unat_of_nat del: of_nat_add of_nat_mult)
  have "(16 * x + y) div 16 = x" "(16 * x + y) mod 16 = y" using lt by auto
  then show ?case using "3.IH" [OF refl xy bs'(1)] ch bs'(2) u
    by (simp add: hex_EncodeToString_def del: of_nat_add of_nat_mult)
qed (auto simp: hex_EncodeToString_def)

lemma parseHash_inv: "parseHash s = Some h \<Longrightarrow> hexHash h = map lower_hex s"
  by (auto simp: parseHash_def hexHash_def hex_decode_inv split: option.splits if_splits)

definition lower_path :: "PathElemJSON list \<Rightarrow> PathElemJSON list" where
  "lower_path es = map (\<lambda>e. e\<lparr>pj_Sibling := map lower_hex (pj_Sibling e)\<rparr>) es"

definition lower_proof :: "ProofJSON \<Rightarrow> ProofJSON" where
  "lower_proof j =
     \<lparr>fj_Leaf = map lower_hex (fj_Leaf j), fj_L1 = lower_path (fj_L1 j), fj_SubtreeRoot = map lower_hex (fj_SubtreeRoot j),
      fj_L2 = lower_path (fj_L2 j), fj_BlockRoot = map lower_hex (fj_BlockRoot j),
      fj_BlockHash = map lower_hex (fj_BlockHash j), fj_Height = fj_Height j, fj_Header = map lower_hex (fj_Header j)\<rparr>"

lemma dec_path_inv: "dec_path js = Some es \<Longrightarrow> enc_path es = lower_path js"
  by (induction js arbitrary: es) (auto simp: enc_path_def lower_path_def parseHash_inv split: option.splits)

lemma DecodeProof_EncodeProof: "DecodeProof (EncodeProof p) = Some p"
  by (cases p) (simp add: DecodeProof_def EncodeProof_def)

text \<open>
  C27. The wire form of a proof loses nothing and hides nothing: decoding an encoded proof gives the
  proof back, and every wire proof that is accepted is, up to the case of its hexadecimal digits,
  the encoding of the proof it decodes to. So no field of wrong length or with a foreign character
  is accepted, and two different proofs never share a wire form.
\<close>

theorem proof_wire_roundtrip:
  "DecodeProof (EncodeProof p) = Some p \<and>
   (case DecodeProof j of None \<Rightarrow> True | Some q \<Rightarrow> EncodeProof q = lower_proof j)"
proof
  show "DecodeProof (EncodeProof p) = Some p" by (rule DecodeProof_EncodeProof)
  show "case DecodeProof j of None \<Rightarrow> True | Some q \<Rightarrow> EncodeProof q = lower_proof j"
    by (auto simp: DecodeProof_def EncodeProof_def lower_proof_def parseHash_inv dec_path_inv hex_decode_inv bind_eq_Some_conv
        split: option.splits if_splits)
qed

lemma EncodeAttestation_Inr:
  "EncodeAttestation a = Inr j \<longleftrightarrow>
     (\<exists>k sig pub sb. at_Operator a = Some k \<and> SerializeCompressed k = Inr pub \<and> at_Sig a = Some sig \<and> Serialize sig = Inr sb \<and>
        j = \<lparr>aj_Kind = st_Kind (at_Statement a), aj_TxID = hexHash (st_TxID (at_Statement a)), aj_Vout = st_Vout (at_Statement a),
             aj_Flag = st_Flag (at_Statement a), aj_Height = st_Height (at_Statement a),
             aj_BlockHash = hexHash (st_BlockHash (at_Statement a)), aj_Tip = st_Tip (at_Statement a),
             aj_Operator = hex_EncodeToString pub, aj_Sig = hex_EncodeToString sb\<rparr>)"
  by (auto simp: EncodeAttestation_def Let_def split: option.splits sum.splits)

end
