(* ===== verification/Limiter.thy ===== *)
theory Limiter
  imports Complex_Main Prelude
begin

text \<open>
  \<^verbatim>\<open>server/limiter.go\<close>: the per-client token bucket. The clock reading of a call is an
  argument, in nanoseconds. Token counts are exact rationals where the code has 64-bit floats, so
  rounding is not modelled.
\<close>

record bucket =
  bk_tokens :: rat
  bk_last :: int

record limiter =
  li_rate :: rat
  li_b :: "(string, bucket) fmap"

definition newLimiter :: "int \<Rightarrow> limiter" where
  "newLimiter ratePerSec = \<lparr>li_rate = of_int ratePerSec, li_b = fmempty\<rparr>"

definition seconds :: "int \<Rightarrow> rat" where
  "seconds d = of_int d / 10 ^ 9"

definition Minute :: int where
  "Minute = 60 * 10 ^ 9"

text \<open>The opportunistic cleanup: every bucket idle for more than a minute is deleted.\<close>

definition cleanup :: "int \<Rightarrow> (string, bucket) fmap \<Rightarrow> (string, bucket) fmap" where
  "cleanup now b =
     fmfilter (\<lambda>k. case fmlookup b k of None \<Rightarrow> True | Some v \<Rightarrow> \<not> Minute < now - bk_last v) b"

definition allow :: "string \<Rightarrow> int \<Rightarrow> limiter \<Rightarrow> limiter \<times> bool" where
  "allow ip now l =
     (let rate = li_rate l;
          (bk, b) = (case fmlookup (li_b l) ip of
              Some bk \<Rightarrow> (bk, li_b l)
            | None \<Rightarrow>
                let bk = \<lparr>bk_tokens = rate, bk_last = now\<rparr>; b = fmupd ip bk (li_b l)
                in (bk, if 100000 < fcard (fmdom b) then cleanup now b else b));
          tokens = bk_tokens bk + seconds (now - bk_last bk) * rate;
          tokens = (if rate < tokens then rate else tokens)
      in if 1 \<le> tokens
         then (l\<lparr>li_b := fmupd ip \<lparr>bk_tokens = tokens - 1, bk_last = now\<rparr> b\<rparr>, True)
         else (l\<lparr>li_b := fmupd ip \<lparr>bk_tokens = tokens, bk_last = now\<rparr> b\<rparr>, False))"

section \<open>Sequences of requests\<close>

fun run_limiter :: "limiter \<Rightarrow> (string \<times> int) list \<Rightarrow> limiter" where
  "run_limiter l [] = l"
| "run_limiter l ((ip, now) # reqs) = run_limiter (fst (allow ip now l)) reqs"

fun granted :: "string \<Rightarrow> limiter \<Rightarrow> (string \<times> int) list \<Rightarrow> nat" where
  "granted ip l [] = 0"
| "granted ip l ((ip', now) # reqs) =
     (if ip' = ip \<and> snd (allow ip' now l) then 1 else 0) + granted ip (fst (allow ip' now l)) reqs"

text \<open>
  The tokens a client would find at time \<open>now\<close>; a client without a bucket would get a full one.
\<close>

definition level :: "string \<Rightarrow> int \<Rightarrow> limiter \<Rightarrow> rat" where
  "level ip now l =
     (case fmlookup (li_b l) ip of None \<Rightarrow> li_rate l
      | Some bk \<Rightarrow> min (li_rate l) (bk_tokens bk + seconds (now - bk_last bk) * li_rate l))"

definition limiter_inv :: "int \<Rightarrow> limiter \<Rightarrow> bool" where
  "limiter_inv now l =
     (0 < li_rate l \<and> (\<forall>ip bk. fmlookup (li_b l) ip = Some bk \<longrightarrow> 0 \<le> bk_tokens bk \<and> bk_last bk \<le> now))"

lemma limiter_inv_mono: "limiter_inv now l \<Longrightarrow> now \<le> now' \<Longrightarrow> limiter_inv now' l"
  by (fastforce simp: limiter_inv_def)

lemma level_le: "level ip now l \<le> li_rate l"
  by (simp add: level_def split: option.split)

lemma seconds_mono: "d \<le> e \<Longrightarrow> seconds d \<le> seconds e"
  by (simp add: seconds_def divide_right_mono)

lemma seconds_add: "seconds (d + e) = seconds d + seconds e"
  by (simp add: seconds_def add_divide_distrib)

lemma level_grows:
  assumes "limiter_inv now l" and "now \<le> now'"
  shows "level ip now' l \<le> level ip now l + seconds (now' - now) * li_rate l"
proof (cases "fmlookup (li_b l) ip")
  case None
  have "0 \<le> seconds (now' - now) * li_rate l"
    using assms seconds_mono [of 0 "now' - now"] by (simp add: limiter_inv_def seconds_def)
  with None show ?thesis by (simp add: level_def)
next
  case (Some bk)
  have "seconds (now' - bk_last bk) = seconds (now - bk_last bk) + seconds (now' - now)"
    by (simp add: seconds_add [symmetric])
  moreover have "0 \<le> seconds (now' - now) * li_rate l"
    using assms seconds_mono [of 0 "now' - now"] by (simp add: limiter_inv_def seconds_def)
  ultimately show ?thesis using Some by (simp add: level_def algebra_simps min_def)
qed

text \<open>The cleanup deletes only buckets that would be full again: it changes nobody's level.\<close>

lemma cleanup_level:
  assumes "limiter_inv now l"
  shows "level ip now (l\<lparr>li_b := cleanup now (li_b l)\<rparr>) = level ip now l"
proof (cases "fmlookup (li_b l) ip")
  case None
  then show ?thesis by (simp add: level_def cleanup_def)
next
  case (Some bk)
  show ?thesis
  proof (cases "Minute < now - bk_last bk")
    case True
    then have "60 \<le> seconds (now - bk_last bk)"
      using seconds_mono [of Minute "now - bk_last bk"] by (simp add: Minute_def seconds_def)
    then have "1 * li_rate l \<le> seconds (now - bk_last bk) * li_rate l"
      using assms by (intro mult_right_mono) (simp_all add: limiter_inv_def)
    moreover have "0 \<le> bk_tokens bk" using Some assms by (auto simp: limiter_inv_def)
    ultimately have "level ip now l = li_rate l" using Some by (simp add: level_def)
    moreover have "level ip now (l\<lparr>li_b := cleanup now (li_b l)\<rparr>) = li_rate l"
      using Some True by (simp add: level_def cleanup_def)
    ultimately show ?thesis by simp
  next
    case False
    then show ?thesis using Some by (simp add: level_def cleanup_def)
  qed
qed

text \<open>A request first makes sure the client has a bucket; the cleanup may run then.\<close>

definition with_bucket :: "string \<Rightarrow> int \<Rightarrow> limiter \<Rightarrow> limiter" where
  "with_bucket ip now l =
     (case fmlookup (li_b l) ip of Some _ \<Rightarrow> l
      | None \<Rightarrow>
          let b = fmupd ip \<lparr>bk_tokens = li_rate l, bk_last = now\<rparr> (li_b l)
          in l\<lparr>li_b := if 100000 < fcard (fmdom b) then cleanup now b else b\<rparr>)"

lemma with_bucket_inv: "limiter_inv now l \<Longrightarrow> limiter_inv now (with_bucket ip now l)"
  by (auto simp: with_bucket_def limiter_inv_def cleanup_def Let_def split: option.splits if_splits)

lemma with_bucket_level:
  assumes "limiter_inv now l"
  shows "level ip' now (with_bucket ip now l) = level ip' now l"
proof (cases "fmlookup (li_b l) ip")
  case (Some bk)
  then show ?thesis by (simp add: with_bucket_def)
next
  case None
  define l1 where "l1 = l\<lparr>li_b := fmupd ip \<lparr>bk_tokens = li_rate l, bk_last = now\<rparr> (li_b l)\<rparr>"
  have "limiter_inv now l1" using assms by (auto simp: l1_def limiter_inv_def split: if_splits)
  moreover have "level ip' now l1 = level ip' now l" using None by (auto simp: level_def l1_def seconds_def split: option.split)
  ultimately show ?thesis
    using None cleanup_level [of now l1 ip'] by (simp add: with_bucket_def l1_def Let_def)
qed

lemma with_bucket_has: "\<exists>bk. fmlookup (li_b (with_bucket ip now l)) ip = Some bk"
  by (auto simp: with_bucket_def cleanup_def Let_def Minute_def split: option.split)

lemma with_bucket_rate [simp]: "li_rate (with_bucket ip now l) = li_rate l"
  by (simp add: with_bucket_def Let_def split: option.split)

lemma allow_level_form:
  assumes "limiter_inv now l"
  shows "allow ip now l =
    (let l' = with_bucket ip now l; t = level ip now l
     in (l'\<lparr>li_b := fmupd ip \<lparr>bk_tokens = (if 1 \<le> t then t - 1 else t), bk_last = now\<rparr> (li_b l')\<rparr>, 1 \<le> t))"
proof (cases "fmlookup (li_b l) ip")
  case (Some bk)
  then have "level ip now l = (if li_rate l < bk_tokens bk + seconds (now - bk_last bk) * li_rate l then li_rate l
      else bk_tokens bk + seconds (now - bk_last bk) * li_rate l)"
    by (simp add: level_def min_def)
  with Some show ?thesis by (simp add: allow_def with_bucket_def Let_def)
next
  case None
  then have "level ip now l = li_rate l" by (simp add: level_def)
  with None show ?thesis by (simp add: allow_def with_bucket_def Let_def seconds_def)
qed

lemma level_nonneg: "limiter_inv now l \<Longrightarrow> 0 \<le> level ip now l"
  using seconds_mono by (fastforce simp: level_def limiter_inv_def seconds_def split: option.split)

lemma allow_step:
  assumes "limiter_inv now l" and "allow ip now l = (l', ok)"
  shows "limiter_inv now l' \<and> li_rate l' = li_rate l \<and>
    level ip' now l' = level ip' now l - (if ip' = ip \<and> ok then 1 else 0)"
proof -
  let ?w = "with_bucket ip now l" and ?t = "level ip now l"
  have l': "l' = ?w\<lparr>li_b := fmupd ip \<lparr>bk_tokens = (if 1 \<le> ?t then ?t - 1 else ?t), bk_last = now\<rparr> (li_b ?w)\<rparr>"
    and ok: "ok \<longleftrightarrow> 1 \<le> ?t" using assms(2) unfolding allow_level_form [OF assms(1)] Let_def by blast+
  have "limiter_inv now l'"
    using with_bucket_inv [OF assms(1), of ip] level_nonneg [OF assms(1), of ip] by (auto simp: l' limiter_inv_def split: if_splits)
  moreover have "level ip' now l' = level ip' now l" if "ip' \<noteq> ip"
    using that with_bucket_level [OF assms(1), of ip' ip] by (simp add: l' level_def split: option.splits)
  moreover have "level ip now l' = ?t - (if ok then 1 else 0)"
    using level_le [of ip now l] ok by (simp add: l' level_def seconds_def min_def)
  moreover have "li_rate l' = li_rate l" by (simp add: l')
  ultimately show ?thesis by (cases "ip' = ip") simp_all
qed

lemma granted_bound:
  assumes "limiter_inv now l" and "sorted (map snd reqs)" and "\<forall>t \<in> snd ` set reqs. now \<le> t \<and> t \<le> end"
    and "now \<le> end"
  shows "of_nat (granted ip l reqs) \<le> level ip now l + seconds (end - now) * li_rate l"
  using assms
proof (induction reqs arbitrary: l now)
  case Nil
  have "0 \<le> seconds (end - now) * li_rate l"
    using Nil seconds_mono [of 0 "end - now"] by (simp add: limiter_inv_def seconds_def)
  with level_nonneg [OF Nil.prems(1), of ip] show ?case by simp
next
  case (Cons r reqs)
  obtain ip' t where r: "r = (ip', t)" by (cases r)
  obtain l' ok where a: "allow ip' t l = (l', ok)" by (cases "allow ip' t l")
  have t: "now \<le> t" "t \<le> end" using Cons.prems(3) r by auto
  have inv: "limiter_inv t l" by (rule limiter_inv_mono [OF Cons.prems(1) t(1)])
  note s = allow_step [OF inv a, of ip]
  have "of_nat (granted ip l' reqs) \<le> level ip t l' + seconds (end - t) * li_rate l'"
    by (rule Cons.IH) (use s Cons.prems r t in auto)
  then have "of_nat (granted ip l (r # reqs)) \<le> level ip t l + seconds (end - t) * li_rate l"
    using s a r by (auto split: if_splits)
  also have "\<dots> \<le> level ip now l + seconds (t - now) * li_rate l + seconds (end - t) * li_rate l"
    using level_grows [OF Cons.prems(1) t(1), of ip] by simp
  also have "\<dots> = level ip now l + seconds (end - now) * li_rate l"
    by (simp add: seconds_add [symmetric] distrib_right [symmetric] add.assoc)
  finally show ?case .
qed

lemma run_limiter_inv:
  assumes "limiter_inv now l" and "sorted (map snd reqs)" and "\<forall>t \<in> snd ` set reqs. now \<le> t \<and> t \<le> end" and "now \<le> end"
  shows "limiter_inv end (run_limiter l reqs) \<and> li_rate (run_limiter l reqs) = li_rate l"
  using assms
proof (induction reqs arbitrary: l now)
  case Nil
  then show ?case by (simp add: limiter_inv_mono)
next
  case (Cons r reqs)
  obtain ip' t where r: "r = (ip', t)" by (cases r)
  obtain l' ok where a: "allow ip' t l = (l', ok)" by (cases "allow ip' t l")
  have t: "now \<le> t" "t \<le> end" using Cons.prems(3) r by auto
  note s = allow_step [OF limiter_inv_mono [OF Cons.prems(1) t(1)] a]
  have "limiter_inv end (run_limiter l' reqs) \<and> li_rate (run_limiter l' reqs) = li_rate l'"
    by (rule Cons.IH) (use s Cons.prems r t in auto)
  with s a r show ?case by simp
qed

text \<open>
  C19. The limiter bounds every client's rate: whatever requests of all clients came before, in a
  window of requests a client is granted at most \<open>rate\<close> requests plus \<open>rate\<close> per second of the
  window's length. The cleanup that deletes idle buckets gives nobody an extra request.
\<close>

theorem limiter_bounds_rate:
  assumes "0 < rate" and "sorted (map snd (earlier @ window))" and "window \<noteq> []"
    and "t0 = snd (hd window)" and "t1 = snd (last window)"
  shows "of_nat (granted ip (run_limiter (newLimiter rate) earlier) window) \<le> of_int rate * (1 + seconds (t1 - t0))"
proof -
  obtain w ws where w: "window = w # ws" using assms(3) by (cases window) auto
  have e: "sorted (map snd earlier)" "sorted (map snd window)" "\<forall>t \<in> snd ` set earlier. t \<le> t0"
    "\<forall>t \<in> snd ` set window. t0 \<le> t"
    using assms(2,4) w by (auto simp: sorted_append)
  have t1: "\<forall>t \<in> snd ` set window. t \<le> t1"
  proof -
    have "window = butlast window @ [last window]" using assms(3) by simp
    with e(2) have "sorted (map snd (butlast window @ [last window]))" by simp
    then have "\<forall>t \<in> snd ` set (butlast window @ [last window]). t \<le> t1" using assms(5) by (auto simp: sorted_append)
    with \<open>window = butlast window @ [last window]\<close> show ?thesis by simp
  qed
  define b where "b = Min (insert t0 (snd ` set earlier))"
  have b: "b \<le> t0" "\<forall>t \<in> snd ` set earlier. b \<le> t" by (simp_all add: b_def)
  have "limiter_inv b (newLimiter rate)" using assms(1) by (simp add: limiter_inv_def newLimiter_def)
  from run_limiter_inv [OF this e(1), of t0] b e(3)
  have inv: "limiter_inv t0 (run_limiter (newLimiter rate) earlier)" "li_rate (run_limiter (newLimiter rate) earlier) = of_int rate"
    by (auto simp: newLimiter_def)
  have "t0 \<le> t1" using t1 assms(4) w by auto
  from granted_bound [OF inv(1) e(2) _ this, of ip] e(4) t1
  have "of_nat (granted ip (run_limiter (newLimiter rate) earlier) window) \<le>
      level ip t0 (run_limiter (newLimiter rate) earlier) + seconds (t1 - t0) * of_int rate"
    by (auto simp: inv(2))
  with level_le [of ip t0 "run_limiter (newLimiter rate) earlier"] show ?thesis by (simp add: inv(2) algebra_simps)
qed

theorem limiter_bounds_rate_witness:
  "of_nat (granted ''a'' (run_limiter (newLimiter 2) [(''b'', 0)]) [(''a'', 0), (''a'', 0), (''a'', 5), (''a'', 1000000000)]) \<le> (4 :: rat)"
proof -
  have "seconds (1000000000 - 0) = 1" by (simp add: seconds_def)
  with limiter_bounds_rate [of 2 "[(''b'', 0)]" "[(''a'', 0), (''a'', 0), (''a'', 5), (''a'', 1000000000)]" 0 1000000000 "''a''"]
  show ?thesis by simp
qed

end
