(* ===== verification/Http_Server.thy ===== *)
theory Http_Server
  imports Payment Wire Limiter
begin

text \<open>
  \<^verbatim>\<open>server/server.go\<close> and \<^verbatim>\<open>server/payment_handlers.go\<close>: the HTTP service in front of the
  store, the channels and the operator identity. A handler takes the request values it reads and
  maps the server state to a new state and a response; \<open>Inl\<close> is a panic, which \<open>wrap_handler\<close>
  recovers, and \<open>None\<close> a request that never ends because the nonce search of a signature does not.
  Request and response bodies are the decoded values: JSON text, sockets, timeouts and logging are
  not modelled. What the handlers call in other components is collected in \<open>Env\<close>: the store
  backend, the commitment check (\<open>verify\<close>) and the signing of statements (\<open>Attest\<close>).
\<close>

section \<open>State\<close>

record SrvConfig =
  sc_ShardK :: nat
  sc_ShardID :: uint32
  sc_Prune :: Policy
  sc_Abuse :: AbusePolicy
  sc_PaymentRequired :: bool
  sc_OperatorSeed :: bytes
  sc_AdminToken :: string
  sc_RatePerSec :: int
  sc_MaxMemMB :: int

record metrics =
  me_requests :: uint64
  me_errors :: uint64
  me_served :: uint64
  me_rejected :: uint64
  me_blocks :: uint64

record 's HttpServer =
  hs_cfg :: SrvConfig
  hs_store :: 's
  hs_pruner :: "Pruner option"
  hs_ing :: Ingestor
  hs_paid :: PaidServer
  hs_identity :: "Identity option"
  hs_payKey :: PrivateKey
  hs_tip :: uint32
  hs_ready :: bool
  hs_limiter :: "limiter option"
  hs_met :: metrics

record 's Env =
  env_ops :: "'s store_ops"
  env_check :: sig_check
  env_attest :: "Identity \<Rightarrow> Statement \<Rightarrow> (go_error + Attestation) option"

definition memserve_env :: "'s store_ops \<Rightarrow> 's Env" where
  "memserve_env ops = \<lparr>env_ops = ops, env_check = verify, env_attest = Attest\<rparr>"

definition NewServer :: "SrvConfig \<Rightarrow> 's \<Rightarrow> 's HttpServer" where
  "NewServer cfg st =
     (let paySeed = DoubleSHA256 (str_bytes ''memserve-paykey-v1'' @ sc_OperatorSeed cfg)
      in \<lparr>hs_cfg = cfg, hs_store = st, hs_pruner = Some (NewPruner (sc_Prune cfg)),
          hs_ing = \<lparr>in_k = sc_ShardK cfg, in_id = sc_ShardID cfg, in_skipValidate = False\<rparr>,
          hs_paid = NewWithPolicy (sc_Abuse cfg),
          hs_identity = (if 0 < length (sc_OperatorSeed cfg) then Some (NewIdentity (sc_OperatorSeed cfg)) else None),
          hs_payKey = NewPrivateKey (slice paySeed), hs_tip = 0, hs_ready = False,
          hs_limiter = (if 0 < sc_RatePerSec cfg then Some (newLimiter (sc_RatePerSec cfg)) else None),
          hs_met = \<lparr>me_requests = 0, me_errors = 0, me_served = 0, me_rejected = 0, me_blocks = 0\<rparr>\<rparr>)"

definition OperatorPubHex :: "'s HttpServer \<Rightarrow> go_error + string" where
  "OperatorPubHex hs =
     (case hs_identity hs of None \<Rightarrow> Inr []
      | Some i \<Rightarrow> map_sum id hex_EncodeToString (SerializeCompressed (id_Public i)))"

section \<open>Responses\<close>

record AdminStats =
  ad_tip :: uint32
  ad_ready :: bool
  ad_pruneD :: uint32
  ad_reorgHorizon :: uint32
  ad_stats :: Stats
  ad_channels :: nat
  ad_banned :: nat
  ad_revenue :: uint64
  ad_operatorPub :: string

datatype Body =
    BText string | BError go_error
  | BSeen SeenResponse | BMined MinedResponse | BPath MerklePathResponse | BUTXO UTXOResponse
  | BChannelId string | BCumulative uint64 | BAdmin AdminStats | BMetrics "(string \<times> int) list"

record Response =
  rs_Code :: nat
  rs_Body :: Body

definition http_Error :: "Body \<Rightarrow> nat \<Rightarrow> Response" where
  "http_Error b code = \<lparr>rs_Code = code, rs_Body = b\<rparr>"

definition writeJSON :: "Body \<Rightarrow> Response" where
  "writeJSON b = \<lparr>rs_Code = 200, rs_Body = b\<rparr>"

type_synonym 's handler = "'s HttpServer \<Rightarrow> ('s HttpServer \<times> (go_error + Response)) option"

definition reply :: "Response \<Rightarrow> 's handler" where
  "reply r hs = Some (hs, Inr r)"

definition inc_served :: "'s HttpServer \<Rightarrow> 's HttpServer" where
  "inc_served hs = hs\<lparr>hs_met := (hs_met hs)\<lparr>me_served := me_served (hs_met hs) + 1\<rparr>\<rparr>"

definition inc_rejected :: "'s HttpServer \<Rightarrow> 's HttpServer" where
  "inc_rejected hs = hs\<lparr>hs_met := (hs_met hs)\<lparr>me_rejected := me_rejected (hs_met hs) + 1\<rparr>\<rparr>"

definition inc_blocks :: "'s HttpServer \<Rightarrow> 's HttpServer" where
  "inc_blocks hs = hs\<lparr>hs_met := (hs_met hs)\<lparr>me_blocks := me_blocks (hs_met hs) + 1\<rparr>\<rparr>"

section \<open>Ingest\<close>

text \<open>
  One turn of \<open>ingestLoop\<close> up to the end of \<open>IngestBlock\<close>, with the memory reading and the source
  as arguments. The result tells the height whose tip is still to be published; \<open>publish\<close> is the
  rest of the turn. The loop is cut there because requests run concurrently: they see the store
  after the first half and the tip only after the second.
\<close>

definition ingest_turn ::
  "'s Env \<Rightarrow> int \<Rightarrow> ('m, Block option) gom \<Rightarrow> 'm \<times> 's HttpServer \<Rightarrow> ('m \<times> 's HttpServer) \<times> uint32 option" where
  "ingest_turn env heldMB nxt = (\<lambda>(src, hs).
     if 0 < sc_MaxMemMB (hs_cfg hs) \<and> sc_MaxMemMB (hs_cfg hs) \<le> heldMB
     then ((src, hs\<lparr>hs_ready := True\<rparr>), None)
     else case nxt src of
            (src', Inl err) \<Rightarrow> ((src', hs), None)
          | (src', Inr None) \<Rightarrow> ((src', hs\<lparr>hs_ready := True\<rparr>), None)
          | (src', Inr (Some b)) \<Rightarrow>
              (case IngestBlock (env_ops env) (hs_ing hs) b (hs_store hs, hs_pruner hs) of
                 ((s', p'), _, err) \<Rightarrow>
                   ((src', hs\<lparr>hs_store := s', hs_pruner := p'\<rparr>), if err = None then Some (bl_Height b) else None)))"

definition publish :: "uint32 \<Rightarrow> 's HttpServer \<Rightarrow> 's HttpServer" where
  "publish height hs = (inc_blocks (hs\<lparr>hs_tip := height\<rparr>))\<lparr>hs_ready := True\<rparr>"

definition ingest_iteration ::
  "'s Env \<Rightarrow> int \<Rightarrow> ('m, Block option) gom \<Rightarrow> 'm \<times> 's HttpServer \<Rightarrow> 'm \<times> 's HttpServer" where
  "ingest_iteration env heldMB nxt st =
     (case ingest_turn env heldMB nxt st of
        ((src, hs), None) \<Rightarrow> (src, hs)
      | ((src, hs), Some height) \<Rightarrow> (src, publish height hs))"

text \<open>\<open>IngestOnce\<close> drains the source; not returning is \<open>None\<close>.\<close>

partial_function (option) IngestOnce ::
  "'s Env \<Rightarrow> ('m, Block option) gom \<Rightarrow> 'm \<Rightarrow> 's HttpServer \<Rightarrow> (('m \<times> 's HttpServer) \<times> go_error option) option" where
  [code]: "IngestOnce env nxt src hs =
     (case nxt src of
        (src', Inl err) \<Rightarrow> Some ((src', hs), Some err)
      | (src', Inr None) \<Rightarrow> Some ((src', hs\<lparr>hs_ready := True\<rparr>), None)
      | (src', Inr (Some b)) \<Rightarrow>
          (case IngestBlock (env_ops env) (hs_ing hs) b (hs_store hs, hs_pruner hs) of
             ((s', p'), _, Some err) \<Rightarrow> Some ((src', hs\<lparr>hs_store := s', hs_pruner := p'\<rparr>), Some err)
           | ((s', p'), _, None) \<Rightarrow>
               IngestOnce env nxt src' (inc_blocks (hs\<lparr>hs_store := s', hs_pruner := p', hs_tip := bl_Height b\<rparr>))))"

section \<open>Signed answers\<close>

definition zeroAttestation :: Attestation where
  "zeroAttestation =
     \<lparr>at_Statement = \<lparr>st_Kind = 0, st_TxID = copy_from [], st_Vout = 0, st_Flag = False, st_Height = 0,
                      st_BlockHash = copy_from [], st_Tip = 0\<rparr>, at_Operator = None, at_Sig = None\<rparr>"

text \<open>The error of \<open>Attest\<close> is dropped; encoding the zero attestation then panics.\<close>

definition attach :: "'s Env \<Rightarrow> Identity option \<Rightarrow> Statement \<Rightarrow> (go_error + AttestationJSON option) option" where
  "attach env identity st =
     (case identity of None \<Rightarrow> Some (Inr None)
      | Some i \<Rightarrow>
          map_option (\<lambda>r. map_sum id Some (EncodeAttestation (case r of Inl _ \<Rightarrow> zeroAttestation | Inr att \<Rightarrow> att)))
            (env_attest env i st))"

definition attested_reply ::
  "'s Env \<Rightarrow> Statement \<Rightarrow> (AttestationJSON option \<Rightarrow> Body) \<Rightarrow> 's handler" where
  "attested_reply env st f hs =
     map_option (\<lambda>r. (hs, map_sum id (\<lambda>a. writeJSON (f a)) r)) (attach env (hs_identity hs) st)"

definition seen_statement :: "hash \<Rightarrow> SeenResult \<Rightarrow> uint32 \<Rightarrow> Statement" where
  "seen_statement txid res tip =
     \<lparr>st_Kind = StmtSeen, st_TxID = txid, st_Vout = 0, st_Flag = sr_Seen res, st_Height = 0,
      st_BlockHash = copy_from [], st_Tip = tip\<rparr>"

definition seenResp :: "'s Env \<Rightarrow> hash \<Rightarrow> SeenResult \<Rightarrow> 's handler" where
  "seenResp env txid res hs =
     attested_reply env (seen_statement txid res (hs_tip hs))
       (\<lambda>a. BSeen \<lparr>rs_Seen = sr_Seen res, rs_SeenTime = sr_SeenTime res, rs_Tip = hs_tip hs, rs_Attestation = a\<rparr>) hs"

definition mined_statement :: "hash \<Rightarrow> MinedResult \<Rightarrow> uint32 \<Rightarrow> Statement" where
  "mined_statement txid res tip =
     \<lparr>st_Kind = StmtMined, st_TxID = txid, st_Vout = 0, st_Flag = mr_Mined res, st_Height = mr_Height res,
      st_BlockHash = mr_BlockHash res, st_Tip = tip\<rparr>"

definition minedResp :: "'s Env \<Rightarrow> hash \<Rightarrow> MinedResult \<Rightarrow> 's handler" where
  "minedResp env txid res hs =
     attested_reply env (mined_statement txid res (hs_tip hs))
       (\<lambda>a. BMined \<lparr>rm_Mined = mr_Mined res, rm_BlockHash = (if mr_Mined res then hexHash (mr_BlockHash res) else []),
          rm_Height = mr_Height res, rm_BlockTime = mr_BlockTime res, rm_Tip = hs_tip hs, rm_Attestation = a\<rparr>) hs"

definition utxo_statement :: "Outpoint \<Rightarrow> UTXOResult \<Rightarrow> uint32 \<Rightarrow> Statement" where
  "utxo_statement op res tip =
     \<lparr>st_Kind = StmtUTXO, st_TxID = op_TxID op, st_Vout = op_Vout op, st_Flag = (ur_Status res = UTXOUnspent),
      st_Height = ur_SpentHeight res, st_BlockHash = copy_from [], st_Tip = tip\<rparr>"

definition utxoResp :: "'s Env \<Rightarrow> Outpoint \<Rightarrow> UTXOResult \<Rightarrow> 's handler" where
  "utxoResp env op res hs =
     attested_reply env (utxo_statement op res (hs_tip hs))
       (\<lambda>a. BUTXO \<lparr>ru_Status = UTXOStatus_String (ur_Status res), ru_Value = ur_Value res,
          ru_SpentHeight = ur_SpentHeight res, ru_Tip = hs_tip hs, ru_Attestation = a\<rparr>) hs"

section \<open>Free queries\<close>

text \<open>A query of the API whose error is dropped: the result is then the zero value \<open>z\<close>.\<close>

definition ask_or :: "'a \<Rightarrow> ('s, 'a) gom \<Rightarrow> 's HttpServer \<Rightarrow> 's HttpServer \<times> 'a" where
  "ask_or z m hs =
     (case m (hs_store hs) of (s', r) \<Rightarrow>
        (hs\<lparr>hs_store := s'\<rparr>, case r of Inl _ \<Rightarrow> z | Inr x \<Rightarrow> x))"

definition zeroSeen :: SeenResult where
  "zeroSeen = \<lparr>sr_Seen = False, sr_SeenTime = 0\<rparr>"

definition zeroMined :: MinedResult where
  "zeroMined = \<lparr>mr_Mined = False, mr_BlockHash = copy_from [], mr_Height = 0, mr_BlockTime = 0\<rparr>"

text \<open>The guard that the four handlers share, and the \<^verbatim>\<open>txid\<close> parameter.\<close>

definition free_query :: "string \<Rightarrow> (hash \<Rightarrow> 's handler) \<Rightarrow> 's handler" where
  "free_query txidParam h hs =
     (if sc_PaymentRequired (hs_cfg hs)
      then reply (http_Error (BText ''payment required: use /v1/paid/query'') 402) hs
      else case parseHash txidParam of
             None \<Rightarrow> reply (http_Error (BText ''bad txid'') 400) hs
           | Some txid \<Rightarrow> h txid hs)"

definition handleSeen :: "'s Env \<Rightarrow> string \<Rightarrow> 's handler" where
  "handleSeen env txidParam = free_query txidParam (\<lambda>txid hs.
     case ask_or zeroSeen (Seen (env_ops env) txid) hs of (hs, res) \<Rightarrow> seenResp env txid res (inc_served hs))"

definition handleMined :: "'s Env \<Rightarrow> string \<Rightarrow> 's handler" where
  "handleMined env txidParam = free_query txidParam (\<lambda>txid hs.
     case ask_or zeroMined (Mined (env_ops env) txid) hs of (hs, res) \<Rightarrow> minedResp env txid res (inc_served hs))"

definition handleMerklePath :: "'s Env \<Rightarrow> string \<Rightarrow> 's handler" where
  "handleMerklePath env txidParam = free_query txidParam (\<lambda>txid hs.
     case api_MerklePath (env_ops env) txid (hs_store hs) of
       (s', Inl err) \<Rightarrow> reply (http_Error (BError err) 404) (hs\<lparr>hs_store := s'\<rparr>)
     | (s', Inr p) \<Rightarrow> reply (writeJSON (BPath \<lparr>rp_Proof = EncodeProof p\<rparr>)) (inc_served (hs\<lparr>hs_store := s'\<rparr>)))"

text \<open>\<open>vout\<close> is the number that \<^verbatim>\<open>fmt.Sscanf\<close> reads from the parameter, 0 when it reads none.\<close>

definition handleUTXO :: "'s Env \<Rightarrow> string \<Rightarrow> uint32 \<Rightarrow> 's handler" where
  "handleUTXO env txidParam vout = free_query txidParam (\<lambda>txid hs.
     let op = \<lparr>op_TxID = txid, op_Vout = vout\<rparr>
     in case ask_or (status_only UTXOUnknown) (api_UTXO (env_ops env) op) hs of (hs, res) \<Rightarrow>
          utxoResp env op res (inc_served hs))"

section \<open>Payment\<close>

record openReq =
  oq_FundingTxID :: string
  oq_Vout :: uint32
  oq_Deposit :: uint64
  oq_ClientPub :: string
  oq_Flat :: bool
  oq_FlatPrice :: uint64
  oq_PerType :: "uint64 list"
  oq_SettleFee :: uint64
  oq_FeeMode :: byte
  oq_Fee :: uint64
  oq_N :: uint64
  oq_RefundLockTime :: uint32
  oq_SettleBefore :: uint32

definition open_config :: "openReq \<Rightarrow> hash \<Rightarrow> PublicKey \<Rightarrow> bytes \<Rightarrow> bytes \<Rightarrow> Config" where
  "open_config req fund pub clientPub serverPub =
     \<lparr>cf_Params = \<lparr>pa_ChannelID = DeriveChannelID fund (oq_Vout req), pa_FundingTxID = fund, pa_FundingVout = oq_Vout req,
        pa_ClientPub = clientPub, pa_ServerPub = serverPub, pa_FundingValue = oq_Deposit req, pa_Fee = oq_Fee req\<rparr>,
      cf_Deposit = oq_Deposit req, cf_ClientPub = Some pub,
      cf_Pricing = \<lparr>pg_Flat = oq_Flat req, pg_FlatPrice = oq_FlatPrice req, pg_PerType = oq_PerType req,
        pg_SettleFee = oq_SettleFee req, pg_FeeMode = oq_FeeMode req\<rparr>,
      cf_N = oq_N req, cf_RefundLockTime = oq_RefundLockTime req, cf_SettleBefore = oq_SettleBefore req\<rparr>"

text \<open>
  The body of a POST is \<open>Some req\<close> when the JSON decoder accepts it. \<open>post\<close> says that the method is POST.
\<close>

definition handleChannelOpen :: "bool \<Rightarrow> openReq option \<Rightarrow> 's handler" where
  "handleChannelOpen post body hs =
     (if \<not> post then reply (http_Error (BText ''POST only'') 405) hs
      else case body of None \<Rightarrow> reply (http_Error (BText ''bad json'') 400) hs
      | Some req \<Rightarrow>
      (case parseHash (oq_FundingTxID req) of None \<Rightarrow> reply (http_Error (BText ''bad fundingTxid'') 400) hs
      | Some fund \<Rightarrow>
      (case hex_DecodeString (oq_ClientPub req) of None \<Rightarrow> reply (http_Error (BText ''bad clientPub'') 400) hs
      | Some pubBytes \<Rightarrow>
      (case ParseCompressed pubBytes of Inl err \<Rightarrow> reply (http_Error (BError err) 400) hs
      | Inr pub \<Rightarrow>
      (case SerializeCompressed pub of Inl e \<Rightarrow> Some (hs, Inl e)
      | Inr clientPub \<Rightarrow>
      (case SerializeCompressed (Public (hs_payKey hs)) of Inl e \<Rightarrow> Some (hs, Inl e)
      | Inr serverPub \<Rightarrow>
          let cfg = open_config req fund pub clientPub serverPub
          in case OpenChannel cfg (hs_paid hs) of
               (ps, Inl err) \<Rightarrow> reply (http_Error (BError err) 400) (inc_rejected (hs\<lparr>hs_paid := ps\<rparr>))
             | (ps, Inr _) \<Rightarrow> reply (writeJSON (BChannelId (hexHash (pa_ChannelID (cf_Params cfg))))) (hs\<lparr>hs_paid := ps\<rparr>)))))))"

text \<open>\<open>qt\<close> is the number \<^verbatim>\<open>strconv.Atoi\<close> reads, \<open>None\<close> when it fails.\<close>

definition handleQuote :: "string \<Rightarrow> int option \<Rightarrow> 's handler" where
  "handleQuote channel qt hs =
     (case parseHash channel of None \<Rightarrow> reply (http_Error (BText ''bad channel'') 400) hs
      | Some ch \<Rightarrow>
          if (case qt of None \<Rightarrow> True | Some n \<Rightarrow> n < 0 \<or> 3 < n)
          then reply (http_Error (BText ''bad type (0=seen,1=mined,2=merklepath,3=utxo)'') 400) hs
          else case paid_Quote (hs_paid hs) ch (of_int (the qt)) of
                 Inl err \<Rightarrow> reply (http_Error (BError err) 404) hs
               | Inr cum \<Rightarrow> reply (writeJSON (BCumulative cum)) hs)"

record paidReq =
  pq_Channel :: string
  pq_Type :: byte
  pq_TxID :: string
  pq_Vout :: uint32
  pq_CumAmount :: uint64
  pq_Sig :: string

text \<open>
  A prepaid query of the channel registry: on an error \<open>payErr\<close> answers 402 and counts a rejection,
  otherwise the answer is counted and passed on.
\<close>

definition payErr :: "go_error \<Rightarrow> 's handler" where
  "payErr err hs = reply (http_Error (BError err) 402) (inc_rejected hs)"

definition paid_reply :: "('s \<times> PaidServer, 'a) gom \<Rightarrow> ('a \<Rightarrow> 's handler) \<Rightarrow> 's handler" where
  "paid_reply m f hs =
     (case m (hs_store hs, hs_paid hs) of
        ((s', ps'), Inl err) \<Rightarrow> payErr err (hs\<lparr>hs_store := s', hs_paid := ps'\<rparr>)
      | ((s', ps'), Inr res) \<Rightarrow> f res (inc_served (hs\<lparr>hs_store := s', hs_paid := ps'\<rparr>)))"

definition handlePaidQuery :: "'s Env \<Rightarrow> bool \<Rightarrow> paidReq option \<Rightarrow> 's handler" where
  "handlePaidQuery env post body hs =
     (if \<not> post then reply (http_Error (BText ''POST only'') 405) hs
      else case body of None \<Rightarrow> reply (http_Error (BText ''bad json'') 400) hs
      | Some req \<Rightarrow>
      (case parseHash (pq_Channel req) of None \<Rightarrow> reply (http_Error (BText ''bad channel'') 400) hs
      | Some ch \<Rightarrow>
      (case parseHash (pq_TxID req) of None \<Rightarrow> reply (http_Error (BText ''bad txid'') 400) hs
      | Some txid \<Rightarrow>
      (case hex_DecodeString (pq_Sig req) of None \<Rightarrow> reply (http_Error (BText ''bad sig'') 400) hs
      | Some sigBytes \<Rightarrow>
      (case ParseSignature sigBytes of Inl err \<Rightarrow> reply (http_Error (BError err) 400) hs
      | Inr sig \<Rightarrow>
          let commit = Some \<lparr>cm_CumAmount = pq_CumAmount req, cm_Sig = Some sig\<rparr>;
              vf = env_check env; ops = env_ops env
          in if pq_Type req = 0 then paid_reply (paid_Seen vf ops ch commit txid) (seenResp env txid) hs
             else if pq_Type req = 1 then paid_reply (paid_Mined vf ops ch commit txid) (minedResp env txid) hs
             else if pq_Type req = 2
             then paid_reply (paid_MerklePath vf ops ch commit txid)
                    (\<lambda>p. reply (writeJSON (BPath \<lparr>rp_Proof = EncodeProof p\<rparr>))) hs
             else if pq_Type req = 3
             then let op = \<lparr>op_TxID = txid, op_Vout = pq_Vout req\<rparr>
                  in paid_reply (paid_UTXO vf ops ch commit op) (utxoResp env op) hs
             else reply (http_Error (BText ''bad type'') 400) hs)))))"

section \<open>Probes and administration\<close>

definition handleHealth :: "'s handler" where
  "handleHealth = reply \<lparr>rs_Code = 200, rs_Body = BText ''ok''\<rparr>"

definition handleReady :: "'s handler" where
  "handleReady hs =
     (if hs_ready hs then reply \<lparr>rs_Code = 200, rs_Body = BText ''ready''\<rparr> hs
      else reply (http_Error (BText ''not ready'') 503) hs)"

text \<open>The number of heap bytes is an argument.\<close>

definition handleMetrics :: "'s Env \<Rightarrow> nat \<Rightarrow> 's handler" where
  "handleMetrics env heapAlloc hs =
     (let st = so_Stats (env_ops env) (hs_store hs); (ch, banned) = Counts (hs_paid hs); m = hs_met hs
      in reply \<lparr>rs_Code = 200, rs_Body = BMetrics
           [(''memserve_requests_total'', uint (me_requests m)), (''memserve_errors_total'', uint (me_errors m)),
            (''memserve_served_total'', uint (me_served m)), (''memserve_rejected_total'', uint (me_rejected m)),
            (''memserve_blocks_ingested'', uint (me_blocks m)), (''memserve_heap_bytes'', int heapAlloc),
            (''memserve_max_mem_mb'', sc_MaxMemMB (hs_cfg hs)), (''memserve_tip_height'', uint (hs_tip hs)),
            (''memserve_txindex'', int (sts_TxIndex st)), (''memserve_utxo_live'', int (sts_UTXOLive st)),
            (''memserve_utxo_spent_retained'', int (sts_UTXOSpent st)), (''memserve_channels'', int ch),
            (''memserve_channels_banned'', int banned), (''memserve_revenue_satoshis'', uint (Revenue (hs_paid hs)))]\<rparr> hs)"

definition handleAdminStats :: "'s Env \<Rightarrow> string \<Rightarrow> 's handler" where
  "handleAdminStats env authorization hs =
     (if sc_AdminToken (hs_cfg hs) = [] \<or> authorization \<noteq> ''Bearer '' @ sc_AdminToken (hs_cfg hs)
      then reply (http_Error (BText ''unauthorized'') 401) hs
      else
        let st = so_Stats (env_ops env) (hs_store hs); (ch, banned) = Counts (hs_paid hs)
        in case OperatorPubHex hs of Inl e \<Rightarrow> Some (hs, Inl e)
           | Inr pub \<Rightarrow>
               reply (writeJSON (BAdmin
                 \<lparr>ad_tip = hs_tip hs, ad_ready = hs_ready hs, ad_pruneD = policy_D (sc_Prune (hs_cfg hs)),
                  ad_reorgHorizon = po_ReorgHorizon (sc_Prune (hs_cfg hs)), ad_stats = st, ad_channels = ch,
                  ad_banned = banned, ad_revenue = Revenue (hs_paid hs), ad_operatorPub = pub\<rparr>)) hs)"

section \<open>Middleware and routes\<close>

definition wrap_handler :: "string \<Rightarrow> int \<Rightarrow> 's handler \<Rightarrow> 's HttpServer \<Rightarrow> ('s HttpServer \<times> Response) option" where
  "wrap_handler ip now h hs =
     (let hs = hs\<lparr>hs_met := (hs_met hs)\<lparr>me_requests := me_requests (hs_met hs) + 1\<rparr>\<rparr>;
          (hs, ok) = (case hs_limiter hs of None \<Rightarrow> (hs, True)
            | Some l \<Rightarrow> (case allow ip now l of (l', ok) \<Rightarrow> (hs\<lparr>hs_limiter := Some l'\<rparr>, ok)))
      in if \<not> ok then Some (hs, http_Error (BText ''rate limited'') 429)
         else case h hs of None \<Rightarrow> None
              | Some (hs', Inl _) \<Rightarrow>
                  Some (hs'\<lparr>hs_met := (hs_met hs')\<lparr>me_errors := me_errors (hs_met hs') + 1\<rparr>\<rparr>,
                        http_Error (BText ''internal error'') 500)
              | Some (hs', Inr r) \<Rightarrow> Some (hs', r))"

text \<open>The routes behind \<open>wrap\<close>, each with the request values its handler reads.\<close>

datatype Request =
    RSeen string | RMined string | RMerklePath string | RUTXO string uint32
  | RChannelOpen bool "openReq option" | RQuote string "int option" | RPaidQuery bool "paidReq option"
  | RAdminStats string

fun route :: "'s Env \<Rightarrow> Request \<Rightarrow> 's handler" where
  "route env (RSeen txid) = handleSeen env txid"
| "route env (RMined txid) = handleMined env txid"
| "route env (RMerklePath txid) = handleMerklePath env txid"
| "route env (RUTXO txid vout) = handleUTXO env txid vout"
| "route env (RChannelOpen post body) = handleChannelOpen post body"
| "route env (RQuote channel qt) = handleQuote channel qt"
| "route env (RPaidQuery post body) = handlePaidQuery env post body"
| "route env (RAdminStats auth) = handleAdminStats env auth"

definition serve :: "'s Env \<Rightarrow> string \<Rightarrow> int \<Rightarrow> Request \<Rightarrow> 's HttpServer \<Rightarrow> ('s HttpServer \<times> Response) option" where
  "serve env ip now req = wrap_handler ip now (route env req)"

text \<open>The whole mux: the probes and the metrics are not behind \<open>wrap\<close>.\<close>

datatype MuxRequest = MWrapped Request | MHealth | MReady | MMetrics nat

fun Handler :: "'s Env \<Rightarrow> string \<Rightarrow> int \<Rightarrow> MuxRequest \<Rightarrow> 's handler" where
  "Handler env ip now (MWrapped req) hs = map_option (\<lambda>(hs', r). (hs', Inr r)) (serve env ip now req hs)"
| "Handler env ip now MHealth hs = handleHealth hs"
| "Handler env ip now MReady hs = handleReady hs"
| "Handler env ip now (MMetrics heapAlloc) hs = handleMetrics env heapAlloc hs"

text \<open>The probes and the metrics only read, and neither payment nor the rate limit stands before them.\<close>

lemma probes_read_only:
  "Handler env ip now MHealth hs = Some (hs, Inr \<lparr>rs_Code = 200, rs_Body = BText ''ok''\<rparr>)"
  "\<exists>r. Handler env ip now MReady hs = Some (hs, Inr r) \<and> rs_Code r = (if hs_ready hs then 200 else 503)"
  "\<exists>r. Handler env ip now (MMetrics heapAlloc) hs = Some (hs, Inr r) \<and> rs_Code r = 200"
  by (auto simp: handleHealth_def handleReady_def handleMetrics_def reply_def http_Error_def Let_def split: prod.splits)

section \<open>Payment is required\<close>

definition lookup_answer :: "Body \<Rightarrow> bool" where
  "lookup_answer b = (case b of BSeen _ \<Rightarrow> True | BMined _ \<Rightarrow> True | BPath _ \<Rightarrow> True | BUTXO _ \<Rightarrow> True | _ \<Rightarrow> False)"

lemmas server_upd = inc_served_def inc_rejected_def inc_blocks_def

lemma attested_reply_state: "attested_reply env st f hs = Some (hs', r) \<Longrightarrow> hs' = hs"
  by (auto simp: attested_reply_def)

lemma resp_state:
  "seenResp env txid sr hs = Some (hs', r) \<Longrightarrow> hs' = hs"
  "minedResp env txid mr hs = Some (hs', r) \<Longrightarrow> hs' = hs"
  "utxoResp env op ur hs = Some (hs', r) \<Longrightarrow> hs' = hs"
  unfolding seenResp_def minedResp_def utxoResp_def by (erule attested_reply_state)+

lemma paid_reply_answer:
  assumes "paid_reply (prepaid vf cid c q m) f hs = Some (hs', Inr r)" and "lookup_answer (rs_Body r)"
    and "\<And>res h h' x. f res h = Some (h', x) \<Longrightarrow> h' = h"
  shows "authorize vf cid c q (hs_paid hs) = (hs_paid hs', None)"
proof (cases "authorize vf cid c q (hs_paid hs)")
  case (Pair ps err)
  show ?thesis
  proof (cases err)
    case (Some e)
    then show ?thesis using assms(1,2) Pair
      by (auto simp: paid_reply_def prepaid_def payErr_def reply_def http_Error_def lookup_answer_def)
  next
    case None
    obtain s' x where m: "m (hs_store hs) = (s', x)" by (cases "m (hs_store hs)")
    show ?thesis
    proof (cases x)
      case (Inl e)
      then show ?thesis using assms(1,2) Pair None m
        by (auto simp: paid_reply_def prepaid_def on_fst_def payErr_def reply_def http_Error_def lookup_answer_def)
    next
      case (Inr a)
      then have "f a (inc_served (hs\<lparr>hs_store := s', hs_paid := ps\<rparr>)) = Some (hs', Inr r)"
        using assms(1) Pair None m by (simp add: paid_reply_def prepaid_def on_fst_def)
      from assms(3) [OF this] Pair None show ?thesis by (simp add: inc_served_def)
    qed
  qed
qed

lemma reply_state: "reply x h = Some (h', y) \<Longrightarrow> h' = h"
  by (simp add: reply_def)

lemma handlePaidQuery_answer:
  assumes "handlePaidQuery env post body hs = Some (hs', Inr r)" and "lookup_answer (rs_Body r)"
  obtains req cid sg where "post" and "body = Some req" and "parseHash (pq_Channel req) = Some cid"
    and "authorize (env_check env) cid (Some \<lparr>cm_CumAmount = pq_CumAmount req, cm_Sig = Some sg\<rparr>) (pq_Type req) (hs_paid hs) =
      (hs_paid hs', None)"
proof -
  have noans: "reply (http_Error (BText t) k) hs = Some (hs', Inr r) \<Longrightarrow> False"
     "reply (http_Error (BError e) k) hs = Some (hs', Inr r) \<Longrightarrow> False" for t e k
    using assms(2) by (auto simp: reply_def http_Error_def lookup_answer_def)
  from assms(1) obtain req cid txid sb sg where post: "post" "body = Some req" and ch: "parseHash (pq_Channel req) = Some cid"
    and tx: "parseHash (pq_TxID req) = Some txid" and sb: "hex_DecodeString (pq_Sig req) = Some sb" "ParseSignature sb = Inr sg"
    by (auto simp: handlePaidQuery_def split: if_splits option.splits sum.splits dest!: noans)
  note h = assms(1) [unfolded handlePaidQuery_def post ch tx sb option.case sum.case Let_def simp_thms(1-10) if_False not_True_eq_False]
  let ?c = "Some \<lparr>cm_CumAmount = pq_CumAmount req, cm_Sig = Some sg\<rparr>"
  have "authorize (env_check env) cid ?c (pq_Type req) (hs_paid hs) = (hs_paid hs', None)"
  proof -
    consider "pq_Type req = 0" | "pq_Type req = 1" | "pq_Type req = 2" | "pq_Type req = 3"
      using h noans by (auto simp: post ch tx sb split: if_splits)
    then show ?thesis
    proof cases
      case 1
      then have "paid_reply (prepaid (env_check env) cid ?c (pq_Type req) (Seen (env_ops env) txid)) (seenResp env txid) hs = Some (hs', Inr r)"
        using h post by (simp add: paid_Seen_def)
      from paid_reply_answer [OF this assms(2) resp_state(1)] show ?thesis .
    next
      case 2
      then have "paid_reply (prepaid (env_check env) cid ?c (pq_Type req) (Mined (env_ops env) txid)) (minedResp env txid) hs = Some (hs', Inr r)"
        using h post by (simp add: paid_Mined_def)
      from paid_reply_answer [OF this assms(2) resp_state(2)] show ?thesis .
    next
      case 3
      then have "paid_reply (prepaid (env_check env) cid ?c (pq_Type req) (api_MerklePath (env_ops env) txid))
          (\<lambda>p. reply (writeJSON (BPath \<lparr>rp_Proof = EncodeProof p\<rparr>))) hs = Some (hs', Inr r)"
        using h post by (simp add: paid_MerklePath_def)
      from paid_reply_answer [OF this assms(2) reply_state] show ?thesis .
    next
      case 4
      then have "paid_reply (prepaid (env_check env) cid ?c (pq_Type req) (api_UTXO (env_ops env) \<lparr>op_TxID = txid, op_Vout = pq_Vout req\<rparr>))
          (utxoResp env \<lparr>op_TxID = txid, op_Vout = pq_Vout req\<rparr>) hs = Some (hs', Inr r)"
        using h post by (simp add: paid_UTXO_def)
      from paid_reply_answer [OF this assms(2) resp_state(3)] show ?thesis .
    qed
  qed
  with that post ch show thesis by blast
qed

text \<open>Behind the payment guard only the paid route answers a lookup.\<close>

lemma route_answer:
  assumes "route env req hs = Some (hs', Inr r)" and "lookup_answer (rs_Body r)" and "sc_PaymentRequired (hs_cfg hs)"
  obtains post body where "req = RPaidQuery post body" and "handlePaidQuery env post body hs = Some (hs', Inr r)"
proof -
  note no = reply_def http_Error_def writeJSON_def lookup_answer_def Let_def
  show thesis
  proof (cases req)
    case (RPaidQuery post body)
    with that assms(1) show thesis by simp
  next
    case (RChannelOpen post body)
    with assms show thesis by (auto simp: handleChannelOpen_def no split: if_splits option.splits sum.splits prod.splits)
  next
    case (RQuote channel qt)
    with assms show thesis by (auto simp: handleQuote_def no split: if_splits option.splits sum.splits)
  next
    case (RAdminStats auth)
    with assms show thesis by (auto simp: handleAdminStats_def no split: if_splits prod.splits sum.splits)
  qed (use assms in \<open>auto simp: handleSeen_def handleMined_def handleMerklePath_def handleUTXO_def free_query_def no\<close>)
qed

lemma serve_route:
  assumes "serve env ip now req hs = Some (hs', r)" and "lookup_answer (rs_Body r)"
  obtains hs1 where "hs_paid hs1 = hs_paid hs" and "hs_cfg hs1 = hs_cfg hs" and "route env req hs1 = Some (hs', Inr r)"
proof -
  define hs0 where "hs0 = hs\<lparr>hs_met := (hs_met hs)\<lparr>me_requests := me_requests (hs_met hs) + 1\<rparr>\<rparr>"
  obtain hs1 ok where lim: "(case hs_limiter hs0 of None \<Rightarrow> (hs0, True)
      | Some l \<Rightarrow> (case allow ip now l of (l', ok) \<Rightarrow> (hs0\<lparr>hs_limiter := Some l'\<rparr>, ok))) = (hs1, ok)"
    by (metis prod.exhaust)
  then have fr: "hs_paid hs1 = hs_paid hs" "hs_cfg hs1 = hs_cfg hs"
    by (auto simp: hs0_def split: option.splits prod.splits)
  have "ok" and "route env req hs1 = Some (hs', Inr r)"
    using assms lim by (auto simp: serve_def wrap_handler_def hs0_def [symmetric] http_Error_def lookup_answer_def
        split: if_splits option.splits sum.splits)
  with that fr show thesis by blast
qed

text \<open>
  C8. A server that requires payment answers nothing for free. Whatever route, address and time a
  request comes with, when the response carries an answer of one of the four lookups, then the
  request was a paid query on a registered channel that is not banned, its commitment passed the
  signature check, its amount is at least the quote of the channel for that type of query and at most the
  deposit, and exactly this access has been booked on exactly this channel.
\<close>

theorem payment_required_gates:
  assumes "sc_PaymentRequired (hs_cfg hs)" and "serve env ip now req hs = Some (hs', r)" and "lookup_answer (rs_Body r)"
  shows "\<exists>body cid ch sg. req = RPaidQuery True (Some body) \<and> parseHash (pq_Channel body) = Some cid \<and>
    fmlookup (ps_channels (hs_paid hs)) cid = Some ch \<and> fmlookup (ps_banned (hs_paid hs)) cid \<noteq> Some True \<and>
    Quote ch (pq_Type body) \<le> pq_CumAmount body \<and> pq_CumAmount body \<le> cf_Deposit (ch_cfg ch) \<and>
    env_check env (cf_ClientPub (ch_cfg ch)) (cf_Params (ch_cfg ch)) (pq_CumAmount body) (Some sg) = Inr True \<and>
    hs_paid hs' = (hs_paid hs)\<lparr>ps_channels := fmupd cid
      (ch\<lparr>ch_cumPaid := pq_CumAmount body, ch_accesses := ch_accesses ch + 1,
          ch_best := Some \<lparr>cm_CumAmount = pq_CumAmount body, cm_Sig = Some sg\<rparr>\<rparr>) (ps_channels (hs_paid hs))\<rparr>"
proof -
  from assms(2,3) obtain hs1 where h1: "hs_paid hs1 = hs_paid hs" "hs_cfg hs1 = hs_cfg hs" "route env req hs1 = Some (hs', Inr r)"
    by (rule serve_route)
  from h1(3) assms(3) obtain post body where req: "req = RPaidQuery post body" "handlePaidQuery env post body hs1 = Some (hs', Inr r)"
    by (rule route_answer) (use assms(1) h1(2) in simp_all)
  from req(2) assms(3) obtain b cid sg where p: "post" "body = Some b" "parseHash (pq_Channel b) = Some cid"
    and a: "authorize (env_check env) cid (Some \<lparr>cm_CumAmount = pq_CumAmount b, cm_Sig = Some sg\<rparr>) (pq_Type b) (hs_paid hs1) = (hs_paid hs', None)"
    by (rule handlePaidQuery_answer)
  from a show ?thesis
    by (rule authorize_accepted) (use p req h1(1) in \<open>auto simp: lookup_Inr\<close>)
qed

text \<open>A server that requires payment, with one open channel and every signature accepted.\<close>

definition ex_srv_cfg :: "bool \<Rightarrow> SrvConfig" where
  "ex_srv_cfg pay = \<lparr>sc_ShardK = 0, sc_ShardID = 0, sc_Prune = RecommendedPolicy, sc_Abuse = DefaultPolicy,
     sc_PaymentRequired = pay, sc_OperatorSeed = [], sc_AdminToken = [], sc_RatePerSec = 0, sc_MaxMemMB = 0\<rparr>"

definition ex_server :: "bool \<Rightarrow> MemStore HttpServer" where
  "ex_server pay = (NewServer (ex_srv_cfg pay) New)
     \<lparr>hs_paid := (NewWithPolicy DefaultPolicy)\<lparr>ps_channels := fmupd (copy_from [1]) ex_channel fmempty\<rparr>\<rparr>"

definition ex_env :: "MemStore Env" where
  "ex_env = \<lparr>env_ops = mem_ops, env_check = accept_all, env_attest =
     (\<lambda>_ st. Some (Inr \<lparr>at_Statement = st, at_Operator = Some ex_key, at_Sig = Some \<lparr>sig_R = 1, sig_S = 1\<rparr>\<rparr>))\<rparr>"

definition ex_paidReq :: paidReq where
  "ex_paidReq = \<lparr>pq_Channel = hexHash (copy_from [1]), pq_Type = QMined, pq_TxID = hexHash (copy_from [9]), pq_Vout = 0,
     pq_CumAmount = 52, pq_Sig = hex_EncodeToString ex_sig64\<rparr>"

lemma ex_paid_served:
  "\<exists>hs' r. serve ex_env ip now (RPaidQuery True (Some ex_paidReq)) (ex_server True) = Some (hs', r) \<and> lookup_answer (rs_Body r)"
proof -
  have p: "ParseSignature ex_sig64 = Inr \<lparr>sig_R = 5, sig_S = 7\<rparr>"
    by (simp add: ParseSignature_def ex_sig64_def FillBytes_length)
  have a: "Authorize_with accept_all ex_channel (Some \<lparr>cm_CumAmount = 52, cm_Sig = Some \<lparr>sig_R = 5, sig_S = 7\<rparr>\<rparr>) QMined =
      (ex_channel\<lparr>ch_cumPaid := 52, ch_accesses := 1, ch_best := Some \<lparr>cm_CumAmount = 52, cm_Sig = Some \<lparr>sig_R = 5, sig_S = 7\<rparr>\<rparr>\<rparr>, None)"
    by code_simp
  obtain s' r where m: "Mined mem_ops (copy_from [9]) New = (s', r)" by (cases "Mined mem_ops (copy_from [9]) New")
  moreover have "\<exists>x. r = Inr x"
    using m by (auto simp: Mined_def mem_ops_def mem_GetTxIndex_def bindM_def ret_def split: option.splits if_splits)
  ultimately show ?thesis
    using p a by (auto simp: serve_def wrap_handler_def ex_server_def NewServer_def Let_def ex_srv_cfg_def handlePaidQuery_def
        ex_paidReq_def ex_env_def paid_reply_def paid_Mined_def prepaid_def authorize_def lookup_def NewWithPolicy_def on_fst_def
        inc_served_def minedResp_def attested_reply_def attach_def writeJSON_def lookup_answer_def)
qed

theorem payment_required_gates_witness:
  "\<exists>hs' r. serve ex_env ''10.0.0.1'' 0 (RPaidQuery True (Some ex_paidReq)) (ex_server True) = Some (hs', r) \<and>
     lookup_answer (rs_Body r) \<and> (\<exists>ch. fmlookup (ps_channels (hs_paid hs')) (copy_from [1]) = Some ch \<and> ch_cumPaid ch = 52)"
proof -
  obtain hs' r where s: "serve ex_env ''10.0.0.1'' 0 (RPaidQuery True (Some ex_paidReq)) (ex_server True) = Some (hs', r)"
    "lookup_answer (rs_Body r)" using ex_paid_served by blast
  have "sc_PaymentRequired (hs_cfg (ex_server True))" by (simp add: ex_server_def NewServer_def Let_def ex_srv_cfg_def)
  from payment_required_gates [OF this s] obtain ch sg where "hs_paid hs' = (hs_paid (ex_server True))\<lparr>ps_channels := fmupd (copy_from [1])
      (ch\<lparr>ch_cumPaid := 52, ch_accesses := ch_accesses ch + 1, ch_best := Some \<lparr>cm_CumAmount = 52, cm_Sig = Some sg\<rparr>\<rparr>)
      (ps_channels (hs_paid (ex_server True)))\<rparr>"
    by (auto simp: ex_paidReq_def)
  with s show ?thesis by auto
qed

text \<open>
  A client pays for a failed lookup: when the channel accepts the commitment and the API then reports an
  error, the access stays booked and the response is 402, as if the payment had been refused.
\<close>

lemma paid_failure_charged:
  assumes "authorize vf cid c q (hs_paid hs) = (ps', None)" and "m (hs_store hs) = (s', Inl err)"
  shows "paid_reply (prepaid vf cid c q m) f hs =
    Some (inc_rejected (hs\<lparr>hs_store := s', hs_paid := ps'\<rparr>), Inr \<lparr>rs_Code = 402, rs_Body = BError err\<rparr>)"
  using assms by (simp add: paid_reply_def prepaid_def on_fst_def payErr_def reply_def http_Error_def)

text \<open>
  A backend error is answered, and signed, as a negative: \<open>handleMined\<close> drops the error of the API, so
  the statement it signs says "not mined".
\<close>

lemma backend_error_signed:
  assumes "so_GetTxIndex (env_ops env) txid (hs_store hs) = (s', Inl err)" and "\<not> sc_PaymentRequired (hs_cfg hs)"
  shows "handleMined env (hexHash txid) hs = minedResp env txid zeroMined (inc_served (hs\<lparr>hs_store := s'\<rparr>))"
    and "\<not> st_Flag (mined_statement txid zeroMined tip)"
  using assms by (simp_all add: handleMined_def free_query_def ask_or_def Mined_def bindM_def mined_statement_def zeroMined_def)

section \<open>Equivocation of an honest server\<close>

definition mined_answer :: "'s store_ops \<Rightarrow> hash \<Rightarrow> 's HttpServer \<Rightarrow> MinedResult" where
  "mined_answer ops txid hs = snd (ask_or zeroMined (Mined ops txid) hs)"

lemma mined_answer_mem:
  assumes "mem_inv (hs_store hs)"
  shows "mined_answer mem_ops txid hs =
    (case fs_txindex (mem_abs (hs_store hs)) txid of None \<Rightarrow> zeroMined
     | Some ix \<Rightarrow> if ti_Mined ix then \<lparr>mr_Mined = True, mr_BlockHash = ti_BlockHash ix, mr_Height = ti_Height ix,
                                       mr_BlockTime = ti_BlockTime ix\<rparr> else zeroMined)"
proof -
  obtain s' r where m: "Mined mem_ops txid (hs_store hs) = (s', r)" by (cases "Mined mem_ops txid (hs_store hs)")
  from implementsD(2) [OF mem.mined_sim assms m] m show ?thesis
    by (auto simp: mined_answer_def ask_or_def Mined_def flat_ops_def bindM_def ret_def zeroMined_def split: option.splits if_splits)
qed

text \<open>The signed statement in a reply of \<open>handleMined\<close> is built from this answer and the current tip.\<close>

lemma handleMined_statement:
  assumes "\<not> sc_PaymentRequired (hs_cfg hs)" and "hs_identity hs = Some i" and "env_attest env i = (\<lambda>st. Some (Inr (sf st)))"
    and "EncodeAttestation (sf (mined_statement txid (mined_answer (env_ops env) txid hs) (hs_tip hs))) = Inr j"
  shows "\<exists>hs' r. handleMined env (hexHash txid) hs = Some (hs', Inr \<lparr>rs_Code = 200, rs_Body = BMined r\<rparr>) \<and> rm_Attestation r = Some j"
  using assms by (auto simp: handleMined_def free_query_def mined_answer_def ask_or_def minedResp_def attested_reply_def attach_def
      inc_served_def writeJSON_def split: prod.splits)

text \<open>
  C40. An honest server can be convicted of equivocation. The ingest loop stores a block before it
  publishes the new tip; a request that runs between the two is answered from the new store but
  signed for the old tip. So for every transaction of a valid block that was not indexed before, the
  signed "not mined" before the block and the signed "mined" inside that window answer the same
  question at the same tip, \<open>ProveEquivocation\<close> accepts the pair and the fraud proof names the operator.
\<close>

theorem honest_server_equivocates:
  assumes "env_ops env = mem_ops" and "mem_inv (hs_store hs)" and "pruner_ok (hs_pruner hs)" and "keeps_index (hs_pruner hs)"
    and "nxt src = (src', Inr (Some b))" and "\<not> (0 < sc_MaxMemMB (hs_cfg hs) \<and> sc_MaxMemMB (hs_cfg hs) \<le> heldMB)"
    and "serves (hs_ing hs) b txid" and "fs_txindex (mem_abs (hs_store hs)) txid = None"
    and "ingest_turn env heldMB nxt (src, hs) = ((src', hs1), pending)"
    and "earlier = mined_statement txid (mined_answer mem_ops txid hs) (hs_tip hs)"
    and "inside = mined_statement txid (mined_answer mem_ops txid hs1) (hs_tip hs1)"
    and "at_Statement a = earlier" and "at_Statement a' = inside" and "att_Verify vf a = Inr True" and "att_Verify vf a' = Inr True"
    and "pub_Equal (at_Operator a) (at_Operator a') = Inr True"
  shows "pending = Some (bl_Height b) \<and> \<not> st_Flag earlier \<and> st_Flag inside \<and>
    (\<exists>fp. ProveEquivocation vf a a' = Inr fp \<and> fp_Verify vf fp = Inr (at_Operator a, None, True))"
proof -
  obtain s' p' st e where i: "IngestBlock mem_ops (hs_ing hs) b (hs_store hs, hs_pruner hs) = ((s', p'), st, e)" by (metis prod.exhaust)
  from ingest_provable [OF assms(2-4) i assms(7)] obtain si li leaves where e: "e = None" and inv: "mem_inv s'"
    and pv: "provable (mem_abs s') txid (tx_index b si li) (block_rec b) leaves" by blast
  have hs1: "hs1 = hs\<lparr>hs_store := s', hs_pruner := p'\<rparr>" and pend: "pending = Some (bl_Height b)"
    using assms(1,5,6,9) i e by (auto simp: ingest_turn_def)
  have "mined_answer mem_ops txid hs = zeroMined" using mined_answer_mem [OF assms(2), of txid] assms(8) by simp
  moreover have "mr_Mined (mined_answer mem_ops txid hs1)"
    using mined_answer_mem [of hs1 txid] inv pv by (simp add: hs1 provable_def tx_index_def)
  ultimately have fl: "\<not> st_Flag earlier" "st_Flag inside" by (simp_all add: assms(10,11) mined_statement_def zeroMined_def)
  then have "contradicts earlier inside" by (simp add: contradicts_iff assms(10,11)) (simp add: mined_statement_def hs1)
  then have "\<exists>fp. ProveEquivocation vf a a' = Inr fp \<and> fp_Verify vf fp = Inr (at_Operator a, None, True)"
    using assms(12-16) by (simp add: ProveEquivocation_Inr fp_Verify_true fp_accused_Some fp_miner_def)
  with fl pend show ?thesis by blast
qed

lemma ex_server_ok:
  "env_ops ex_env = mem_ops" "mem_inv (hs_store (ex_server pay))" "pruner_ok (hs_pruner (ex_server pay))"
  "keeps_index (hs_pruner (ex_server pay))" "serves (hs_ing (ex_server pay)) ex_valid (copy_from [9])"
  "sc_PaymentRequired (hs_cfg (ex_server pay)) \<longleftrightarrow> pay" "sc_MaxMemMB (hs_cfg (ex_server pay)) = 0" "hs_tip (ex_server pay) = 0"
  "fs_txindex (mem_abs (hs_store (ex_server pay))) txid = None"
proof -
  have hs: "hs_store (ex_server pay) = New" "hs_pruner (ex_server pay) = Some (NewPruner RecommendedPolicy)"
    "sc_MaxMemMB (hs_cfg (ex_server pay)) = 0" "hs_tip (ex_server pay) = 0" "sc_PaymentRequired (hs_cfg (ex_server pay)) = pay"
    "hs_ing (ex_server pay) = \<lparr>in_k = 0, in_id = 0, in_skipValidate = False\<rparr>"
    by (simp_all add: ex_server_def NewServer_def Let_def ex_srv_cfg_def)
  show "serves (hs_ing (ex_server pay)) ex_valid (copy_from [9])"
    using ex_valid by (simp add: serves_def hs) (simp add: ex_valid_def ex_tx_def owns_def)
  show "pruner_ok (hs_pruner (ex_server pay))" "keeps_index (hs_pruner (ex_server pay))"
    by (simp_all add: hs pruner_ok_def keeps_index_def ex_prune_defs)
  show "fs_txindex (mem_abs (hs_store (ex_server pay))) txid = None" by (simp add: hs mem_abs_def New_def newStripe_def)
  show "env_ops ex_env = mem_ops" by (simp add: ex_env_def)
  show "mem_inv (hs_store (ex_server pay))" using mem_inv_New by (simp add: hs)
  show "sc_MaxMemMB (hs_cfg (ex_server pay)) = 0" "hs_tip (ex_server pay) = 0" "sc_PaymentRequired (hs_cfg (ex_server pay)) \<longleftrightarrow> pay"
    using hs by simp_all
qed

theorem honest_server_equivocates_witness:
  "\<exists>a a' fp hs1. ingest_turn ex_env 0 (\<lambda>_ :: unit. ((), Inr (Some ex_valid))) ((), ex_server False) = (((), hs1), Some 5) \<and>
     at_Statement a = mined_statement (copy_from [9]) (mined_answer mem_ops (copy_from [9]) (ex_server False)) 0 \<and>
     at_Statement a' = mined_statement (copy_from [9]) (mined_answer mem_ops (copy_from [9]) hs1) 0 \<and>
     ProveEquivocation accept_sig a a' = Inr fp \<and> fp_Verify accept_sig fp = Inr (Some ex_key, None, True)"
proof -
  let ?hs = "ex_server False" and ?nxt = "\<lambda>_ :: unit. ((), Inr (Some ex_valid) :: go_error + Block option)" and ?tx = "copy_from [9] :: hash"
  obtain hs1 pend where t: "ingest_turn ex_env 0 ?nxt ((), ?hs) = (((), hs1), pend)" by (metis (full_types) prod.exhaust unit.exhaust)
  define sign where "sign st = \<lparr>at_Statement = st, at_Operator = Some ex_key, at_Sig = Some \<lparr>sig_R = 1, sig_S = 1\<rparr>\<rparr>" for st
  have sg: "att_Verify accept_sig (sign st) = Inr True" for st
    using ex_att_ok [of True] by (simp add: att_Verify_def sign_def ex_att_def)
  have r: "pend = Some (bl_Height ex_valid) \<and>
      (\<exists>fp. ProveEquivocation accept_sig (sign (mined_statement ?tx (mined_answer mem_ops ?tx ?hs) (hs_tip ?hs)))
              (sign (mined_statement ?tx (mined_answer mem_ops ?tx hs1) (hs_tip hs1))) = Inr fp \<and>
            fp_Verify accept_sig fp = Inr (Some ex_key, None, True))"
    using honest_server_equivocates [of ex_env ?hs ?nxt "()" "()" ex_valid 0 ?tx hs1 pend _ _
        "sign (mined_statement ?tx (mined_answer mem_ops ?tx ?hs) (hs_tip ?hs))"
        "sign (mined_statement ?tx (mined_answer mem_ops ?tx hs1) (hs_tip hs1))" accept_sig, OF _ _ _ _ _ _ _ _ t refl refl]
      sg ex_key_ok(1) ex_server_ok(1) ex_server_ok(2-9) [of False] by (simp add: sign_def)
  have "hs_tip hs1 = 0" using t by (auto simp: ingest_turn_def ex_server_ok(7,8) split: prod.splits)
  with r t ex_server_ok(8) [of False] show ?thesis
    by (intro exI [of _ "sign (mined_statement ?tx (mined_answer mem_ops ?tx ?hs) 0)"]
        exI [of _ "sign (mined_statement ?tx (mined_answer mem_ops ?tx hs1) 0)"])
       (auto simp: sign_def ex_valid_def)
qed

end
