(* ===== verification/Address.thy ===== *)
theory Address
  imports Bsvtx
begin

text \<open>
  \<^verbatim>\<open>bsvtx/ripemd160.go\<close> and \<^verbatim>\<open>bsvtx/address.go\<close>: RIPEMD-160, Base58 with and without
  checksum, addresses and pay-to-public-key-hash scripts. An encoded string is the list of its
  bytes, all of them ASCII; a string to decode is the list of its runes (Unicode code points), as
  Go's \<^verbatim>\<open>range\<close> over a string delivers them.
\<close>

section \<open>RIPEMD-160\<close>

text \<open>
  The tables. Message selection and rotation amounts are below 16; a row of sixteen of them is one
  numeral with a hexadecimal digit for each.
\<close>

definition nibble :: "uint64 \<Rightarrow> nat \<Rightarrow> nat" where
  "nibble w i = unat (drop_bit (60 - 4 * i) w AND 15)"

definition kl :: "uint32 list" where
  "kl = [0, 1518500249, 1859775393, 2400959708, 2840853838]"

definition kr :: "uint32 list" where
  "kr = [1352829926, 1548603684, 1836072691, 2053994217, 0]"

definition rl :: "nat \<Rightarrow> nat" where
  "rl j = nibble ([0x0123456789ABCDEF, 0x74D1A6F3C0952EB8, 0x3AE49F812706DB5C,
     0x19BA08C4D37FE562, 0x40597C2AE138B6FD] ! (j div 16)) (j mod 16)"

definition rr :: "nat \<Rightarrow> nat" where
  "rr j = nibble ([0x5E7092B4D6F81A3C, 0x6B370D5AEF8C4912, 0xF5137E69B8C2A04D,
     0x86413BF05C2D97AE, 0xCFA4158762DE039B] ! (j div 16)) (j mod 16)"

definition sl :: "nat \<Rightarrow> nat" where
  "sl j = nibble ([0xBEFC5879BDEF6798, 0x768DB97F7CF9B7DC, 0xBD67E9DFE8D65C75,
     0xBCEFEF989E56865C, 0x9F5B68DC5CDEB856] ! (j div 16)) (j mod 16)"

definition sr :: "nat \<Rightarrow> nat" where
  "sr j = nibble ([0x899BDFF5778BEEC6, 0x9DF7C89B77C76FDB, 0x97FB866ECD5EDD75,
     0xF58BEE6E69C9C5F8, 0x85C9C5E68D65FDBB] ! (j div 16)) (j mod 16)"

definition rmd_f :: "nat \<Rightarrow> uint32 \<Rightarrow> uint32 \<Rightarrow> uint32 \<Rightarrow> uint32" where
  "rmd_f j x y z =
     (if j < 16 then x XOR y XOR z
      else if j < 32 then (x AND y) OR (NOT x AND z)
      else if j < 48 then (x OR NOT y) XOR z
      else if j < 64 then (x AND z) OR (y AND NOT z)
      else x XOR (y OR NOT z))"

definition RotateLeft32 :: "uint32 \<Rightarrow> nat \<Rightarrow> uint32" where
  "RotateLeft32 x n = push_bit n x OR drop_bit (32 - n) x"

text \<open>One of the two lines: its five registers \<open>(a, b, c, d, e)\<close> in step \<open>j\<close>.\<close>

type_synonym rmd_line = "uint32 \<times> uint32 \<times> uint32 \<times> uint32 \<times> uint32"

definition rmd_left :: "uint32 list \<Rightarrow> rmd_line \<Rightarrow> nat \<Rightarrow> rmd_line" where
  "rmd_left x = (\<lambda>(a, b, c, d, e) j.
     let t = RotateLeft32 (a + rmd_f j b c d + x ! rl j + kl ! (j div 16)) (sl j) + e
     in (e, t, b, RotateLeft32 c 10, d))"

definition rmd_right :: "uint32 list \<Rightarrow> rmd_line \<Rightarrow> nat \<Rightarrow> rmd_line" where
  "rmd_right x = (\<lambda>(a, b, c, d, e) j.
     let t = RotateLeft32 (a + rmd_f (79 - j) b c d + x ! rr j + kr ! (j div 16)) (sr j) + e
     in (e, t, b, RotateLeft32 c 10, d))"

text \<open>
  The two lines do not read each other, so the loop over \<open>j\<close> is written as one fold for each.
\<close>

definition rmd_block :: "rmd_line \<Rightarrow> uint32 list \<Rightarrow> rmd_line" where
  "rmd_block h x =
     (case h of (h0, h1, h2, h3, h4) \<Rightarrow>
        case foldl (rmd_left x) h [0..<80] of (al, bl, cl, dl, el) \<Rightarrow>
          case foldl (rmd_right x) h [0..<80] of (ar, br, cr, dr, er) \<Rightarrow>
            (h1 + cl + dr, h2 + dl + er, h3 + el + ar, h4 + al + br, h0 + bl + cr))"

definition rmd_pad :: "bytes \<Rightarrow> bytes" where
  "rmd_pad msg = msg @ [0x80] @ replicate ((119 - length msg mod 64) mod 64) 0 @ le64 (of_nat (length msg) * 8)"

fun le_words :: "bytes \<Rightarrow> uint32 list" where
  "le_words (a # b # c # d # rest) =
     (ucast a OR push_bit 8 (ucast b) OR push_bit 16 (ucast c) OR push_bit 24 (ucast d)) # le_words rest"
| "le_words _ = []"

fun rmd_blocks :: "rmd_line \<Rightarrow> bytes \<Rightarrow> rmd_line" where
  "rmd_blocks h pad = (if pad = [] then h else rmd_blocks (rmd_block h (le_words (take 64 pad))) (drop 64 pad))"

declare rmd_blocks.simps [simp del]

definition ripemd160 :: "bytes \<Rightarrow> 20 barray" where
  "ripemd160 msg =
     (case rmd_blocks (1732584193, 4023233417, 2562383102, 271733878, 3285377520) (rmd_pad msg) of
        (h0, h1, h2, h3, h4) \<Rightarrow> copy_from (concat (map le32 [h0, h1, h2, h3, h4])))"

definition Hash160 :: "bytes \<Rightarrow> 20 barray" where
  "Hash160 b = ripemd160 (slice (sha256 b))"

section \<open>Base58\<close>

definition AddrMainP2PKH :: byte where "AddrMainP2PKH = 0x00"
definition AddrTestP2PKH :: byte where "AddrTestP2PKH = 0x6f"

definition b58alphabet :: bytes where
  "b58alphabet = str_bytes ''123456789ABCDEFGHJKLMNPQRSTUVWXYZabcdefghijkmnopqrstuvwxyz''"

fun b58_digits :: "nat \<Rightarrow> bytes" where
  "b58_digits n = (if n = 0 then [] else b58alphabet ! (n mod 58) # b58_digits (n div 58))"

declare b58_digits.simps [simp del]

definition Base58Encode :: "bytes \<Rightarrow> bytes" where
  "Base58Encode b =
     rev (b58_digits (SetBytes b) @ replicate (length (takeWhile (\<lambda>c. c = 0) b)) (b58alphabet ! 0))"

text \<open>The inner loop of the decoder: the index of a character in the alphabet.\<close>

definition b58index :: "byte \<Rightarrow> nat option" where
  "b58index c = find (\<lambda>i. b58alphabet ! i = c) [0..<length b58alphabet]"

fun b58_value :: "nat \<Rightarrow> uint32 list \<Rightarrow> nat option" where
  "b58_value n [] = Some n"
| "b58_value n (r # s) =
     (case b58index (ucast r) of None \<Rightarrow> None | Some idx \<Rightarrow> b58_value (n * 58 + idx) s)"

definition Base58Decode :: "uint32 list \<Rightarrow> go_error + bytes" where
  "Base58Decode s =
     (case b58_value 0 s of None \<Rightarrow> Inl ErrBase58Char
      | Some n \<Rightarrow> Inr (replicate (length (takeWhile (\<lambda>r. ucast r = b58alphabet ! 0) s)) 0 @ Bytes n))"

definition checksum :: "bytes \<Rightarrow> bytes" where
  "checksum payload = take 4 (slice (sha256 (slice (sha256 payload))))"

definition Base58Check :: "bytes \<Rightarrow> bytes" where
  "Base58Check payload = Base58Encode (payload @ checksum payload)"

definition Base58CheckDecode :: "uint32 list \<Rightarrow> go_error + bytes" where
  "Base58CheckDecode s =
     (case Base58Decode s of Inl err \<Rightarrow> Inl err
      | Inr raw \<Rightarrow>
          if length raw < 5 then Inl ErrBase58Short
          else
            let payload = take (length raw - 4) raw; sum = drop (length raw - 4) raw
            in if checksum payload \<noteq> sum then Inl ErrBase58Checksum else Inr payload)"

section \<open>Addresses and scripts\<close>

definition AddressFromPubKey :: "bytes \<Rightarrow> byte \<Rightarrow> bytes" where
  "AddressFromPubKey compressedPub version = Base58Check (version # slice (Hash160 compressedPub))"

definition P2PKH :: "20 barray \<Rightarrow> bytes" where
  "P2PKH pubKeyHash = [0x76, 0xa9, 0x14] @ slice pubKeyHash @ [0x88, 0xac]"

definition P2PKHFromPub :: "bytes \<Rightarrow> bytes" where
  "P2PKHFromPub compressedPub = P2PKH (Hash160 compressedPub)"

definition ScriptSigP2PKH :: "bytes \<Rightarrow> bytes \<Rightarrow> bytes" where
  "ScriptSigP2PKH sigWithType compressedPub = pushData sigWithType @ pushData compressedPub"

section \<open>Base58 is a bijection\<close>

lemma alphabet_length [simp]: "length b58alphabet = 58"
  by (simp add: b58alphabet_def str_bytes_def)

lemma alphabet_index: "i < 58 \<Longrightarrow> b58index (b58alphabet ! i) = Some i"
proof -
  have "list_all (\<lambda>i. b58index (b58alphabet ! i) = Some i) [0..<58]" by code_simp
  then show "i < 58 \<Longrightarrow> b58index (b58alphabet ! i) = Some i" by (simp add: list_all_iff)
qed

lemma index_alphabet: "b58index c = Some i \<Longrightarrow> i < 58 \<and> b58alphabet ! i = c"
  by (auto simp: b58index_def find_Some_iff)

lemma alphabet_inject: "i < 58 \<Longrightarrow> j < 58 \<Longrightarrow> b58alphabet ! i = b58alphabet ! j \<longleftrightarrow> i = j"
  by (metis alphabet_index option.inject)

abbreviation one_char :: byte where "one_char \<equiv> b58alphabet ! 0"

text \<open>The runes of a string of ASCII bytes.\<close>

definition runes :: "bytes \<Rightarrow> uint32 list" where
  "runes bs = map ucast bs"

lemma ucast_rune [simp]: "ucast (ucast (b :: byte) :: uint32) = b"
  by (rule bit_word_eqI) (simp add: bit_simps)

lemma b58_value_append: "b58_value n (xs @ ys) = Option.bind (b58_value n xs) (\<lambda>m. b58_value m ys)"
  by (induction xs arbitrary: n) (auto split: option.split)

lemma b58_digits_pos: "n \<noteq> 0 \<Longrightarrow> b58_digits n = b58alphabet ! (n mod 58) # b58_digits (n div 58)"
  by (simp add: b58_digits.simps [of n])

lemma b58_digits_0 [simp]: "b58_digits 0 = []"
  by (simp add: b58_digits.simps)

lemma b58_value_digits: "b58_value 0 (runes (rev (b58_digits n))) = Some n"
proof (induction n rule: b58_digits.induct)
  case (1 n)
  show ?case
  proof (cases "n = 0")
    case False
    with 1 show ?thesis
      by (simp add: b58_digits_pos runes_def b58_value_append alphabet_index)
  qed (simp add: runes_def)
qed

lemma b58_value_ones: "b58_value 0 (runes (replicate z one_char)) = Some 0"
  by (induction z) (simp_all add: runes_def alphabet_index)

lemma digits_hd: "n \<noteq> 0 \<Longrightarrow> \<exists>d ds. rev (b58_digits n) = d # ds \<and> d \<noteq> one_char"
proof (induction n rule: b58_digits.induct)
  case (1 n)
  show ?case
  proof (cases "n div 58 = 0")
    case True
    with "1.prems" have "0 < n" "n < 58" by (simp_all add: div_eq_0_iff)
    then show ?thesis by (simp add: b58_digits_pos alphabet_inject)
  next
    case False
    with "1.IH" "1.prems" obtain d ds where "rev (b58_digits (n div 58)) = d # ds" "d \<noteq> one_char" by auto
    then show ?thesis using b58_digits_pos [OF "1.prems"] by simp
  qed
qed

lemma takeWhile_replicate: "replicate (length (takeWhile (\<lambda>c. c = a) b)) a = takeWhile (\<lambda>c. c = a) b"
  by (rule replicate_length_same) (auto dest: set_takeWhileD)

lemma Bytes_canonical:
  assumes "d = [] \<or> hd d \<noteq> 0"
  shows "Bytes (SetBytes d) = d"
proof -
  define k where "k = length d - length (Bytes (SetBytes d))"
  have e: "replicate k 0 @ Bytes (SetBytes d) = d"
    using FillBytes_SetBytes [of d] by (simp only: FillBytes_def k_def)
  show ?thesis
  proof (cases k)
    case (Suc i)
    with e have "0 # (replicate i 0 @ Bytes (SetBytes d)) = d" by simp
    then have "d \<noteq> []" "hd d = 0" by (metis list.distinct(1), metis list.sel(1))
    with assms show ?thesis by simp
  qed (use e in simp)
qed

lemma Bytes_SetBytes: "Bytes (SetBytes b) = dropWhile (\<lambda>c. c = 0) b"
proof -
  let ?d = "dropWhile (\<lambda>c. c = 0) b" and ?t = "takeWhile (\<lambda>c. c = 0) b"
  have "b = replicate (length ?t) 0 @ ?d" by (simp only: takeWhile_replicate takeWhile_dropWhile_id)
  then have "SetBytes b = SetBytes ?d" by (metis SetBytes_zeros)
  then show ?thesis using Bytes_canonical [of ?d] hd_dropWhile [of "\<lambda>c. c = 0" b] by metis
qed

lemma zeros_Bytes: "takeWhile (\<lambda>c. c = 0) (replicate z 0 @ Bytes n) = replicate z 0"
  using Bytes_hd [of n] by (cases "Bytes n"; cases "n = 0") (auto simp: takeWhile_append Bytes.simps)

lemma ones_digits: "takeWhile (\<lambda>r. ucast r = one_char) (runes (replicate z one_char @ rev (b58_digits n))) = runes (replicate z one_char)"
  using digits_hd [of n] by (cases "n = 0") (auto simp: runes_def takeWhile_append)

lemma Base58Encode_form:
  "Base58Encode b = replicate (length (takeWhile (\<lambda>c. c = 0) b)) one_char @ rev (b58_digits (SetBytes b))"
  by (simp add: Base58Encode_def)

lemma base58_roundtrip: "Base58Decode (runes (Base58Encode b)) = Inr b"
proof -
  let ?z = "length (takeWhile (\<lambda>c. c = 0) b)"
  have "b58_value 0 (runes (Base58Encode b)) = Some (SetBytes b)"
    using b58_value_ones b58_value_digits by (simp add: Base58Encode_form runes_def b58_value_append)
  moreover have "replicate ?z 0 = takeWhile (\<lambda>c. c = 0) b" by (rule takeWhile_replicate)
  ultimately show ?thesis
    unfolding Base58Decode_def using ones_digits [of ?z "SetBytes b"] by (simp add: Base58Encode_form Bytes_SetBytes runes_def)
qed

lemma b58_value_zero: "b58_value 0 s = Some n \<Longrightarrow> n = 0 \<longleftrightarrow> (\<forall>r \<in> set s. ucast r = one_char)"
proof (induction s arbitrary: n rule: rev_induct)
  case (snoc r s)
  then obtain m i where m: "b58_value 0 s = Some m" and i: "b58index (ucast r) = Some i" and n: "n = m * 58 + i"
    by (auto simp: b58_value_append bind_eq_Some_conv split: option.splits)
  have "i = 0 \<longleftrightarrow> ucast r = one_char" using index_alphabet [OF i] alphabet_inject [of i 0] by auto
  with snoc.IH [OF m] n show ?case by auto
qed simp

lemma b58_value_inv:
  "b58_value 0 s = Some n \<Longrightarrow>
   map ucast s = replicate (length (takeWhile (\<lambda>r. ucast r = one_char) s)) one_char @ rev (b58_digits n)"
proof (induction s arbitrary: n rule: rev_induct)
  case (snoc r s)
  then obtain m i where m: "b58_value 0 s = Some m" and i: "b58index (ucast r) = Some i" and n: "n = m * 58 + i"
    by (auto simp: b58_value_append bind_eq_Some_conv split: option.splits)
  have r: "i < 58" "ucast r = b58alphabet ! i" using index_alphabet [OF i] by auto
  note ih = snoc.IH [OF m]
  show ?case
  proof (cases "m = 0")
    case True
    then have "\<forall>r \<in> set s. ucast r = one_char" using b58_value_zero [OF m] by simp
    then have t: "takeWhile (\<lambda>r. ucast r = one_char) (s @ [r]) = s @ (if ucast r = one_char then [r] else [])"
      by (simp add: takeWhile_append)
    have s: "map ucast s = replicate (length s) one_char" using ih True \<open>\<forall>r \<in> set s. ucast r = one_char\<close> by (simp add: takeWhile_eq_all_conv [THEN iffD2])
    show ?thesis
    proof (cases "i = 0")
      case True
      then show ?thesis using t s r n \<open>m = 0\<close> by (simp add: replicate_append_same)
    next
      case False
      then have "ucast r \<noteq> one_char" using r alphabet_inject [of i 0] by simp
      with False show ?thesis using t s r n \<open>m = 0\<close> by (simp add: b58_digits_pos)
    qed
  next
    case False
    then obtain x where x: "x \<in> set s" "ucast x \<noteq> one_char" using b58_value_zero [OF m] by auto
    have d: "b58_digits n = b58alphabet ! i # b58_digits m" using False r n by (simp add: b58_digits_pos)
    show ?thesis using ih r x by (simp add: d takeWhile_append1)
  qed
qed simp

lemma base58_canonical: "Base58Decode s = Inr b \<Longrightarrow> Base58Encode b = map ucast s"
proof -
  assume "Base58Decode s = Inr b"
  then obtain n where n: "b58_value 0 s = Some n"
    and b: "b = replicate (length (takeWhile (\<lambda>r. ucast r = one_char) s)) 0 @ Bytes n"
    by (auto simp: Base58Decode_def split: option.splits)
  have "SetBytes b = n" by (simp add: b SetBytes_zeros)
  then show "Base58Encode b = map ucast s"
    unfolding b58_value_inv [OF n] Base58Encode_form by (simp add: b zeros_Bytes)
qed

lemma checksum_length [simp]: "length (checksum p) = 4"
  by (simp add: checksum_def)

text \<open>
  C28. Addresses survive the round trip: decoding a checked encoding gives the payload back (an empty
  payload alone is refused as too short), in particular version and key hash of an address; and
  every accepted string is, after its runes are cut to bytes, the encoding of the payload it decodes to, so
  no payload has a second spelling in ASCII and no accepted string has a wrong checksum.
\<close>

theorem base58check_bijection:
  "Base58CheckDecode (runes (Base58Check payload)) = (if payload = [] then Inl ErrBase58Short else Inr payload) \<and>
   Base58CheckDecode (runes (AddressFromPubKey pub v)) = Inr (v # slice (Hash160 pub)) \<and>
   (case Base58CheckDecode s of Inl _ \<Rightarrow> True | Inr p \<Rightarrow> p \<noteq> [] \<and> Base58Check p = map ucast s)"
proof -
  have rt: "Base58CheckDecode (runes (Base58Check p)) = (if p = [] then Inl ErrBase58Short else Inr p)" for p
    by (cases p) (simp_all add: Base58CheckDecode_def Base58Check_def base58_roundtrip)
  moreover have "case Base58CheckDecode s of Inl _ \<Rightarrow> True | Inr p \<Rightarrow> p \<noteq> [] \<and> Base58Check p = map ucast s"
  proof (cases "Base58Decode s")
    case (Inr raw)
    show ?thesis
    proof (cases "length raw < 5 \<or> checksum (take (length raw - 4) raw) \<noteq> drop (length raw - 4) raw")
      case False
      then show ?thesis using base58_canonical [OF Inr] Inr by (auto simp: Base58CheckDecode_def Base58Check_def)
    qed (auto simp: Base58CheckDecode_def Inr Let_def)
  qed (simp add: Base58CheckDecode_def)
  ultimately show ?thesis by (simp add: AddressFromPubKey_def)
qed

text \<open>
  The decoder cuts every rune to its low byte, so a string with foreign characters can be accepted: adding a multiple
  of 256 to a code point changes nothing.
\<close>

lemma base58_rune_alias: "map (ucast :: uint32 \<Rightarrow> byte) s = map ucast t \<Longrightarrow> Base58Decode s = Base58Decode t"
proof -
  have v: "map (ucast :: uint32 \<Rightarrow> byte) s = map ucast t \<Longrightarrow> b58_value n s = b58_value n t" for n
    by (induction s t arbitrary: n rule: list_induct2') (auto split: option.split)
  have t: "map (ucast :: uint32 \<Rightarrow> byte) s = map ucast t \<Longrightarrow>
      length (takeWhile (\<lambda>r. ucast r = one_char) s) = length (takeWhile (\<lambda>r. ucast r = one_char) t)"
    by (induction s t rule: list_induct2') auto
  show "map (ucast :: uint32 \<Rightarrow> byte) s = map ucast t \<Longrightarrow> Base58Decode s = Base58Decode t"
    using v [of 0] t by (simp add: Base58Decode_def split: option.split)
qed

lemma P2PKH_length [simp, len_simps]: "length (P2PKH h) = 25"
  by (simp add: P2PKH_def)

lemma P2PKH_inject [inj_simps]: "P2PKH h = P2PKH g \<longleftrightarrow> h = g"
  by (simp add: P2PKH_def)

lemma rmd_pad_blocks: "length (rmd_pad m) mod 64 = 0"
  using sha_pad_blocks [of m] by (simp add: rmd_pad_def sha_pad_def)

end
