(* ===== verification/Test_Vectors.thy ===== *)
theory Test_Vectors
  imports Address
begin

text \<open>
  Published test vectors of the two hash functions, evaluated by the kernel: SHA-256 and RIPEMD-160
  of the three bytes \<^verbatim>\<open>abc\<close> (FIPS 180-4; \<^verbatim>\<open>bsvtx/ripemd160_test.go\<close>).
\<close>

lemma sha256_abc:
  "slice (sha256 (str_bytes ''abc'')) =
    [0xba, 0x78, 0x16, 0xbf, 0x8f, 0x01, 0xcf, 0xea, 0x41, 0x41, 0x40, 0xde, 0x5d, 0xae, 0x22, 0x23,
     0xb0, 0x03, 0x61, 0xa3, 0x96, 0x17, 0x7a, 0x9c, 0xb4, 0x10, 0xff, 0x61, 0xf2, 0x00, 0x15, 0xad]"
  by code_simp

lemma ripemd160_abc:
  "slice (ripemd160 (str_bytes ''abc'')) =
    [0x8e, 0xb2, 0x08, 0xf7, 0xe0, 0x5d, 0x98, 0x7a, 0x9b, 0x04, 0x4a, 0x8e, 0x98, 0xc6, 0xb0, 0x87, 0xf1, 0x5a, 0x0b, 0xfc]"
  by code_simp

end
