(* ===== verification/Httpsource.thy ===== *)
theory Httpsource
  imports Wire Ingest
begin

text \<open>
  \<^verbatim>\<open>teranode/httpsource/httpsource.go\<close>: the block source that polls a Teranode server. The
  server and the network are outside the sources: they are the argument \<open>Net\<close>, a state
  with one operation per URL that answers a GET request. A reply carries the JSON body as the
  value the decoder reads from it, or \<open>None\<close> when it cannot be decoded. Waiting times are not modelled.
\<close>

section \<open>Requests and retries\<close>

datatype 'j HttpReply = BadURL | NetError | Reply nat "'j option"

abbreviation "ErrNetwork \<equiv> ErrBackend 1"
abbreviation "ErrMalformedURL \<equiv> ErrBackend 2"
abbreviation "ErrJSON \<equiv> ErrBackend 3"
abbreviation "ErrHashForm \<equiv> ErrBackend 4"
abbreviation "ErrHeaderForm \<equiv> ErrBackend 5"

text \<open>The error of a status code other than 200.\<close>

definition ErrStatus :: "nat \<Rightarrow> go_error" where
  "ErrStatus code = ErrBackend (1000 + code)"

definition transient :: "nat \<Rightarrow> bool" where
  "transient code = (code = 429 \<or> 500 \<le> code)"

text \<open>
  The loop of \<open>getJSON\<close> with \<open>n\<close> attempts left and the error of the last one. The final error wraps
  the last error; it is represented by it.
\<close>

fun attempts :: "('w \<Rightarrow> 'w \<times> 'j HttpReply) \<Rightarrow> nat \<Rightarrow> go_error \<Rightarrow> ('w, 'j) gom" where
  "attempts get 0 lastErr w = (w, Inl lastErr)"
| "attempts get (Suc n) lastErr w =
     (case get w of
        (w', BadURL) \<Rightarrow> (w', Inl ErrMalformedURL)
      | (w', NetError) \<Rightarrow> attempts get n ErrNetwork w'
      | (w', Reply code body) \<Rightarrow>
          if code = 200 then (w', case body of None \<Rightarrow> Inl ErrJSON | Some j \<Rightarrow> Inr j)
          else if transient code then attempts get n (ErrStatus code) w'
          else (w', Inl (ErrStatus code)))"

definition getJSON :: "('w \<Rightarrow> 'w \<times> 'j HttpReply) \<Rightarrow> int \<Rightarrow> ('w, 'j) gom" where
  "getJSON get maxRetries = attempts get (nat (maxRetries + 1)) ErrNetwork"

section \<open>The JSON contract\<close>

record jsonInput =
  ji_TxID :: string
  ji_Vout :: uint32

record jsonOutput =
  jo_Value :: uint64
  jo_ScriptHash :: string

record jsonTx =
  jt_TxID :: string
  jt_Inputs :: "jsonInput list"
  jt_Outputs :: "jsonOutput list"

record jsonSubtree =
  js_Root :: string
  js_Txs :: "jsonTx list"

record jsonBlock =
  jb_Hash :: string
  jb_Height :: uint32
  jb_Time :: uint32
  jb_Header :: string
  jb_Subtrees :: "jsonSubtree list"

record jsonTip =
  jp_Height :: uint32

section \<open>Conversion\<close>

definition hexHash32 :: "string \<Rightarrow> go_error + hash" where
  "hexHash32 s =
     (case hex_DecodeString s of None \<Rightarrow> Inl ErrHashForm
      | Some b \<Rightarrow> if length b \<noteq> 32 then Inl ErrHashForm else Inr (copy_from b))"

text \<open>A loop that converts the elements of a slice and returns on the first error.\<close>

fun convert_all :: "('a \<Rightarrow> go_error + 'b) \<Rightarrow> 'a list \<Rightarrow> go_error + 'b list" where
  "convert_all f [] = Inr []"
| "convert_all f (x # xs) =
     (case f x of Inl e \<Rightarrow> Inl e
      | Inr y \<Rightarrow> (case convert_all f xs of Inl e \<Rightarrow> Inl e | Inr ys \<Rightarrow> Inr (y # ys)))"

definition convert_input :: "jsonInput \<Rightarrow> go_error + Outpoint" where
  "convert_input i =
     (case hexHash32 (ji_TxID i) of Inl e \<Rightarrow> Inl e | Inr itx \<Rightarrow> Inr \<lparr>op_TxID = itx, op_Vout = ji_Vout i\<rparr>)"

definition convert_output :: "jsonOutput \<Rightarrow> go_error + TxOut" where
  "convert_output out =
     (case hexHash32 (jo_ScriptHash out) of Inl e \<Rightarrow> Inl e
      | Inr sh \<Rightarrow> Inr \<lparr>to_Value = jo_Value out, to_ScriptHash = sh\<rparr>)"

definition convert_tx :: "jsonTx \<Rightarrow> go_error + Tx" where
  "convert_tx jt =
     (case hexHash32 (jt_TxID jt) of Inl e \<Rightarrow> Inl e
      | Inr txid \<Rightarrow>
          (case convert_all convert_input (jt_Inputs jt) of Inl e \<Rightarrow> Inl e
           | Inr ins \<Rightarrow>
               (case convert_all convert_output (jt_Outputs jt) of Inl e \<Rightarrow> Inl e
                | Inr outs \<Rightarrow> Inr \<lparr>tx_TxID = txid, tx_Inputs = ins, tx_Outputs = outs\<rparr>)))"

definition convert_subtree :: "jsonSubtree \<Rightarrow> go_error + Subtree" where
  "convert_subtree js =
     (case hexHash32 (js_Root js) of Inl e \<Rightarrow> Inl e
      | Inr root \<Rightarrow>
          (case convert_all convert_tx (js_Txs js) of Inl e \<Rightarrow> Inl e
           | Inr txs \<Rightarrow> Inr \<lparr>su_Root = root, su_TxIDs = map tx_TxID txs, su_Txs = txs\<rparr>))"

definition convert :: "jsonBlock \<Rightarrow> go_error + Block" where
  "convert jb =
     (case hex_DecodeString (jb_Header jb) of None \<Rightarrow> Inl ErrHeaderForm
      | Some hb \<Rightarrow>
          if length hb \<noteq> 80 then Inl ErrHeaderForm
          else
            let header = copy_from hb
            in case hexHash32 (jb_Hash jb) of Inl e \<Rightarrow> Inl e
               | Inr h \<Rightarrow>
                   (case convert_all convert_subtree (jb_Subtrees jb) of Inl e \<Rightarrow> Inl e
                    | Inr subs \<Rightarrow>
                        Inr \<lparr>bl_Hash = h, bl_Height = jb_Height jb, bl_Time = jb_Time jb,
                             bl_MerkleRoot = copy_from (take 32 (drop 36 (slice header))),
                             bl_SubtreeRoots = map su_Root subs, bl_Header = header, bl_Subtrees = subs\<rparr>))"

section \<open>The source\<close>

record HttpConfig =
  hc_StartHeight :: uint32
  hc_EndHeight :: uint32
  hc_MaxRetries :: int

record HttpSource =
  ht_cfg :: HttpConfig
  ht_height :: uint32
  ht_tip :: uint32

definition NewHttpSource :: "HttpConfig \<Rightarrow> HttpSource" where
  "NewHttpSource cfg =
     (let cfg = (if hc_MaxRetries cfg \<le> 0 then cfg\<lparr>hc_MaxRetries := 4\<rparr> else cfg)
      in \<lparr>ht_cfg = cfg, ht_height = hc_StartHeight cfg, ht_tip = 0\<rparr>)"

record 'w Net =
  net_best :: "'w \<Rightarrow> 'w \<times> jsonTip HttpReply"
  net_block :: "uint32 \<Rightarrow> 'w \<Rightarrow> 'w \<times> jsonBlock HttpReply"

definition refreshTip :: "'w Net \<Rightarrow> (HttpSource \<times> 'w, unit) gom" where
  "refreshTip net = (\<lambda>(s, w).
     case getJSON (net_best net) (hc_MaxRetries (ht_cfg s)) w of
       (w', Inl e) \<Rightarrow> ((s, w'), Inl e)
     | (w', Inr t) \<Rightarrow> ((s\<lparr>ht_tip := jp_Height t\<rparr>, w'), Inr ()))"

definition fetchBlock :: "'w Net \<Rightarrow> uint32 \<Rightarrow> (HttpSource \<times> 'w, Block) gom" where
  "fetchBlock net h = (\<lambda>(s, w).
     case getJSON (net_block net h) (hc_MaxRetries (ht_cfg s)) w of
       (w', Inl e) \<Rightarrow> ((s, w'), Inl e)
     | (w', Inr jb) \<Rightarrow> ((s, w'), convert jb))"

definition http_TipHeight :: "HttpSource \<times> 'w \<Rightarrow> uint32" where
  "http_TipHeight sw = ht_tip (fst sw)"

definition http_Next :: "'w Net \<Rightarrow> (HttpSource \<times> 'w, Block option) gom" where
  "http_Next net =
     bindM (getM fst) (\<lambda>s.
     if hc_EndHeight (ht_cfg s) \<noteq> 0 \<and> hc_EndHeight (ht_cfg s) < ht_height s then ret None
     else
       bindM (if ht_tip s < ht_height s then refreshTip net else ret ()) (\<lambda>_.
       bindM (getM fst) (\<lambda>s.
       if ht_tip s < ht_height s then ret None
       else
         bindM (fetchBlock net (ht_height s)) (\<lambda>blk.
         bindM (modifyM (\<lambda>(s, w). (s\<lparr>ht_height := ht_height s + 1\<rparr>, w))) (\<lambda>_. ret (Some blk))))))"

section \<open>Retries\<close>

text \<open>A network that answers the requests with a given list of replies, one after the other.\<close>

definition script :: "'j HttpReply list \<Rightarrow> 'j HttpReply list \<times> 'j HttpReply" where
  "script w = (case w of [] \<Rightarrow> ([], NetError) | r # rs \<Rightarrow> (rs, r))"

definition retryable :: "'j HttpReply \<Rightarrow> bool" where
  "retryable r = (case r of BadURL \<Rightarrow> False | NetError \<Rightarrow> True | Reply code _ \<Rightarrow> code \<noteq> 200 \<and> transient code)"

text \<open>What a reply that ends the loop makes \<open>getJSON\<close> return.\<close>

definition verdict :: "'j HttpReply \<Rightarrow> go_error + 'j" where
  "verdict r = (case r of BadURL \<Rightarrow> Inl ErrMalformedURL | NetError \<Rightarrow> Inl ErrNetwork
     | Reply code body \<Rightarrow>
         if code = 200 then (case body of None \<Rightarrow> Inl ErrJSON | Some j \<Rightarrow> Inr j) else Inl (ErrStatus code))"

lemma attempts_script:
  assumes "n \<le> length w" and "k = length (takeWhile retryable w)"
  shows "if k < n then attempts script n e w = (drop (k + 1) w, verdict (w ! k))
    else \<exists>e'. attempts script n e w = (drop n w, Inl e')"
  using assms
proof (induction n arbitrary: w e k)
  case 0
  then show ?case by simp
next
  case (Suc n)
  then obtain r rs where w: "w = r # rs" by (cases w) auto
  show ?case
  proof (cases "retryable r")
    case True
    obtain e' where v: "attempts script (Suc n) e w = attempts script n e' rs"
      using True by (cases r) (auto simp: w script_def retryable_def)
    show ?thesis
      using Suc.IH [of rs _ e', OF _ refl] Suc.prems True unfolding v by (simp add: w)
  next
    case False
    then have "attempts script (Suc n) e w = (rs, verdict r)"
      by (cases r) (auto simp: w script_def retryable_def verdict_def)
    then show ?thesis using False Suc.prems by (simp add: w)
  qed
qed



section \<open>Converted blocks\<close>

lemma convert_all_length: "convert_all f xs = Inr ys \<Longrightarrow> length ys = length xs"
  by (induction xs arbitrary: ys) (auto split: sum.splits)

lemma convert_all_all: "convert_all f xs = Inr ys \<Longrightarrow> (\<And>x y. f x = Inr y \<Longrightarrow> P y) \<Longrightarrow> \<forall>y \<in> set ys. P y"
  by (induction xs arbitrary: ys) (auto split: sum.splits)

lemma convert_subtree_parallel: "convert_subtree js = Inr sub \<Longrightarrow> map tx_TxID (su_Txs sub) = su_TxIDs sub"
  by (auto simp: convert_subtree_def split: sum.splits)

lemma convert_shape:
  assumes "convert jb = Inr b"
  shows "bl_SubtreeRoots b = map su_Root (bl_Subtrees b)" and "bl_MerkleRoot b = HeaderMerkleRoot (bl_Header b)"
    and "\<forall>sub \<in> set (bl_Subtrees b). map tx_TxID (su_Txs sub) = su_TxIDs sub" and "length (bl_Subtrees b) = length (jb_Subtrees jb)"
    and "bl_Height b = jb_Height jb"
proof -
  obtain hb h subs where c: "convert_all convert_subtree (jb_Subtrees jb) = Inr subs"
    and b: "b = \<lparr>bl_Hash = h, bl_Height = jb_Height jb, bl_Time = jb_Time jb,
      bl_MerkleRoot = copy_from (take 32 (drop 36 hb)),
      bl_SubtreeRoots = map su_Root subs, bl_Header = copy_from hb, bl_Subtrees = subs\<rparr>" "length hb = 80"
    using assms by (auto simp: convert_def Let_def split: option.splits sum.splits if_splits)
  show "bl_SubtreeRoots b = map su_Root (bl_Subtrees b)" "bl_MerkleRoot b = HeaderMerkleRoot (bl_Header b)" "bl_Height b = jb_Height jb"
    by (simp_all add: b HeaderMerkleRoot_def)
  show "length (bl_Subtrees b) = length (jb_Subtrees jb)" using c by (simp add: b convert_all_length)
  show "\<forall>sub \<in> set (bl_Subtrees b). map tx_TxID (su_Txs sub) = su_TxIDs sub"
    using convert_all_all [OF c convert_subtree_parallel] by (simp add: b)
qed

text \<open>
  C25. What the adapter hands to the ingestor is well formed where validation does not look: every
  converted block has its transactions parallel to its txids, lists the roots of its subtrees
  in order, and claims the root its header commits to. For such a block validation reduces to the hashes: it
  passes exactly when every subtree's txids hash to the root it claims and these roots hash to the
  root in the header.
\<close>

theorem converted_block_wellformed:
  "case convert jb of Inl _ \<Rightarrow> True
   | Inr b \<Rightarrow>
       list_all (\<lambda>sub. map tx_TxID (su_Txs sub) = su_TxIDs sub) (bl_Subtrees b) \<and>
       bl_SubtreeRoots b = map su_Root (bl_Subtrees b) \<and> bl_MerkleRoot b = HeaderMerkleRoot (bl_Header b) \<and>
       (validateBlock b = None \<longleftrightarrow>
          list_all (\<lambda>sub. MerkleRoot (su_TxIDs sub) = Inr (su_Root sub)) (bl_Subtrees b) \<and>
          MerkleRoot (bl_SubtreeRoots b) = Inr (HeaderMerkleRoot (bl_Header b)))"
proof (cases "convert jb")
  case (Inr b)
  note s = convert_shape [OF Inr]
  have v: "validate_subtrees subs (map su_Root subs) \<longleftrightarrow> list_all (\<lambda>sub. MerkleRoot (su_TxIDs sub) = Inr (su_Root sub)) subs" for subs
    by (induction subs) (auto split: sum.split)
  have "validateBlock b = None \<longleftrightarrow> list_all (\<lambda>sub. MerkleRoot (su_TxIDs sub) = Inr (su_Root sub)) (bl_Subtrees b) \<and>
      MerkleRoot (map su_Root (bl_Subtrees b)) = Inr (HeaderMerkleRoot (bl_Header b))"
    by (auto simp: validateBlock_def s(1,2) v split: sum.splits)
  with s Inr show ?thesis by (simp add: list_all_iff)
qed simp

text \<open>
  C24. The source neither skips nor repeats: a call of \<open>Next\<close> that returns a block has fetched the block
  at the current height, which is within the tip and the end height, and moves to the next height; every
  other call, failed or caught up, leaves the height as it was, and "caught up" is reported only past
  the end height or past a freshly read tip.
\<close>

theorem http_next_exact:
  "case http_Next net (s, w) of ((s', w'), r) \<Rightarrow> ht_cfg s' = ht_cfg s \<and>
     (case r of
        Inl _ \<Rightarrow> ht_height s' = ht_height s
      | Inr None \<Rightarrow> ht_height s' = ht_height s \<and>
          (0 < hc_EndHeight (ht_cfg s) \<and> hc_EndHeight (ht_cfg s) < ht_height s \<or> ht_tip s' < ht_height s)
      | Inr (Some b) \<Rightarrow> ht_height s' = ht_height s + 1 \<and> ht_height s \<le> ht_tip s' \<and>
          (hc_EndHeight (ht_cfg s) = 0 \<or> ht_height s \<le> hc_EndHeight (ht_cfg s)) \<and>
          (\<exists>w1 jb. getJSON (net_block net (ht_height s)) (hc_MaxRetries (ht_cfg s)) w1 = (w', Inr jb) \<and> convert jb = Inr b))"
proof (cases "hc_EndHeight (ht_cfg s) \<noteq> 0 \<and> hc_EndHeight (ht_cfg s) < ht_height s")
  case True
  then show ?thesis by (simp add: http_Next_def bindM_def getM_def ret_def word_neq_0_conv)
next
  case False
  obtain s1 w1 r1 where r1: "(if ht_tip s < ht_height s then refreshTip net else ret ()) (s, w) = ((s1, w1), r1)" by (metis prod.exhaust)
  have n: "http_Next net (s, w) = bindM (if ht_tip s < ht_height s then refreshTip net else ret ()) (\<lambda>_.
      bindM (getM fst) (\<lambda>s. if ht_tip s < ht_height s then ret None
       else bindM (fetchBlock net (ht_height s)) (\<lambda>blk.
         bindM (modifyM (\<lambda>(s, w). (s\<lparr>ht_height := ht_height s + 1\<rparr>, w))) (\<lambda>_. ret (Some blk))))) (s, w)"
    unfolding http_Next_def by (subst (1) bindM_def) (simp only: getM_def prod.case sum.case fst_conv if_not_P [OF False])
  have s1: "ht_cfg s1 = ht_cfg s" "ht_height s1 = ht_height s"
    using r1 by (auto simp: refreshTip_def ret_def split: if_splits prod.splits sum.splits)
  show ?thesis
  proof (cases r1)
    case (Inl e)
    then have "http_Next net (s, w) = ((s1, w1), Inl e)" unfolding n by (simp only: bindM_def r1 prod.case sum.case)
    with s1 show ?thesis by simp
  next
    case (Inr u)
    obtain w2 r0 where g0: "getJSON (net_block net (ht_height s)) (hc_MaxRetries (ht_cfg s1)) w1 = (w2, r0)" by (metis prod.exhaust)
    define r2 where "r2 = (case r0 of Inl e \<Rightarrow> Inl e | Inr jb \<Rightarrow> convert jb)"
    have f: "fetchBlock net (ht_height s) (s1, w1) = ((s1, w2), r2)" by (simp add: fetchBlock_def g0 r2_def split: sum.split)
    have g: "\<exists>jb. getJSON (net_block net (ht_height s)) (hc_MaxRetries (ht_cfg s)) w1 = (w2, Inr jb) \<and> convert jb = Inr b" if "r2 = Inr b" for b
      using f that s1 by (auto simp: fetchBlock_def split: prod.splits sum.splits)
    have "http_Next net (s, w) = (if ht_tip s1 < ht_height s then ((s1, w1), Inr None)
        else case r2 of Inl e \<Rightarrow> ((s1, w2), Inl e) | Inr b \<Rightarrow> ((s1\<lparr>ht_height := ht_height s + 1\<rparr>, w2), Inr (Some b)))"
      unfolding n by (subst (1) bindM_def, unfold r1 Inr) (simp add: bindM_def getM_def ret_def modifyM_def s1 f split: sum.split)
    then show ?thesis using False s1 g by (auto simp: not_less split: sum.split)
  qed
qed

end
