(* ===== verification/Accel.thy ===== *)
theory Accel
  imports Attest "HOL-Library.Multiset"
begin

text \<open>
  \<^verbatim>\<open>accel\<close>: batch verification of signatures. The reference verifier, the CPU backend that
  splits a batch over goroutines, the batching gate, and the self-test of a backend. The check of one
  signature is the argument \<open>vf\<close> (the program passes \<open>ecdsa_Verify\<close>); \<open>Inl\<close> is a panic of it. Goroutines
  are sequences of writes, and a run of several is any interleaving of their sequences.
\<close>

section \<open>The reference verifier\<close>

record VRequest =
  rq_Pub :: "PublicKey option"
  rq_Hash :: bytes
  rq_Sig :: "Signature option"

definition reference :: "sig_verify \<Rightarrow> VRequest \<Rightarrow> go_error + bool" where
  "reference vf r =
     (if rq_Sig r = None \<or> \<not> IsLowS (rq_Sig r) then Inr False
      else vf (rq_Pub r) (rq_Hash r) (rq_Sig r))"

text \<open>One iteration of every verification loop: \<^verbatim>\<open>out[i] = reference(reqs[i])\<close>.\<close>

definition verify_at :: "sig_verify \<Rightarrow> VRequest list \<Rightarrow> nat \<Rightarrow> (bool list, unit) gom" where
  "verify_at vf reqs i out =
     (if length reqs \<le> i then (out, Inl PanicIndex)
      else case reference vf (reqs ! i) of Inl e \<Rightarrow> (out, Inl e)
           | Inr ok \<Rightarrow> if length out \<le> i then (out, Inl PanicIndex) else (out[i := ok], Inr ()))"

definition Reference_VerifyBatch :: "sig_verify \<Rightarrow> VRequest list \<Rightarrow> (bool list, unit) gom" where
  "Reference_VerifyBatch vf reqs = forM [0..<length reqs] (verify_at vf reqs)"

section \<open>The CPU backend\<close>

text \<open>The loop that cuts \<open>[start, n)\<close> into chunks, one for each worker.\<close>

function chunks :: "nat \<Rightarrow> nat \<Rightarrow> nat \<Rightarrow> (nat \<times> nat) list" where
  "chunks chunk n start =
     (if n \<le> start \<or> chunk = 0 then []
      else (start, if n < start + chunk then n else start + chunk) # chunks chunk n (start + chunk))"
  by pat_completeness auto
termination
  by (relation "measure (\<lambda>(chunk, n, start). n - start)") auto

declare chunks.simps [simp del]

text \<open>The indices every worker writes, in order: one list for each goroutine.\<close>

definition cpu_workers :: "int \<Rightarrow> nat \<Rightarrow> nat \<Rightarrow> nat list list" where
  "cpu_workers workers numCPU n =
     (let w = (if workers \<le> 0 then int numCPU else workers);
          w = (if int n < w then int n else w)
      in if w \<le> 1 then [[0..<n]]
         else map (\<lambda>(lo, hi). [lo..<hi]) (chunks (nat ((int n + w - 1) div w)) n 0))"

text \<open>An interleaving takes the next element of some list until all are empty.\<close>

inductive interleaving :: "'a list list \<Rightarrow> 'a list \<Rightarrow> bool" where
  finished: "\<forall>xs \<in> set xss. xs = [] \<Longrightarrow> interleaving xss []"
| step: "i < length xss \<Longrightarrow> xss ! i = x # xs \<Longrightarrow> interleaving (xss[i := xs]) ys \<Longrightarrow> interleaving xss (x # ys)"

text \<open>A run of the backend along an interleaving \<open>order\<close> of its workers; a panic ends the program.\<close>

definition CPU_VerifyBatch :: "sig_verify \<Rightarrow> VRequest list \<Rightarrow> nat list \<Rightarrow> (bool list, unit) gom" where
  "CPU_VerifyBatch vf reqs order = forM order (verify_at vf reqs)"

section \<open>The gate\<close>

text \<open>
  A request carries the number of its caller's result channel. \<open>ga_running\<close> holds the batches that
  have been taken and not yet flushed, \<open>ga_timer\<close> says that a timer is set, \<open>ga_expired\<close> that this timer
  has expired, \<open>ga_fired\<close> counts the timer callbacks that wait for the lock (stopping an expired timer does not
  stop its callback), \<open>ga_results\<close> what the channels have received.
\<close>

record Gate =
  ga_maxBatch :: nat
  ga_pending :: "(VRequest \<times> nat) list"
  ga_timer :: bool
  ga_expired :: bool
  ga_fired :: nat
  ga_running :: "(VRequest \<times> nat) list list"
  ga_next :: nat
  ga_results :: "nat \<rightharpoonup> bool"

definition NewGate :: "int \<Rightarrow> Gate" where
  "NewGate maxBatch =
     \<lparr>ga_maxBatch = nat (if maxBatch < 1 then 1 else maxBatch), ga_pending = [], ga_timer = False, ga_expired = False, ga_fired = 0,
      ga_running = [], ga_next = 0, ga_results = Map.empty\<rparr>"

definition takeLocked :: "Gate \<Rightarrow> Gate \<times> (VRequest \<times> nat) list" where
  "takeLocked g = (g\<lparr>ga_pending := [], ga_timer := False, ga_expired := False\<rparr>, ga_pending g)"

text \<open>The critical section of \<open>Submit\<close>; a batch it takes is flushed afterwards, outside the lock.\<close>

definition Submit :: "VRequest \<Rightarrow> Gate \<Rightarrow> Gate" where
  "Submit req g =
     (let g = g\<lparr>ga_pending := ga_pending g @ [(req, ga_next g)], ga_next := ga_next g + 1\<rparr>
      in if ga_maxBatch g \<le> length (ga_pending g)
         then (case takeLocked g of (g, batch) \<Rightarrow> g\<lparr>ga_running := ga_running g @ [batch]\<rparr>)
         else if \<not> ga_timer g then g\<lparr>ga_timer := True\<rparr> else g)"

definition onTimer :: "Gate \<Rightarrow> Gate" where
  "onTimer g =
     (case takeLocked g of (g, batch) \<Rightarrow>
        if 0 < length batch then g\<lparr>ga_running := ga_running g @ [batch]\<rparr> else g)"

text \<open>\<open>verifyBatch\<close> is the backend: it gives one answer for each request of a batch.\<close>

definition flush :: "(VRequest list \<Rightarrow> bool list) \<Rightarrow> (VRequest \<times> nat) list \<Rightarrow> Gate \<Rightarrow> Gate" where
  "flush verifyBatch batch g =
     g\<lparr>ga_results := ga_results g ++ map_of (zip (map snd batch) (verifyBatch (map fst batch)))\<rparr>"

text \<open>
  What happens in a gate between submissions: its timer expires, a callback gets the lock, a batch is
  flushed. A run is any sequence of these and of submissions; its history is the list of requests submitted.
\<close>

inductive gate_internal :: "(VRequest list \<Rightarrow> bool list) \<Rightarrow> Gate \<Rightarrow> Gate \<Rightarrow> bool" for vb where
  expire: "ga_timer g \<Longrightarrow> \<not> ga_expired g \<Longrightarrow> gate_internal vb g (g\<lparr>ga_expired := True, ga_fired := ga_fired g + 1\<rparr>)"
| callback: "0 < ga_fired g \<Longrightarrow> gate_internal vb g (onTimer (g\<lparr>ga_fired := ga_fired g - 1\<rparr>))"
| flush: "ga_running g = bs @ b # bs' \<Longrightarrow> gate_internal vb g (flush vb b (g\<lparr>ga_running := bs @ bs'\<rparr>))"

inductive gate_run :: "(VRequest list \<Rightarrow> bool list) \<Rightarrow> int \<Rightarrow> VRequest list \<Rightarrow> Gate \<Rightarrow> bool" for vb mb where
  new: "gate_run vb mb [] (NewGate mb)"
| submit: "gate_run vb mb rs g \<Longrightarrow> gate_run vb mb (rs @ [r]) (Submit r g)"
| internal: "gate_run vb mb rs g \<Longrightarrow> gate_internal vb g g' \<Longrightarrow> gate_run vb mb rs g'"

section \<open>The self-test of a backend\<close>

text \<open>The \<open>i\<close>-th test case and its expected verdict; \<open>None\<close> when the search for a nonce does not end.\<close>

definition test_case :: "sig_verify \<Rightarrow> nat \<Rightarrow> (go_error + VRequest \<times> bool) option" where
  "test_case vf i =
     (let seed = DoubleSHA256 [of_nat i, of_nat (i div 2 ^ 8), of_nat (i div 2 ^ 16), 0x5a];
          priv = NewPrivateKey (slice seed);
          msg = slice (DoubleSHA256 [of_nat i, 0xa5])
      in map_option (\<lambda>r.
           let sig = (case r of Inl _ \<Rightarrow> None | Inr s \<Rightarrow> Some s);
               req = \<lparr>rq_Pub = Some (Public priv), rq_Hash = msg, rq_Sig = sig\<rparr>
           in if i mod 4 = 0 then Inr (req, True)
              else if i mod 4 = 1 then
                Inr (req\<lparr>rq_Pub := Some (Public (NewPrivateKey (slice (DoubleSHA256 [of_nat i, 0xff]))))\<rparr>, False)
              else if i mod 4 = 2 then Inr (req\<lparr>rq_Hash := slice (DoubleSHA256 [of_nat i, 0x01])\<rparr>, False)
              else case sig of None \<Rightarrow> Inl PanicNil
                   | Some s \<Rightarrow>
                       (case Serialize s of Inl e \<Rightarrow> Inl e
                        | Inr b \<Rightarrow>
                            (case Malleate b of
                               Inl _ \<Rightarrow> Inr (req, True)
                             | Inr mall \<Rightarrow>
                                 let hs = (case ParseSignature mall of Inl _ \<Rightarrow> None | Inr x \<Rightarrow> Some x);
                                     req = req\<lparr>rq_Sig := hs\<rparr>
                                 in if \<not> IsLowS hs then Inr (req, False)
                                    else map_sum id (Pair req) (vf (Some (Public priv)) msg hs))))
         (Sign (Some priv) msg))"

fun collect :: "(go_error + 'a) option list \<Rightarrow> (go_error + 'a list) option" where
  "collect [] = Some (Inr [])"
| "collect (x # xs) =
     (case x of None \<Rightarrow> None | Some (Inl e) \<Rightarrow> Some (Inl e)
      | Some (Inr y) \<Rightarrow> map_option (map_sum id (Cons y)) (collect xs))"

definition testVectors :: "sig_verify \<Rightarrow> nat \<Rightarrow> (go_error + (VRequest \<times> bool) list) option" where
  "testVectors vf n = collect (map (test_case vf) [0..<n])"

text \<open>The comparison loop of \<open>Validate\<close>: the first index on which the backend disagrees.\<close>

definition disagreement :: "bool list \<Rightarrow> bool list \<Rightarrow> nat option" where
  "disagreement got want = find (\<lambda>i. got ! i \<noteq> want ! i) [0..<length want]"

abbreviation "ErrMismatch \<equiv> ErrBackend 6"

definition Validate :: "sig_verify \<Rightarrow> (VRequest list \<Rightarrow> bool list) \<Rightarrow> int \<Rightarrow> go_error option option" where
  "Validate vf verifyBatch n =
     map_option (\<lambda>r. case r of Inl e \<Rightarrow> Some e
       | Inr cases \<Rightarrow>
           (case disagreement (verifyBatch (map fst cases)) (map snd cases) of
              None \<Rightarrow> None | Some _ \<Rightarrow> Some ErrMismatch))
       (testVectors vf (nat (if n < 8 then 8 else n)))"

section \<open>The CPU backend computes the reference\<close>

lemma chunks_concat: "0 < c \<Longrightarrow> concat (map (\<lambda>(lo, hi). [lo..<hi]) (chunks c n s)) = [s..<n]"
proof (induction c n s rule: chunks.induct)
  case (1 c n s)
  show ?case
  proof (cases "n \<le> s")
    case True
    then show ?thesis by (simp add: chunks.simps)
  next
    case False
    with 1 have ih: "concat (map (\<lambda>(lo, hi). [lo..<hi]) (chunks c n (s + c))) = [s + c..<n]" by simp
    show ?thesis
    proof (cases "n < s + c")
      case True
      then show ?thesis using False 1 ih by (subst chunks.simps) simp
    next
      case F: False
      then have "[s..<n] = [s..<s + c] @ [s + c..<n]" using upt_add_eq_append [of s "s + c" "n - (s + c)"] by simp
      then show ?thesis using False F 1 ih by (subst chunks.simps) simp
    qed
  qed
qed

lemma cpu_workers_concat: "concat (cpu_workers workers numCPU n) = [0..<n]"
proof -
  have "0 < nat ((int n + w - 1) div w)" if "1 < w" "w \<le> int n" for w
  proof -
    have "1 * w \<le> int n + w - 1" using that by simp
    then have "1 \<le> (int n + w - 1) div w" using that by (simp add: pos_imp_zdiv_pos_iff int_one_le_iff_zero_less)
    then show ?thesis by simp
  qed
  then show ?thesis by (auto simp: cpu_workers_def Let_def chunks_concat)
qed

lemma concat_update: "i < length xss \<Longrightarrow> xss ! i = x # xs \<Longrightarrow> mset (concat xss) = add_mset x (mset (concat (xss[i := xs])))"
proof (induction xss arbitrary: i)
  case (Cons ys xss)
  then show ?case by (cases i) auto
qed simp

lemma interleaving_mset: "interleaving xss ys \<Longrightarrow> mset ys = mset (concat xss)"
proof (induction rule: interleaving.induct)
  case (finished xss)
  then show ?case by (induction xss) auto
qed (simp add: concat_update)

lemma interleaving_set: "interleaving xss ys \<Longrightarrow> set ys = set (concat xss)"
  using interleaving_mset mset_eq_setD by blast

definition faulty :: "sig_verify \<Rightarrow> VRequest list \<Rightarrow> nat \<Rightarrow> nat \<Rightarrow> bool" where
  "faulty vf reqs len i = (length reqs \<le> i \<or> isl (reference vf (reqs ! i)) \<or> len \<le> i)"

lemma verify_at_cases:
  "verify_at vf reqs i out = (if faulty vf reqs (length out) i then (out, snd (verify_at vf reqs i out))
     else (out[i := projr (reference vf (reqs ! i))], Inr ()))"
  "faulty vf reqs (length out) i \<longleftrightarrow> isl (snd (verify_at vf reqs i out))"
  by (auto simp: verify_at_def faulty_def split: sum.splits)

definition written :: "sig_verify \<Rightarrow> VRequest list \<Rightarrow> nat list \<Rightarrow> bool list \<Rightarrow> bool list" where
  "written vf reqs order out =
     map (\<lambda>j. if j \<in> set order then projr (reference vf (reqs ! j)) else out ! j) [0..<length out]"

lemma written_step: "written vf reqs order (out[i := projr (reference vf (reqs ! i))]) = written vf reqs (i # order) out"
  unfolding written_def length_list_update by (rule map_cong) (auto simp: nth_list_update)

lemma forM_verify:
  "case forM order (verify_at vf reqs) out of (out', r) \<Rightarrow>
     if list_ex (faulty vf reqs (length out)) order then isl r else r = Inr () \<and> out' = written vf reqs order out"
proof (induction order arbitrary: out)
  case Nil
  then show ?case by (simp add: ret_def map_nth written_def)
next
  case (Cons i order)
  note vc = verify_at_cases [where vf = vf and reqs = reqs and i = i and out = out]
  show ?case
  proof (cases "faulty vf reqs (length out) i")
    case True
    then obtain e where "verify_at vf reqs i out = (out, Inl e)"
      using vc by (cases "verify_at vf reqs i out") (auto simp: isl_def)
    then show ?thesis using True by (simp add: bindM_def)
  next
    case False
    then have v: "verify_at vf reqs i out = (out[i := projr (reference vf (reqs ! i))], Inr ())" using vc by simp
    then show ?thesis
      using Cons.IH [of "out[i := projr (reference vf (reqs ! i))]"] False
      by (auto simp: bindM_def v written_step split: prod.splits if_splits)
  qed
qed

lemma unit_sum: "\<not> isl r \<Longrightarrow> r = Inr ()"
  by (cases r) auto

text \<open>
  C23. The parallel backend is the reference, whatever the scheduler does: the chunks cover every index of
  the batch once, so for every number of workers and every interleaving of their goroutines the
  backend leaves exactly the output of the serial reference verifier, and it panics exactly when that does.
\<close>

theorem cpu_batch_is_reference:
  assumes "interleaving (cpu_workers workers numCPU (length reqs)) order"
  shows "case Reference_VerifyBatch vf reqs out of (out', r) \<Rightarrow>
    (case CPU_VerifyBatch vf reqs order out of (out'', r') \<Rightarrow> isl r' = isl r \<and> (if isl r then True else out'' = out'))"
proof -
  have "set order = set [0..<length reqs]" using interleaving_set [OF assms] by (simp add: cpu_workers_concat)
  then have "list_ex P order = list_ex P [0..<length reqs]" for P by (simp add: list_ex_iff)
  moreover have "written vf reqs order out = written vf reqs [0..<length reqs] out"
    using \<open>set order = set [0..<length reqs]\<close> by (simp add: written_def)
  ultimately show ?thesis
    using forM_verify [where order = order and vf = vf and reqs = reqs and out = out]
      forM_verify [where order = "[0..<length reqs]" and vf = vf and reqs = reqs and out = out]
    by (auto simp: Reference_VerifyBatch_def CPU_VerifyBatch_def split: prod.splits if_splits)
qed

definition ex_vreq :: "int \<Rightarrow> VRequest" where
  "ex_vreq s = \<lparr>rq_Pub = Some ex_key, rq_Hash = [], rq_Sig = Some \<lparr>sig_R = 1, sig_S = s\<rparr>\<rparr>"

theorem cpu_batch_is_reference_witness:
  "CPU_VerifyBatch accept_sig [ex_vreq 1, ex_vreq curveN, ex_vreq 1] [2, 0, 1] [False, True, False] = ([True, False, True], Inr ())"
proof -
  let ?rs = "[ex_vreq 1, ex_vreq curveN, ex_vreq 1]" and ?o = "[False, True, False]"
  have c: "chunks 2 (Suc (Suc (Suc 0))) 0 = [(0, 2), (2, 3)]" by (simp add: chunks.simps)
  have "interleaving (cpu_workers 2 8 (length ?rs)) [2, 0, 1]"
  proof -
    have w: "cpu_workers 2 8 (length ?rs) = [[0, 1], [2]]" by (simp add: cpu_workers_def c upt_rec)
    have "interleaving [[], []] ([] :: nat list)" by (rule finished) simp
    then have "interleaving [[1], []] [1 :: nat]" using step [of 0 "[[1 :: nat], []]" 1 "[]" "[]"] by simp
    then have "interleaving [[0, 1], []] [0, 1 :: nat]" using step [of 0 "[[0 :: nat, 1], []]" 0 "[1]" "[1]"] by simp
    then show ?thesis unfolding w using step [of 1 "[[0 :: nat, 1], [2]]" 2 "[]" "[0, 1]"] by simp
  qed
  note t = cpu_batch_is_reference [OF this, of accept_sig ?o]
  have "reference accept_sig (ex_vreq 1) = Inr True" "reference accept_sig (ex_vreq curveN) = Inr False"
    by (simp_all add: reference_def ex_vreq_def IsLowS_def nHalf_def curveN_def drop_bit_eq_div)
  then have "Reference_VerifyBatch accept_sig ?rs ?o = ([True, False, True], Inr ())"
    by (simp add: Reference_VerifyBatch_def verify_at_def bindM_def ret_def upt_rec)
  with t show ?thesis by (auto split: prod.splits intro: unit_sum)
qed

section \<open>The gate answers every request\<close>

text \<open>
  The books: every submitted request is either open (pending, or in a batch being flushed), once, or
  answered with the verdict on that request.
\<close>

definition books :: "('r \<Rightarrow> bool) \<Rightarrow> 'r list \<Rightarrow> ('r \<times> nat) list \<Rightarrow> (nat \<rightharpoonup> bool) \<Rightarrow> bool" where
  "books ok rs xs res \<longleftrightarrow>
     distinct (map snd xs) \<and> snd ` set xs \<inter> dom res = {} \<and> snd ` set xs \<union> dom res = {..<length rs} \<and>
     (\<forall>x \<in> set xs. rs ! snd x = fst x) \<and> (\<forall>t \<in> dom res. res t = Some (ok (rs ! t)))"

lemma books_mset:
  assumes "mset xs = mset ys" and "books ok rs xs res"
  shows "books ok rs ys res"
proof -
  have "set xs = set ys" using assms(1) by (rule mset_eq_setD)
  moreover have "mset (map snd xs) = mset (map snd ys)" using assms(1) by simp
  then have "distinct (map snd xs) \<longleftrightarrow> distinct (map snd ys)" by (rule mset_eq_imp_distinct_iff)
  ultimately show ?thesis using assms(2) by (simp add: books_def)
qed

lemma books_lt: "books ok rs xs res \<Longrightarrow> x \<in> set xs \<Longrightarrow> snd x < length rs"
  unfolding books_def by blast

lemma books_result:
  assumes "books ok rs xs res" and "t \<in> dom res"
  shows "t < length rs \<and> res t = Some (ok (rs ! t))"
  using assms unfolding books_def by blast

lemma books_add:
  assumes "books ok rs xs res"
  shows "books ok (rs @ [r]) ((r, length rs) # xs) res"
proof -
  have lt: "snd x < length rs" if "x \<in> set xs" for x using books_lt [OF assms that] .
  have rt: "t < length rs" if "t \<in> dom res" for t using assms that unfolding books_def by blast
  have "length rs \<notin> snd ` set xs" using lt by fastforce
  moreover have "length rs \<notin> dom res" using rt by blast
  moreover have "\<forall>x \<in> set xs. (rs @ [r]) ! snd x = fst x" using assms lt by (simp add: books_def nth_append)
  moreover have "\<forall>t \<in> dom res. res t = Some (ok ((rs @ [r]) ! t))" using assms rt by (simp add: books_def nth_append)
  moreover have "insert (length rs) (snd ` set xs) \<union> dom res = {..<length (rs @ [r])}"
    using assms by (simp add: books_def lessThan_Suc)
  ultimately show ?thesis using assms by (simp add: books_def)
qed

lemma books_flush:
  assumes "books ok rs (b @ xs) res"
  shows "books ok rs xs (res ++ map_of (map (\<lambda>(r, t). (t, ok r)) b))"
proof -
  let ?l = "map (\<lambda>(r, t). (t, ok r)) b"
  let ?m = "map_of ?l"
  have fst: "map fst ?l = map snd b" by (induction b) auto
  then have "fst ` set ?l = snd ` set b" by (metis list.set_map)
  then have dm: "dom ?m = snd ` set b" by (simp only: dom_map_of_conv_image_fst)
  have d: "distinct (map snd b)" "snd ` set b \<inter> snd ` set xs = {}" "distinct (map snd xs)"
    and u: "snd ` set b \<union> snd ` set xs \<union> dom res = {..<length rs}" "(snd ` set b \<union> snd ` set xs) \<inter> dom res = {}"
    and rs: "\<forall>x \<in> set b \<union> set xs. rs ! snd x = fst x" and res: "\<forall>t \<in> dom res. res t = Some (ok (rs ! t))"
    using assms by (simp_all add: books_def image_Un)
  have m: "?m t = Some (ok (rs ! t))" if t: "t \<in> snd ` set b" for t
  proof -
    from t obtain r where r: "(r, t) \<in> set b" by (metis imageE prod.collapse)
    then have "(t, ok r) \<in> set ?l" by (auto intro!: image_eqI [of _ _ "(r, t)"])
    moreover have "distinct (map fst ?l)" unfolding fst by (rule d(1))
    ultimately have "?m t = Some (ok r)" by (rule map_of_is_SomeI [rotated])
    moreover have "rs ! t = r" using rs r by (metis UnI1 fst_conv snd_conv)
    ultimately show ?thesis by simp
  qed
  have all: "(res ++ ?m) t = Some (ok (rs ! t))" if "t \<in> snd ` set b \<union> dom res" for t
  proof (cases "t \<in> snd ` set b")
    case True
    then show ?thesis using m by (simp add: map_add_Some_iff)
  next
    case False
    then have "?m t = None" using dm by (metis domIff)
    then show ?thesis using False that res by (simp add: map_add_def)
  qed
  have dom: "dom (res ++ ?m) = snd ` set b \<union> dom res" using dm by simp
  have "snd ` set xs \<inter> (snd ` set b \<union> dom res) = {}" using d(2) u(2) by blast
  moreover have "snd ` set xs \<union> (snd ` set b \<union> dom res) = {..<length rs}" using u(1) by blast
  ultimately show ?thesis unfolding books_def dom using d(3) rs all by blast
qed

definition gate_open :: "Gate \<Rightarrow> (VRequest \<times> nat) list" where
  "gate_open g = ga_pending g @ concat (ga_running g)"

text \<open>
  The schedule: batches are within the limit, and while something is pending a timer is set that has not
  expired, or a callback is waiting.
\<close>

definition schedule :: "Gate \<Rightarrow> bool" where
  "schedule g \<longleftrightarrow>
     length (ga_pending g) < ga_maxBatch g \<and> (\<forall>b \<in> set (ga_running g). length b \<le> ga_maxBatch g) \<and>
     (ga_pending g \<noteq> [] \<longrightarrow> ga_timer g) \<and> (ga_expired g \<longrightarrow> ga_timer g \<and> 0 < ga_fired g)"

definition gate_inv :: "(VRequest \<Rightarrow> bool) \<Rightarrow> VRequest list \<Rightarrow> Gate \<Rightarrow> bool" where
  "gate_inv ok rs g \<longleftrightarrow> ga_next g = length rs \<and> books ok rs (gate_open g) (ga_results g) \<and> schedule g"

lemma flush_results:
  assumes "\<And>reqs. vb reqs = map ok reqs"
  shows "ga_results (Accel.flush vb b g) = ga_results g ++ map_of (map (\<lambda>(r, t). (t, ok r)) b)"
proof -
  have "zip (map snd b) (map ok (map fst b)) = map (\<lambda>(r, t). (t, ok r)) b" by (induction b) auto
  then show ?thesis by (simp add: Accel.flush_def assms)
qed

lemma Submit_open: "mset (gate_open (Submit r g)) = mset ((r, ga_next g) # gate_open g)"
  by (simp add: Submit_def takeLocked_def gate_open_def Let_def)

lemma Submit_schedule: "schedule g \<Longrightarrow> schedule (Submit r g)"
  by (auto simp: schedule_def Submit_def takeLocked_def Let_def)

lemma gate_inv_submit:
  assumes "gate_inv ok rs g"
  shows "gate_inv ok (rs @ [r]) (Submit r g)"
proof -
  have n: "ga_next g = length rs" and b: "books ok rs (gate_open g) (ga_results g)" and s: "schedule g"
    using assms by (simp_all add: gate_inv_def)
  have "books ok (rs @ [r]) (gate_open (Submit r g)) (ga_results g)"
    by (rule books_mset [OF _ books_add [OF b, of r]]) (simp only: Submit_open n)
  moreover have "ga_results (Submit r g) = ga_results g" "ga_next (Submit r g) = length (rs @ [r])"
    by (simp_all add: Submit_def takeLocked_def Let_def n)
  ultimately show ?thesis using Submit_schedule [OF s] by (simp add: gate_inv_def)
qed

lemma gate_inv_internal:
  assumes "gate_inv ok rs g" and "gate_internal vb g g'" and ok: "\<And>reqs. vb reqs = map ok reqs"
  shows "gate_inv ok rs g'"
  using assms(2)
proof cases
  case expire
  then show ?thesis using assms(1) by (auto simp: gate_inv_def gate_open_def schedule_def)
next
  case callback
  have "mset (gate_open g) = mset (gate_open g')" by (simp add: callback(1) onTimer_def takeLocked_def gate_open_def)
  from books_mset [OF this] have "books ok rs (gate_open g') (ga_results g)" using assms(1) by (simp add: gate_inv_def)
  moreover have "ga_results g' = ga_results g" "ga_next g' = ga_next g" by (simp_all add: callback(1) onTimer_def takeLocked_def)
  moreover have "schedule g'" using assms(1) by (auto simp: callback(1) gate_inv_def schedule_def onTimer_def takeLocked_def)
  ultimately show ?thesis using assms(1) by (simp add: gate_inv_def)
next
  case (flush bs b bs')
  have fr: "ga_pending g' = ga_pending g" "ga_running g' = bs @ bs'" "ga_next g' = ga_next g"
    by (simp_all add: flush(1) Accel.flush_def schedule_def)
  have r: "ga_results g' = ga_results g ++ map_of (map (\<lambda>(r, t). (t, ok r)) b)" by (simp add: flush(1) flush_results [of vb ok, OF ok])
  have "mset (gate_open g) = mset (b @ gate_open g')" by (simp add: gate_open_def fr flush(2))
  from books_mset [OF this] have "books ok rs (b @ gate_open g') (ga_results g)" using assms(1) by (simp add: gate_inv_def)
  then have "books ok rs (gate_open g') (ga_results g')" unfolding r by (rule books_flush)
  moreover have "schedule g'" using assms(1) by (simp add: flush Accel.flush_def gate_inv_def schedule_def)
  ultimately show ?thesis using assms(1) by (simp add: gate_inv_def fr)
qed

lemma gate_run_inv:
  assumes "gate_run vb mb rs g" and "\<And>reqs. vb reqs = map ok reqs"
  shows "gate_inv ok rs g"
  using assms(1)
proof induction
  case new
  then show ?case by (simp add: gate_inv_def books_def schedule_def NewGate_def gate_open_def)
next
  case (submit rs g r)
  then show ?case by (simp add: gate_inv_submit)
next
  case (internal rs g g')
  then show ?case by (blast intro: gate_inv_internal assms(2))
qed

text \<open>The work left before a gate is quiet, if nothing more is submitted.\<close>

definition gate_work :: "Gate \<Rightarrow> nat" where
  "gate_work g = (if ga_timer g \<and> \<not> ga_expired g then 3 else 0) + 2 * ga_fired g + length (ga_running g)"

lemma gate_work_decreases: "gate_internal vb g g' \<Longrightarrow> gate_work g' < gate_work g"
  by (cases rule: gate_internal.cases) (auto simp: gate_work_def onTimer_def takeLocked_def Accel.flush_def)

text \<open>
  C13. The gate loses nothing and mixes nothing up. Over any backend that answers a batch pointwise, in every
  run, however submissions, timer callbacks and flushes interleave: a channel receives only the verdict
  on its own request; batches stay within the limit; every internal step reduces a
  count of the work left, so without new submissions the gate comes to rest after finitely many steps; and
  when no step is left, every request has been answered.
\<close>

theorem gate_answers_all:
  assumes "gate_run vb mb rs g" and "\<And>reqs. vb reqs = map ok reqs"
  shows "(\<forall>t b. ga_results g t = Some b \<longrightarrow> t < length rs \<and> b = ok (rs ! t)) \<and>
    (\<forall>b \<in> set (ga_running g). length b \<le> ga_maxBatch g) \<and>
    (\<forall>g'. gate_internal vb g g' \<longrightarrow> gate_work g' < gate_work g) \<and>
    ((\<nexists>g'. gate_internal vb g g') \<longrightarrow> (\<forall>t < length rs. ga_results g t = Some (ok (rs ! t))))"
proof -
  have inv: "books ok rs (gate_open g) (ga_results g)" "schedule g" using gate_run_inv [OF assms] by (simp_all add: gate_inv_def)
  have "ga_results g t = Some (ok (rs ! t))" if quiet: "\<nexists>g'. gate_internal vb g g'" and t: "t < length rs" for t
  proof -
    have "ga_fired g = 0" using quiet gate_internal.callback [of g vb] by (meson neq0_conv)
    moreover have "ga_running g = []" using quiet gate_internal.flush [of g "[]" _ _ vb] by (metis append_Nil neq_Nil_conv)
    moreover have "ga_timer g \<longrightarrow> ga_expired g" using quiet gate_internal.expire [of g vb] by meson
    ultimately have "gate_open g = []" using inv(2) unfolding schedule_def gate_open_def by (metis append_Nil concat.simps(1) less_irrefl)
    then have "dom (ga_results g) = {..<length rs}" using inv(1) by (simp add: books_def)
    then show ?thesis using books_result [OF inv(1)] t by blast
  qed
  moreover have "t < length rs \<and> b = ok (rs ! t)" if "ga_results g t = Some b" for t b
    using books_result [OF inv(1)] that by (metis domI option.inject)
  moreover have "\<forall>b \<in> set (ga_running g). length b \<le> ga_maxBatch g" using inv(2) by (simp add: schedule_def)
  ultimately show ?thesis using gate_work_decreases by blast
qed

theorem gate_answers_all_witness:
  "let rs = [ex_vreq 1, ex_vreq curveN]; ok = (\<lambda>r. reference accept_sig r = Inr True);
       g = Submit (ex_vreq curveN) (Submit (ex_vreq 1) (NewGate 2)); g' = Accel.flush (map ok) (hd (ga_running g)) (g\<lparr>ga_running := []\<rparr>)
   in gate_run (map ok) 2 rs g' \<and> ga_results g' 0 = Some True \<and> ga_results g' 1 = Some False"
proof -
  let ?ok = "\<lambda>r. reference accept_sig r = Inr True"
  let ?g = "Submit (ex_vreq curveN) (Submit (ex_vreq 1) (NewGate 2))"
  let ?b = "[(ex_vreq 1, 0), (ex_vreq curveN, 1)]"
  let ?g' = "Accel.flush (map ?ok) ?b (?g\<lparr>ga_running := []\<rparr>)"
  have r: "ga_running ?g = [?b]" and q: "\<not> ga_timer ?g" "ga_fired ?g = 0"
    by (simp_all add: Submit_def NewGate_def takeLocked_def Let_def)
  have "gate_run (map ?ok) 2 ([] @ [ex_vreq 1] @ [ex_vreq curveN]) ?g"
    using gate_run.new [of "map ?ok" 2] by (metis append.assoc gate_run.submit)
  then have run: "gate_run (map ?ok) 2 [ex_vreq 1, ex_vreq curveN] ?g'"
    using gate_run.internal gate_internal.flush [of ?g "[]" ?b "[]" "map ?ok"] r by fastforce
  have "\<nexists>g'. gate_internal (map ?ok) ?g' g'"
    using q by (auto elim!: gate_internal.cases simp: Accel.flush_def)
  then have "\<forall>t < length [ex_vreq 1, ex_vreq curveN]. ga_results ?g' t = Some (?ok ([ex_vreq 1, ex_vreq curveN] ! t))"
    using gate_answers_all [OF run, of ?ok] by blast
  moreover have "reference accept_sig (ex_vreq 1) = Inr True" "reference accept_sig (ex_vreq curveN) = Inr False"
    by (simp_all add: reference_def ex_vreq_def IsLowS_def nHalf_def curveN_def drop_bit_eq_div)
  ultimately show ?thesis using run by (simp add: Let_def r)
qed

end
