(* ===== verification/Aerospike.thy ===== *)
theory Aerospike
  imports Mem_Store
begin

text \<open>
  \<^verbatim>\<open>store/aerospike/aerospike.go\<close>: the store backend over an Aerospike cluster. The client library
  is not part of the program: it is the parameter \<open>AeroClient\<close>, a record of the operations the adapter
  calls, over an arbitrary state \<open>'w\<close> of the cluster and arbitrary keys \<open>'k\<close>. What the adapter relies on
  is the hypothesis \<open>client_ok\<close>: the client behaves as the record store \<open>cluster\<close>, whose operations are the
  documented ones (a write merges bins, a list append creates record and bin, a delete reports
  whether there was a record), with the answer to reading an absent record left open.
\<close>

section \<open>The client\<close>

text \<open>A bin value as the client returns it; \<open>VOther\<close> is any other dynamic type.\<close>

datatype Value = VInt int64 | VInt64 int64 | VBytes bytes | VList "Value list" | VOther

type_synonym BinMap = "(string, Value) fmap"

record ('w, 'k) AeroClient =
  ac_NewKey :: "string \<Rightarrow> string \<Rightarrow> bytes \<Rightarrow> go_error + 'k"
  ac_Put :: "'k \<Rightarrow> BinMap \<Rightarrow> ('w, unit) gom"
  ac_Get :: "'k \<Rightarrow> ('w, BinMap option) gom"
  ac_Delete :: "'k \<Rightarrow> ('w, bool) gom"
  ac_ListAppend :: "'k \<Rightarrow> string \<Rightarrow> Value \<Rightarrow> ('w, unit) gom"
  ac_ListRemoveByValue :: "'k \<Rightarrow> string \<Rightarrow> Value \<Rightarrow> ('w, unit) gom"

record ('w, 'k) AeroStore =
  as_client :: "('w, 'k) AeroClient"
  as_ns :: string

abbreviation "setTxIndex \<equiv> ''txindex''"
abbreviation "setUTXO \<equiv> ''utxo''"
abbreviation "setSubtree \<equiv> ''subtree''"
abbreviation "setBlock \<equiv> ''block''"
abbreviation "setHeader \<equiv> ''header''"
abbreviation "setSpentIdx \<equiv> ''spentidx''"
abbreviation "setHeightIdx \<equiv> ''heightidx''"

section \<open>Helpers\<close>

definition aero_key :: "('w, 'k) AeroStore \<Rightarrow> string \<Rightarrow> bytes \<Rightarrow> ('w, 'k) gom" where
  "aero_key st tbl k = liftE (ac_NewKey (as_client st) (as_ns st) tbl k)"

definition outpointKey :: "Outpoint \<Rightarrow> bytes" where
  "outpointKey op = slice (op_TxID op) @ be32 (op_Vout op)"

definition packHashes :: "hash list \<Rightarrow> bytes" where
  "packHashes hs = concat (map slice hs)"

definition unpackHashes :: "bytes \<Rightarrow> hash list" where
  "unpackHashes b = map (\<lambda>i. copy_from (drop (i * 32) b)) [0..<length b div 32]"

definition toInt :: "Value option \<Rightarrow> int64" where
  "toInt v = (case v of Some (VInt x) \<Rightarrow> x | Some (VInt64 x) \<Rightarrow> x | _ \<Rightarrow> 0)"

definition toInt64 :: "Value option \<Rightarrow> int64" where
  "toInt64 v = (case v of Some (VInt x) \<Rightarrow> x | Some (VInt64 x) \<Rightarrow> x | _ \<Rightarrow> 0)"

definition toBytes :: "Value option \<Rightarrow> bytes" where
  "toBytes v = (case v of Some (VBytes b) \<Rightarrow> b | _ \<Rightarrow> [])"

text \<open>The type assertion \<^verbatim>\<open>.([]interface{})\<close>; a failed one gives the nil slice.\<close>

definition toList :: "Value option \<Rightarrow> Value list" where
  "toList v = (case v of Some (VList l) \<Rightarrow> l | _ \<Rightarrow> [])"

section \<open>Transaction index\<close>

definition indexHeightTx :: "('w, 'k) AeroStore \<Rightarrow> uint32 \<Rightarrow> hash \<Rightarrow> ('w, unit) gom" where
  "indexHeightTx st height txid =
     bindM (aero_key st setHeightIdx (be32 height)) (\<lambda>k.
     ac_ListAppend (as_client st) k ''txids'' (VBytes (slice txid)))"

definition txindex_bins :: "TxIndex \<Rightarrow> BinMap" where
  "txindex_bins ix = fmap_of_list
     [(''mined'', VInt (if ti_Mined ix then 1 else 0)), (''bh'', VBytes (slice (ti_BlockHash ix))),
      (''ht'', VInt (ucast (ti_Height ix))), (''bt'', VInt (ucast (ti_BlockTime ix))),
      (''si'', VInt (ucast (ti_SubtreeIndex ix))), (''li'', VInt (ucast (ti_LeafIndex ix))),
      (''sn'', VInt64 (ti_SeenTime ix))]"

definition aero_PutTxIndex :: "('w, 'k) AeroStore \<Rightarrow> hash \<Rightarrow> TxIndex \<Rightarrow> ('w, unit) gom" where
  "aero_PutTxIndex st txid ix =
     bindM (aero_key st setTxIndex (slice txid)) (\<lambda>k.
     bindM (ac_Put (as_client st) k (txindex_bins ix)) (\<lambda>_.
     if ti_Mined ix then indexHeightTx st (ti_Height ix) txid else ret ()))"

definition read_txindex :: "BinMap \<Rightarrow> TxIndex" where
  "read_txindex bins =
     \<lparr>ti_Mined = (toInt (fmlookup bins ''mined'') = 1), ti_BlockHash = copy_from (toBytes (fmlookup bins ''bh'')),
      ti_Height = ucast (toInt (fmlookup bins ''ht'')), ti_BlockTime = ucast (toInt (fmlookup bins ''bt'')),
      ti_SubtreeIndex = ucast (toInt (fmlookup bins ''si'')), ti_LeafIndex = ucast (toInt (fmlookup bins ''li'')),
      ti_SeenTime = toInt64 (fmlookup bins ''sn'')\<rparr>"

definition aero_GetTxIndex :: "('w, 'k) AeroStore \<Rightarrow> hash \<Rightarrow> ('w, TxIndex option) gom" where
  "aero_GetTxIndex st txid =
     bindM (aero_key st setTxIndex (slice txid)) (\<lambda>k.
     bindM (ac_Get (as_client st) k) (\<lambda>rec. ret (map_option read_txindex rec)))"

section \<open>Outputs\<close>

text \<open>The index of spent outputs: one record for each height, with a list of outpoint keys.\<close>

definition aero_indexSpent :: "('w, 'k) AeroStore \<Rightarrow> Outpoint \<Rightarrow> uint32 \<Rightarrow> ('w, unit) gom" where
  "aero_indexSpent st op h =
     bindM (aero_key st setSpentIdx (be32 h)) (\<lambda>k. ac_ListAppend (as_client st) k ''ops'' (VBytes (outpointKey op)))"

definition aero_deindexSpent :: "('w, 'k) AeroStore \<Rightarrow> Outpoint \<Rightarrow> uint32 \<Rightarrow> ('w, unit) gom" where
  "aero_deindexSpent st op h =
     bindM (aero_key st setSpentIdx (be32 h)) (\<lambda>k.
     ac_ListRemoveByValue (as_client st) k ''ops'' (VBytes (outpointKey op)))"

definition utxo_bins :: "UTXO \<Rightarrow> BinMap" where
  "utxo_bins u = fmap_of_list
     [(''val'', VInt (u_Value u)), (''sh'', VBytes (slice (u_ScriptHash u))), (''sp'', VInt (if u_Spent u then 1 else 0)),
      (''spby'', VBytes (slice (u_SpentBy u))), (''spht'', VInt (ucast (u_SpentHeight u)))]"

definition aero_PutUTXO :: "('w, 'k) AeroStore \<Rightarrow> Outpoint \<Rightarrow> UTXO \<Rightarrow> ('w, unit) gom" where
  "aero_PutUTXO st op u =
     bindM (aero_key st setUTXO (outpointKey op)) (\<lambda>k.
     bindM (ac_Put (as_client st) k (utxo_bins u)) (\<lambda>_.
     if u_Spent u then aero_indexSpent st op (u_SpentHeight u) else ret ()))"

definition read_utxo :: "BinMap \<Rightarrow> UTXO" where
  "read_utxo bins =
     \<lparr>u_Value = toInt (fmlookup bins ''val''), u_ScriptHash = copy_from (toBytes (fmlookup bins ''sh'')),
      u_Spent = (toInt (fmlookup bins ''sp'') = 1), u_SpentBy = copy_from (toBytes (fmlookup bins ''spby'')),
      u_SpentHeight = ucast (toInt (fmlookup bins ''spht''))\<rparr>"

definition aero_GetUTXO :: "('w, 'k) AeroStore \<Rightarrow> Outpoint \<Rightarrow> ('w, UTXO option) gom" where
  "aero_GetUTXO st op =
     bindM (aero_key st setUTXO (outpointKey op)) (\<lambda>k.
     bindM (ac_Get (as_client st) k) (\<lambda>rec. ret (map_option read_utxo rec)))"

definition aero_SpendUTXO :: "('w, 'k) AeroStore \<Rightarrow> Outpoint \<Rightarrow> hash \<Rightarrow> uint32 \<Rightarrow> ('w, bool) gom" where
  "aero_SpendUTXO st op spentBy spentHeight =
     bindM (aero_GetUTXO st op) (\<lambda>r. case r of None \<Rightarrow> ret False
     | Some u \<Rightarrow>
         bindM (aero_PutUTXO st op (u\<lparr>u_Spent := True, u_SpentBy := spentBy, u_SpentHeight := spentHeight\<rparr>)) (\<lambda>_. ret True))"

definition aero_UnspendUTXO :: "('w, 'k) AeroStore \<Rightarrow> Outpoint \<Rightarrow> ('w, bool) gom" where
  "aero_UnspendUTXO st op =
     bindM (aero_GetUTXO st op) (\<lambda>r. case r of None \<Rightarrow> ret False
     | Some u \<Rightarrow>
         bindM (if u_Spent u then tryM (aero_deindexSpent st op (u_SpentHeight u)) else ret (Inr ())) (\<lambda>_.
         bindM (aero_PutUTXO st op (u\<lparr>u_Spent := False, u_SpentBy := copy_from [], u_SpentHeight := 0\<rparr>)) (\<lambda>_. ret True)))"

definition aero_DeleteUTXO :: "('w, 'k) AeroStore \<Rightarrow> Outpoint \<Rightarrow> ('w, bool) gom" where
  "aero_DeleteUTXO st op =
     bindM (aero_GetUTXO st op) (\<lambda>r.
     bindM (case r of None \<Rightarrow> ret (Inr ())
            | Some u \<Rightarrow> if u_Spent u then tryM (aero_deindexSpent st op (u_SpentHeight u)) else ret (Inr ())) (\<lambda>_.
     bindM (aero_key st setUTXO (outpointKey op)) (\<lambda>k. ac_Delete (as_client st) k)))"

definition aero_DeleteTxIndex :: "('w, 'k) AeroStore \<Rightarrow> hash \<Rightarrow> ('w, bool) gom" where
  "aero_DeleteTxIndex st txid =
     bindM (aero_key st setTxIndex (slice txid)) (\<lambda>k. ac_Delete (as_client st) k)"

text \<open>Delete a record and count it when it was there; a key that cannot be built is passed over.\<close>

definition aero_del :: "('w, 'k) AeroStore \<Rightarrow> string \<Rightarrow> bytes \<Rightarrow> nat \<Rightarrow> ('w, nat) gom" where
  "aero_del st tbl keyBytes n =
     (case ac_NewKey (as_client st) (as_ns st) tbl keyBytes of
        Inl _ \<Rightarrow> ret n
      | Inr dk \<Rightarrow> bindM (tryM (ac_Delete (as_client st) dk)) (\<lambda>r. ret (if r = Inr True then n + 1 else n)))"

fun aero_del_all :: "('w, 'k) AeroStore \<Rightarrow> string \<Rightarrow> bytes list \<Rightarrow> nat \<Rightarrow> ('w, nat) gom" where
  "aero_del_all st tbl [] n = ret n"
| "aero_del_all st tbl (k # ks) n = bindM (aero_del st tbl k n) (aero_del_all st tbl ks)"

definition aero_PruneSpentAtHeight :: "('w, 'k) AeroStore \<Rightarrow> uint32 \<Rightarrow> ('w, nat) gom" where
  "aero_PruneSpentAtHeight st h =
     bindM (aero_key st setSpentIdx (be32 h)) (\<lambda>k.
     bindM (ac_Get (as_client st) k) (\<lambda>rec. case rec of None \<Rightarrow> ret 0
     | Some bins \<Rightarrow>
         bindM (aero_del_all st setUTXO (map (\<lambda>v. toBytes (Some v)) (toList (fmlookup bins ''ops''))) 0) (\<lambda>n.
         bindM (tryM (ac_Delete (as_client st) k)) (\<lambda>_. ret n))))"

section \<open>Subtrees, blocks, headers\<close>

definition aero_PutSubtree :: "('w, 'k) AeroStore \<Rightarrow> hash \<Rightarrow> hash list \<Rightarrow> ('w, unit) gom" where
  "aero_PutSubtree st root leaves =
     bindM (aero_key st setSubtree (slice root)) (\<lambda>k.
     ac_Put (as_client st) k (fmap_of_list [(''leaves'', VBytes (packHashes leaves))]))"

definition read_subtree :: "BinMap \<Rightarrow> hash list" where
  "read_subtree bins = unpackHashes (toBytes (fmlookup bins ''leaves''))"

definition aero_GetSubtree :: "('w, 'k) AeroStore \<Rightarrow> hash \<Rightarrow> ('w, hash list option) gom" where
  "aero_GetSubtree st root =
     bindM (aero_key st setSubtree (slice root)) (\<lambda>k.
     bindM (ac_Get (as_client st) k) (\<lambda>rec. ret (map_option read_subtree rec)))"

definition indexHeightBlock :: "('w, 'k) AeroStore \<Rightarrow> BlockRec \<Rightarrow> ('w, unit) gom" where
  "indexHeightBlock st b =
     bindM (aero_key st setHeightIdx (be32 (br_Height b))) (\<lambda>k.
     ac_Put (as_client st) k
       (fmap_of_list [(''blk'', VBytes (slice (br_Hash b))), (''subs'', VBytes (packHashes (br_SubtreeRoots b)))]))"

definition block_bins :: "BlockRec \<Rightarrow> BinMap" where
  "block_bins b = fmap_of_list
     [(''ht'', VInt (ucast (br_Height b))), (''bt'', VInt (ucast (br_Time b))), (''mr'', VBytes (slice (br_MerkleRoot b))),
      (''sr'', VBytes (packHashes (br_SubtreeRoots b))), (''hdr'', VBytes (slice (br_Header b)))]"

definition aero_PutBlock :: "('w, 'k) AeroStore \<Rightarrow> BlockRec \<Rightarrow> ('w, unit) gom" where
  "aero_PutBlock st b =
     bindM (aero_key st setBlock (slice (br_Hash b))) (\<lambda>k.
     bindM (ac_Put (as_client st) k (block_bins b)) (\<lambda>_. indexHeightBlock st b))"

definition read_block :: "hash \<Rightarrow> BinMap \<Rightarrow> BlockRec" where
  "read_block hash bins =
     \<lparr>br_Hash = hash, br_Height = ucast (toInt (fmlookup bins ''ht'')), br_Time = ucast (toInt (fmlookup bins ''bt'')),
      br_MerkleRoot = copy_from (toBytes (fmlookup bins ''mr'')), br_SubtreeRoots = unpackHashes (toBytes (fmlookup bins ''sr'')),
      br_Header = copy_from (toBytes (fmlookup bins ''hdr''))\<rparr>"

definition aero_GetBlock :: "('w, 'k) AeroStore \<Rightarrow> hash \<Rightarrow> ('w, BlockRec option) gom" where
  "aero_GetBlock st hash =
     bindM (aero_key st setBlock (slice hash)) (\<lambda>k.
     bindM (ac_Get (as_client st) k) (\<lambda>rec. ret (map_option (read_block hash) rec)))"

definition aero_PutHeader :: "('w, 'k) AeroStore \<Rightarrow> uint32 \<Rightarrow> header \<Rightarrow> ('w, unit) gom" where
  "aero_PutHeader st height hdr =
     bindM (aero_key st setHeader (be32 height)) (\<lambda>k.
     ac_Put (as_client st) k (fmap_of_list [(''hdr'', VBytes (slice hdr))]))"

definition read_header :: "BinMap \<Rightarrow> header" where
  "read_header bins = copy_from (toBytes (fmlookup bins ''hdr''))"

definition aero_GetHeader :: "('w, 'k) AeroStore \<Rightarrow> uint32 \<Rightarrow> ('w, header option) gom" where
  "aero_GetHeader st height =
     bindM (aero_key st setHeader (be32 height)) (\<lambda>k.
     bindM (ac_Get (as_client st) k) (\<lambda>rec. ret (map_option read_header rec)))"

definition aero_PruneIndexAtHeight :: "('w, 'k) AeroStore \<Rightarrow> uint32 \<Rightarrow> ('w, nat) gom" where
  "aero_PruneIndexAtHeight st h =
     bindM (aero_key st setHeightIdx (be32 h)) (\<lambda>k.
     bindM (ac_Get (as_client st) k) (\<lambda>rec.
     bindM (case rec of None \<Rightarrow> ret 0
            | Some bins \<Rightarrow>
                (let blk = toBytes (fmlookup bins ''blk'')
                 in bindM (if length blk = 32 then aero_del st setBlock blk 0 else ret 0) (\<lambda>n.
                    bindM (aero_del_all st setSubtree (map slice (unpackHashes (toBytes (fmlookup bins ''subs'')))) n) (\<lambda>n.
                    aero_del_all st setTxIndex
                      (filter (\<lambda>tb. length tb = 32) (map (\<lambda>v. toBytes (Some v)) (toList (fmlookup bins ''txids'')))) n)))) (\<lambda>n.
     bindM (aero_del st setHeader (be32 h) n) (\<lambda>n.
     bindM (if rec \<noteq> None then tryM (ac_Delete (as_client st) k) else ret (Inr False)) (\<lambda>_. ret n)))))"

definition aero_Stats :: Stats where
  "aero_Stats = \<lparr>sts_TxIndex = 0, sts_UTXOLive = 0, sts_UTXOSpent = 0, sts_Subtrees = 0, sts_Blocks = 0, sts_Headers = 0\<rparr>"

definition aero_ops :: "('w, 'k) AeroStore \<Rightarrow> 'w store_ops" where
  "aero_ops st =
     \<lparr>so_PutTxIndex = aero_PutTxIndex st, so_GetTxIndex = aero_GetTxIndex st, so_PutUTXO = aero_PutUTXO st,
      so_GetUTXO = aero_GetUTXO st, so_SpendUTXO = aero_SpendUTXO st, so_UnspendUTXO = aero_UnspendUTXO st,
      so_DeleteUTXO = aero_DeleteUTXO st, so_DeleteTxIndex = aero_DeleteTxIndex st, so_PutSubtree = aero_PutSubtree st,
      so_GetSubtree = aero_GetSubtree st, so_PutBlock = aero_PutBlock st, so_GetBlock = aero_GetBlock st,
      so_PutHeader = aero_PutHeader st, so_GetHeader = aero_GetHeader st, so_PruneSpentAtHeight = aero_PruneSpentAtHeight st,
      so_PruneIndexAtHeight = aero_PruneIndexAtHeight st, so_Stats = (\<lambda>_. aero_Stats)\<rparr>"

section \<open>What the adapter relies on\<close>

text \<open>
  A record store: a map from keys to bins. \<open>miss\<close> is what reading an absent record returns, \<open>nolist\<close> what removing
  from a list that is not there returns.
\<close>

definition bins_of :: "BinMap option \<Rightarrow> BinMap" where
  "bins_of r = (case r of None \<Rightarrow> fmempty | Some b \<Rightarrow> b)"

definition cluster ::
  "(string \<Rightarrow> string \<Rightarrow> bytes \<Rightarrow> go_error + 'k) \<Rightarrow> go_error + BinMap option \<Rightarrow> go_error + unit \<Rightarrow> ('k \<rightharpoonup> BinMap, 'k) AeroClient" where
  "cluster nk miss nolist =
     \<lparr>ac_NewKey = nk,
      ac_Put = (\<lambda>k b m. (m(k \<mapsto> bins_of (m k) ++\<^sub>f b), Inr ())),
      ac_Get = (\<lambda>k m. (m, case m k of None \<Rightarrow> miss | Some b \<Rightarrow> Inr (Some b))),
      ac_Delete = (\<lambda>k m. (m(k := None), Inr (m k \<noteq> None))),
      ac_ListAppend = (\<lambda>k bin v m.
        (m(k \<mapsto> fmupd bin (VList (toList (fmlookup (bins_of (m k)) bin) @ [v])) (bins_of (m k))), Inr ())),
      ac_ListRemoveByValue = (\<lambda>k bin v m.
        case fmlookup (bins_of (m k)) bin of
          Some (VList l) \<Rightarrow> (m(k \<mapsto> fmupd bin (VList (filter (\<lambda>x. x \<noteq> v) l)) (bins_of (m k))), Inr ())
        | _ \<Rightarrow> (m, nolist))\<rparr>"

definition client_ok ::
  "('w, 'k) AeroClient \<Rightarrow> ('w \<Rightarrow> 'k \<rightharpoonup> BinMap) \<Rightarrow> go_error + BinMap option \<Rightarrow> go_error + unit \<Rightarrow> bool" where
  "client_ok cl view miss nolist \<longleftrightarrow>
     (let c = cluster (ac_NewKey cl) miss nolist; sim = (\<lambda>_. True)
      in (\<forall>k b. implements sim view (ac_Put cl k b) (ac_Put c k b)) \<and>
         (\<forall>k. implements sim view (ac_Get cl k) (ac_Get c k)) \<and>
         (\<forall>k. implements sim view (ac_Delete cl k) (ac_Delete c k)) \<and>
         (\<forall>k bin v. implements sim view (ac_ListAppend cl k bin v) (ac_ListAppend c k bin v)) \<and>
         (\<forall>k bin v. implements sim view (ac_ListRemoveByValue cl k bin v) (ac_ListRemoveByValue c k bin v)))"

text \<open>Keys exist for every set and byte string and are different for different ones.\<close>

definition keys_ok :: "('w, 'k) AeroStore \<Rightarrow> bool" where
  "keys_ok st \<longleftrightarrow>
     (\<forall>tbl k. \<not> isl (ac_NewKey (as_client st) (as_ns st) tbl k)) \<and>
     (\<forall>tbl k tbl' k'. ac_NewKey (as_client st) (as_ns st) tbl k = ac_NewKey (as_client st) (as_ns st) tbl' k' \<longrightarrow>
        tbl = tbl' \<and> k = k')"

section \<open>Encodings\<close>

lemma outpointKey_eq [simp]: "outpointKey op = outpointKey op' \<longleftrightarrow> op = op'"
  by (cases op; cases op') (simp add: outpointKey_def)

lemma packHashes_length [simp]: "length (packHashes hs) = 32 * length hs"
  by (induction hs) (simp_all add: packHashes_def)

lemma drop_packHashes: "i < length hs \<Longrightarrow> drop (i * 32) (packHashes hs) = slice (hs ! i) @ packHashes (drop (Suc i) hs)"
proof (induction hs arbitrary: i)
  case (Cons h hs)
  then show ?case by (cases i) (simp_all add: packHashes_def)
qed simp

lemma unpackHashes_packHashes [simp]: "unpackHashes (packHashes hs) = hs"
proof (rule nth_equalityI)
  fix i assume "i < length (unpackHashes (packHashes hs))"
  then have i: "i < length hs" by (simp add: unpackHashes_def)
  have "copy_from (slice (hs ! i) @ packHashes (drop (Suc i) hs)) = hs ! i"
    by (simp add: slice_inject [symmetric] slice_copy_from)
  then show "unpackHashes (packHashes hs) ! i = hs ! i" using i by (simp add: unpackHashes_def drop_packHashes)
qed (simp add: unpackHashes_def)

lemma widen_narrow [simp]: "ucast (ucast (x :: uint32) :: int64) = x"
  by (rule bit_word_eqI) (simp add: bit_simps)

lemma value_reads [simp]:
  "toInt (Some (VInt x)) = x" "toInt64 (Some (VInt64 y)) = y" "toBytes (Some (VBytes b)) = b" "toBytes None = []"
  "toList (Some (VList l)) = l" "toList None = []"
  by (simp_all add: toInt_def toInt64_def toBytes_def toList_def)

lemma read_bins [simp]:
  "read_txindex (b ++\<^sub>f txindex_bins ix) = ix"
  "read_utxo (b ++\<^sub>f utxo_bins u) = u"
  "read_block (br_Hash blk) (b ++\<^sub>f block_bins blk) = blk"
  by (simp_all add: read_txindex_def txindex_bins_def read_utxo_def utxo_bins_def read_block_def block_bins_def
      fmlookup_of_list)

lemma read_bins_single [simp]:
  "read_subtree (b ++\<^sub>f fmap_of_list [(''leaves'', VBytes (packHashes hs))]) = hs"
  "read_header (b ++\<^sub>f fmap_of_list [(''hdr'', VBytes (slice hdr))]) = hdr"
  "read_subtree (fmupd ''leaves'' (VBytes (packHashes hs)) b) = hs"
  "read_header (fmupd ''hdr'' (VBytes (slice hdr)) b) = hdr"
  by (simp_all add: read_subtree_def read_header_def fmlookup_of_list)

section \<open>The adapter on a record store\<close>

definition clustered :: "('k \<rightharpoonup> BinMap, 'k) AeroStore \<Rightarrow> bool" where
  "clustered st \<longleftrightarrow> keys_ok st \<and> (\<exists>nolist. as_client st = cluster (ac_NewKey (as_client st)) (Inr None) nolist)"

definition K :: "('w, 'k) AeroStore \<Rightarrow> string \<Rightarrow> bytes \<Rightarrow> 'k" where
  "K st tbl k = projr (ac_NewKey (as_client st) (as_ns st) tbl k)"

lemma NewKey_K: "clustered st \<Longrightarrow> ac_NewKey (as_client st) (as_ns st) tbl k = Inr (K st tbl k)"
  by (simp add: clustered_def keys_ok_def K_def)

lemma K_eq [simp]: "clustered st \<Longrightarrow> K st tbl k = K st tbl' k' \<longleftrightarrow> tbl = tbl' \<and> k = k'"
  by (metis NewKey_K clustered_def keys_ok_def)

lemma aero_key_eval: "clustered st \<Longrightarrow> aero_key st tbl k m = (m, Inr (K st tbl k))"
  by (simp add: aero_key_def liftE_def NewKey_K)

lemma cluster_eval:
  assumes "clustered st"
  shows "ac_Put (as_client st) k b m = (m(k \<mapsto> bins_of (m k) ++\<^sub>f b), Inr ())"
    and "ac_Get (as_client st) k m = (m, Inr (m k))"
    and "ac_Delete (as_client st) k m = (m(k := None), Inr (m k \<noteq> None))"
    and "ac_ListAppend (as_client st) k bin v m =
      (m(k \<mapsto> fmupd bin (VList (toList (fmlookup (bins_of (m k)) bin) @ [v])) (bins_of (m k))), Inr ())"
proof -
  obtain nolist where c: "as_client st = cluster (ac_NewKey (as_client st)) (Inr None) nolist"
    using assms by (auto simp: clustered_def)
  show "ac_Put (as_client st) k b m = (m(k \<mapsto> bins_of (m k) ++\<^sub>f b), Inr ())"
    "ac_Get (as_client st) k m = (m, Inr (m k))"
    "ac_Delete (as_client st) k m = (m(k := None), Inr (m k \<noteq> None))"
    "ac_ListAppend (as_client st) k bin v m =
      (m(k \<mapsto> fmupd bin (VList (toList (fmlookup (bins_of (m k)) bin) @ [v])) (bins_of (m k))), Inr ())"
    by (subst c, simp add: cluster_def split: option.split)+
qed

lemmas aero_eval = aero_key_eval cluster_eval NewKey_K bindM_def ret_def tryM_def

text \<open>
  The three views of the records: the abstract store, the index of spent outputs, and the transaction
  lists of the heights.
\<close>

definition read_entry :: "BinMap \<Rightarrow> heightEntry" where
  "read_entry bins =
     \<lparr>he_block = copy_from (toBytes (fmlookup bins ''blk'')), he_hasBlock = (length (toBytes (fmlookup bins ''blk'')) = 32),
      he_subtrees = unpackHashes (toBytes (fmlookup bins ''subs'')),
      he_txids = map (\<lambda>v. copy_from (toBytes (Some v))) (toList (fmlookup bins ''txids''))\<rparr>"

definition aero_abs :: "('k \<rightharpoonup> BinMap, 'k) AeroStore \<Rightarrow> ('k \<rightharpoonup> BinMap) \<Rightarrow> FlatStore" where
  "aero_abs st m =
     \<lparr>fs_txindex = (\<lambda>txid. map_option read_txindex (m (K st setTxIndex (slice txid)))),
      fs_utxo = (\<lambda>op. map_option read_utxo (m (K st setUTXO (outpointKey op)))),
      fs_subtree = (\<lambda>root. map_option read_subtree (m (K st setSubtree (slice root)))),
      fs_blocks = (\<lambda>hash. map_option (read_block hash) (m (K st setBlock (slice hash)))),
      fs_hdr = (\<lambda>h. map_option read_header (m (K st setHeader (be32 h)))),
      fs_hidx = (\<lambda>h. map_option read_entry (m (K st setHeightIdx (be32 h))))\<rparr>"

definition spent_idx :: "('k \<rightharpoonup> BinMap, 'k) AeroStore \<Rightarrow> ('k \<rightharpoonup> BinMap) \<Rightarrow> uint32 \<Rightarrow> Value list" where
  "spent_idx st m h = toList (fmlookup (bins_of (m (K st setSpentIdx (be32 h)))) ''ops'')"

definition tx_idx :: "('k \<rightharpoonup> BinMap, 'k) AeroStore \<Rightarrow> ('k \<rightharpoonup> BinMap) \<Rightarrow> uint32 \<Rightarrow> Value list" where
  "tx_idx st m h = toList (fmlookup (bins_of (m (K st setHeightIdx (be32 h)))) ''txids'')"

lemma bins_of_Some [simp]: "bins_of (Some b) = b"
  by (simp add: bins_of_def)

lemmas idx_fold = spent_idx_def [symmetric] tx_idx_def [symmetric]

lemma aero_abs_sel:
  "fs_txindex (aero_abs st m) txid = map_option read_txindex (m (K st setTxIndex (slice txid)))"
  "fs_utxo (aero_abs st m) op = map_option read_utxo (m (K st setUTXO (outpointKey op)))"
  "fs_subtree (aero_abs st m) root = map_option read_subtree (m (K st setSubtree (slice root)))"
  "fs_blocks (aero_abs st m) hash = map_option (read_block hash) (m (K st setBlock (slice hash)))"
  "fs_hdr (aero_abs st m) h = map_option read_header (m (K st setHeader (be32 h)))"
  "fs_hidx (aero_abs st m) h = map_option read_entry (m (K st setHeightIdx (be32 h)))"
  by (simp_all add: aero_abs_def)

lemma abs_upd:
  assumes "clustered st"
  shows "aero_abs st (m(K st setTxIndex (slice txid) := r)) = (let a = aero_abs st m in a\<lparr>fs_txindex := (fs_txindex a)(txid := map_option read_txindex r)\<rparr>)"
    and "aero_abs st (m(K st setUTXO (outpointKey op) := r)) = (let a = aero_abs st m in a\<lparr>fs_utxo := (fs_utxo a)(op := map_option read_utxo r)\<rparr>)"
    and "aero_abs st (m(K st setSubtree (slice root) := r)) = (let a = aero_abs st m in a\<lparr>fs_subtree := (fs_subtree a)(root := map_option read_subtree r)\<rparr>)"
    and "aero_abs st (m(K st setBlock (slice hash) := r)) = (let a = aero_abs st m in a\<lparr>fs_blocks := (fs_blocks a)(hash := map_option (read_block hash) r)\<rparr>)"
    and "aero_abs st (m(K st setHeader (be32 h) := r)) = (let a = aero_abs st m in a\<lparr>fs_hdr := (fs_hdr a)(h := map_option read_header r)\<rparr>)"
    and "aero_abs st (m(K st setHeightIdx (be32 h) := r)) = (let a = aero_abs st m in a\<lparr>fs_hidx := (fs_hidx a)(h := map_option read_entry r)\<rparr>)"
    and "aero_abs st (m(K st setSpentIdx (be32 h) := r)) = aero_abs st m"
  by (simp_all add: aero_abs_def Let_def fun_eq_iff assms)

lemma idx_upd:
  assumes "clustered st"
  shows "tbl \<noteq> setSpentIdx \<Longrightarrow> spent_idx st (m(K st tbl k := r)) = spent_idx st m"
    and "spent_idx st (m(K st setSpentIdx (be32 h) := r)) = (spent_idx st m)(h := toList (fmlookup (bins_of r) ''ops''))"
    and "tbl \<noteq> setHeightIdx \<Longrightarrow> tx_idx st (m(K st tbl k := r)) = tx_idx st m"
    and "tx_idx st (m(K st setHeightIdx (be32 h) := r)) = (tx_idx st m)(h := toList (fmlookup (bins_of r) ''txids''))"
  by (auto simp: spent_idx_def tx_idx_def fun_eq_iff assms)

section \<open>The index of spent outputs\<close>

abbreviation spent :: "UTXO option \<Rightarrow> bool" where
  "spent r \<equiv> (case r of None \<Rightarrow> False | Some u \<Rightarrow> u_Spent u)"

definition spent_set :: "(Outpoint \<rightharpoonup> UTXO) \<Rightarrow> uint32 \<Rightarrow> Outpoint set" where
  "spent_set U h = {op. spent_at h (U op)}"

definition index_ok :: "(Outpoint \<rightharpoonup> UTXO) \<Rightarrow> (uint32 \<Rightarrow> Value list) \<Rightarrow> bool" where
  "index_ok U I \<longleftrightarrow> (\<forall>h. distinct (I h) \<and> set (I h) = (\<lambda>op. VBytes (outpointKey op)) ` spent_set U h)"

lemma inj_opKey: "inj (\<lambda>op. VBytes (outpointKey op))"
  by (rule injI) simp

lemma opKey_mem: "VBytes (outpointKey op) \<in> (\<lambda>op. VBytes (outpointKey op)) ` S \<longleftrightarrow> op \<in> S"
  by (rule inj_image_mem_iff [OF inj_opKey])

lemma index_cong: "index_ok U I \<Longrightarrow> spent_set U' = spent_set U \<Longrightarrow> index_ok U' I"
  by (simp add: index_ok_def)

lemma spent_at_not: "\<not> spent r \<Longrightarrow> \<not> spent_at h r"
  by (auto simp: spent_at_def split: option.splits)

lemma spent_set_upd:
  "spent_set (U(op := r)) h = (if spent_at h r then insert op (spent_set U h) else spent_set U h - {op})"
  by (auto simp: spent_set_def)

lemma spent_set_not: "\<not> spent (U op) \<Longrightarrow> op \<notin> spent_set U h"
  by (simp add: spent_set_def spent_at_not)

lemma index_unspent: "index_ok U I \<Longrightarrow> \<not> spent (U op) \<Longrightarrow> \<not> spent r \<Longrightarrow> index_ok (U(op := r)) I"
  by (erule index_cong) (simp add: fun_eq_iff spent_set_upd spent_at_not spent_set_not)

lemma index_append:
  assumes "index_ok U I" and "\<not> spent (U op)" and "u_Spent u"
  shows "index_ok (U(op \<mapsto> u)) (I(u_SpentHeight u := I (u_SpentHeight u) @ [VBytes (outpointKey op)]))"
proof -
  have "spent_at h (Some u) \<longleftrightarrow> h = u_SpentHeight u" for h using assms(3) by (auto simp: spent_at_def)
  then have s: "spent_set (U(op \<mapsto> u)) h = (if h = u_SpentHeight u then insert op (spent_set U h) else spent_set U h)" for h
    by (simp add: spent_set_upd spent_set_not [where U = U and op = op, OF assms(2)])
  have "VBytes (outpointKey op) \<notin> set (I h)" for h
    using assms(1) spent_set_not [where U = U and op = op and h = h, OF assms(2)] by (simp only: index_ok_def opKey_mem) simp
  then show ?thesis using assms(1) unfolding index_ok_def s by simp
qed

lemma index_remove:
  assumes "index_ok U I" and "U op = Some u" and "u_Spent u"
  shows "index_ok (U(op := None)) (I(u_SpentHeight u := filter (\<lambda>x. x \<noteq> VBytes (outpointKey op)) (I (u_SpentHeight u))))"
proof -
  have "spent_set (U(op := None)) h = spent_set U h - {op}" for h by (simp add: spent_set_upd spent_at_def)
  moreover have "op \<notin> spent_set U h" if "h \<noteq> u_SpentHeight u" for h using that assms(2) by (simp add: spent_set_def spent_at_def)
  ultimately have s: "spent_set (U(op := None)) h = (if h = u_SpentHeight u then spent_set U h - {op} else spent_set U h)" for h by simp
  have "(\<lambda>op. VBytes (outpointKey op)) ` (S - {op}) = {x \<in> (\<lambda>op. VBytes (outpointKey op)) ` S. x \<noteq> VBytes (outpointKey op)}" for S
    by auto
  then show ?thesis using assms(1) unfolding index_ok_def s by simp
qed

lemma index_prune:
  assumes "index_ok U I"
  shows "index_ok (\<lambda>op. if spent_at h (U op) then None else U op) (I(h := []))"
proof -
  have "spent_set (\<lambda>op. if spent_at h (U op) then None else U op) h' = (if h' = h then {} else spent_set U h')" for h'
    by (auto simp: spent_set_def spent_at_def split: option.splits)
  then show ?thesis using assms by (simp add: index_ok_def)
qed

section \<open>Simulation of the reference store\<close>

definition aero_inv :: "('k \<rightharpoonup> BinMap, 'k) AeroStore \<Rightarrow> ('k \<rightharpoonup> BinMap) \<Rightarrow> bool" where
  "aero_inv st m \<longleftrightarrow> index_ok (fs_utxo (aero_abs st m)) (spent_idx st m) \<and> (\<forall>h. \<exists>ts :: hash list. tx_idx st m h = map (\<lambda>t. VBytes (slice t)) ts)"

definition sim_at :: "('k \<rightharpoonup> BinMap, 'k) AeroStore \<Rightarrow> ('k \<rightharpoonup> BinMap) \<Rightarrow> ('k \<rightharpoonup> BinMap, 'a) gom \<Rightarrow> (FlatStore, 'a) gom \<Rightarrow> bool" where
  "sim_at st m p f \<longleftrightarrow> aero_inv st (fst (p m)) \<and> f (aero_abs st m) = (aero_abs st (fst (p m)), snd (p m))"

lemma sim_at_answering: "sim_at st m p f \<Longrightarrow> sim_at st m (answering c p) (answering c f)"
  by (auto simp: sim_at_def answering_def bindM_def ret_def split: prod.splits sum.splits)

lemma sim_put_utxo:
  assumes "clustered st" and "aero_inv st m" and "\<not> spent (fs_utxo (aero_abs st m) op)"
  shows "sim_at st m (aero_PutUTXO st op u) (so_PutUTXO flat_ops op u)"
  using assms index_append [of "fs_utxo (aero_abs st m)" "spent_idx st m" op u] index_unspent [of "fs_utxo (aero_abs st m)" "spent_idx st m" op "Some u"]
  by (simp add: sim_at_def aero_PutUTXO_def aero_indexSpent_def aero_eval flat_ops_def aero_inv_def abs_upd idx_upd idx_fold Let_def)

lemma get_utxo_eval: "clustered st \<Longrightarrow> aero_GetUTXO st op m = (m, Inr (fs_utxo (aero_abs st m) op))"
  by (simp add: aero_GetUTXO_def aero_eval aero_abs_sel)

lemma sim_spend:
  assumes "clustered st" and "aero_inv st m" and "\<not> spent (fs_utxo (aero_abs st m) op)"
  shows "sim_at st m (aero_SpendUTXO st op by h) (so_SpendUTXO flat_ops op by h)"
proof (cases "fs_utxo (aero_abs st m) op")
  case None
  then show ?thesis using assms by (simp add: sim_at_def aero_SpendUTXO_def bindM_def ret_def get_utxo_eval flat_ops_def flat_SpendUTXO_def)
next
  case (Some u)
  obtain m' r where p: "aero_PutUTXO st op (spend by h u) m = (m', r)" by (metis prod.exhaust)
  with sim_put_utxo [OF assms, of "spend by h u"] have "aero_inv st m'" "aero_abs st m' = (aero_abs st m)\<lparr>fs_utxo := (fs_utxo (aero_abs st m))(op \<mapsto> spend by h u)\<rparr>" "r = Inr ()"
    by (simp_all add: sim_at_def flat_ops_def)
  then show ?thesis using p Some assms(1)
    by (simp add: sim_at_def aero_SpendUTXO_def bindM_def ret_def get_utxo_eval flat_ops_def flat_SpendUTXO_def spend_def)
qed

text \<open>Whatever removing from the index returns, it leaves the index without the output.\<close>

lemma deindex_effect:
  assumes "clustered st"
  shows "\<exists>m' r. tryM (aero_deindexSpent st op h) m = (m', Inr r) \<and> aero_abs st m' = aero_abs st m \<and> tx_idx st m' = tx_idx st m \<and>
    spent_idx st m' = (spent_idx st m)(h := filter (\<lambda>x. x \<noteq> VBytes (outpointKey op)) (spent_idx st m h))"
proof -
  obtain nolist where c: "as_client st = cluster (ac_NewKey (as_client st)) (Inr None) nolist"
    using assms by (auto simp: clustered_def)
  let ?k = "K st setSpentIdx (be32 h)"
  have r: "ac_ListRemoveByValue (as_client st) k bin v m =
      (case fmlookup (bins_of (m k)) bin of
          Some (VList l) \<Rightarrow> (m(k \<mapsto> fmupd bin (VList (filter (\<lambda>x. x \<noteq> v) l)) (bins_of (m k))), Inr ())
        | _ \<Rightarrow> (m, nolist))" for k bin v
    by (subst c) (simp add: cluster_def)
  show ?thesis
  proof (cases "\<exists>l. fmlookup (bins_of (m ?k)) ''ops'' = Some (VList l)")
    case True
    then obtain l where l: "fmlookup (bins_of (m ?k)) ''ops'' = Some (VList l)" by blast
    then have "spent_idx st m h = l" by (simp add: spent_idx_def)
    then show ?thesis
      by (simp add: tryM_def aero_deindexSpent_def bindM_def aero_key_eval assms r l abs_upd idx_upd)
  next
    case False
    then have "spent_idx st m h = []" by (auto simp: spent_idx_def toList_def split: option.splits Value.splits)
    moreover have "ac_ListRemoveByValue (as_client st) ?k ''ops'' v m = (m, nolist)" for v
      using False by (auto simp: r split: option.splits Value.splits)
    ultimately show ?thesis
      by (simp add: tryM_def aero_deindexSpent_def bindM_def aero_key_eval assms fun_upd_idem)
  qed
qed

lemma index_reopen:
  assumes "index_ok U I" and "U op = Some u" and "u_Spent u" and "\<not> spent r"
  shows "index_ok (U(op := r)) (I(u_SpentHeight u := filter (\<lambda>x. x \<noteq> VBytes (outpointKey op)) (I (u_SpentHeight u))))"
  using index_unspent [OF index_remove [OF assms(1-3)], of op r] assms(4) by simp

lemma sim_unspend:
  assumes "clustered st" and "aero_inv st m"
  shows "sim_at st m (aero_UnspendUTXO st op) (so_UnspendUTXO flat_ops op)"
proof (cases "fs_utxo (aero_abs st m) op")
  case None
  then show ?thesis using assms by (simp add: sim_at_def aero_UnspendUTXO_def bindM_def ret_def get_utxo_eval flat_ops_def flat_UnspendUTXO_def)
next
  case (Some u)
  let ?k = "K st setUTXO (outpointKey op)"
  have put: "aero_PutUTXO st op (unspend u) w = (w(?k \<mapsto> bins_of (w ?k) ++\<^sub>f utxo_bins (unspend u)), Inr ())" for w
    by (simp add: aero_PutUTXO_def aero_eval assms(1) unspend_def)
  have ns: "\<not> u_Spent (unspend u)" by (simp add: unspend_def)
  show ?thesis
  proof (cases "u_Spent u")
    case False
    have "index_ok ((fs_utxo (aero_abs st m))(op \<mapsto> unspend u)) (spent_idx st m)"
      using index_unspent [of "fs_utxo (aero_abs st m)" "spent_idx st m" op "Some (unspend u)"] assms(2) False Some ns by (simp add: aero_inv_def)
    then show ?thesis using put Some False assms
      by (simp add: sim_at_def aero_UnspendUTXO_def bindM_def ret_def get_utxo_eval flat_ops_def flat_UnspendUTXO_def
          unspend_def [symmetric] aero_inv_def abs_upd idx_upd Let_def)
  next
    case True
    obtain m1 r where m1: "tryM (aero_deindexSpent st op (u_SpentHeight u)) m = (m1, Inr r)" "aero_abs st m1 = aero_abs st m"
      "tx_idx st m1 = tx_idx st m" "spent_idx st m1 = (spent_idx st m)(u_SpentHeight u := filter (\<lambda>x. x \<noteq> VBytes (outpointKey op)) (spent_idx st m (u_SpentHeight u)))"
      using deindex_effect [OF assms(1), of op "u_SpentHeight u" m] by blast
    have "index_ok ((fs_utxo (aero_abs st m))(op \<mapsto> unspend u)) (spent_idx st m1)"
      unfolding m1(4) by (rule index_reopen) (use assms(2) Some True ns in \<open>simp_all add: aero_inv_def\<close>)
    then show ?thesis using put Some True assms m1
      by (simp add: sim_at_def aero_UnspendUTXO_def bindM_def ret_def get_utxo_eval flat_ops_def flat_UnspendUTXO_def
          unspend_def [symmetric] aero_inv_def abs_upd idx_upd Let_def)
  qed
qed

lemma sim_delete:
  assumes "clustered st" and "aero_inv st m"
  shows "sim_at st m (aero_DeleteUTXO st op) (so_DeleteUTXO flat_ops op)"
proof -
  let ?k = "K st setUTXO (outpointKey op)"
  show ?thesis
  proof (cases "spent (fs_utxo (aero_abs st m) op)")
    case False
    have "index_ok ((fs_utxo (aero_abs st m))(op := None)) (spent_idx st m)"
      using index_unspent [of "fs_utxo (aero_abs st m)" "spent_idx st m" op None] assms(2) False by (simp add: aero_inv_def)
    then show ?thesis using False assms
      by (cases "fs_utxo (aero_abs st m) op")
        (auto simp: sim_at_def aero_DeleteUTXO_def bindM_def ret_def get_utxo_eval flat_ops_def
          aero_key_eval cluster_eval aero_inv_def abs_upd idx_upd Let_def aero_abs_sel(2))
  next
    case True
    then obtain u where u: "fs_utxo (aero_abs st m) op = Some u" "u_Spent u" by (auto split: option.splits)
    obtain m1 r where m1: "tryM (aero_deindexSpent st op (u_SpentHeight u)) m = (m1, Inr r)" "aero_abs st m1 = aero_abs st m"
      "tx_idx st m1 = tx_idx st m" "spent_idx st m1 = (spent_idx st m)(u_SpentHeight u := filter (\<lambda>x. x \<noteq> VBytes (outpointKey op)) (spent_idx st m (u_SpentHeight u)))"
      using deindex_effect [OF assms(1), of op "u_SpentHeight u" m] by blast
    have i: "index_ok ((fs_utxo (aero_abs st m))(op := None)) (spent_idx st m1)"
      unfolding m1(4) by (rule index_remove) (use assms(2) u in \<open>simp_all add: aero_inv_def\<close>)
    have "map_option read_utxo (m1 ?k) = Some u" using m1(2) u(1) aero_abs_sel(2) [of st m1 op] by simp
    then have "m1 ?k \<noteq> None" by auto
    then show ?thesis using u assms m1 i
      by (simp add: sim_at_def aero_DeleteUTXO_def bindM_def ret_def get_utxo_eval flat_ops_def
          aero_key_eval cluster_eval aero_inv_def abs_upd idx_upd Let_def)
  qed
qed

section \<open>Sweeps\<close>

definition without :: "('w, 'k) AeroStore \<Rightarrow> string \<Rightarrow> bytes set \<Rightarrow> ('k \<rightharpoonup> BinMap) \<Rightarrow> 'k \<rightharpoonup> BinMap" where
  "without st tbl S m = (\<lambda>k. if k \<in> K st tbl ` S then None else m k)"

lemma del_eval:
  "clustered st \<Longrightarrow> aero_del st tbl k n m = (m(K st tbl k := None), Inr (if m (K st tbl k) \<noteq> None then n + 1 else n))"
  by (simp add: aero_del_def aero_eval)

lemma del_all_eval:
  assumes "clustered st"
  shows "aero_del_all st tbl ks n m = (without st tbl (set ks) m, Inr (n + card {k \<in> set ks. m (K st tbl k) \<noteq> None}))"
proof (induction ks arbitrary: n m)
  case Nil
  then show ?case by (simp add: ret_def without_def)
next
  case (Cons k ks)
  let ?m = "m(K st tbl k := None)"
  have w: "without st tbl (set ks) ?m = without st tbl (set (k # ks)) m" by (auto simp: without_def fun_eq_iff)
  define A where "A = {x \<in> set ks. m (K st tbl x) \<noteq> None} - {k}"
  have a: "{x \<in> set ks. ?m (K st tbl x) \<noteq> None} = A" using assms by (auto simp: A_def)
  have b: "{x \<in> set (k # ks). m (K st tbl x) \<noteq> None} = (if m (K st tbl k) \<noteq> None then insert k A else A)" by (auto simp: A_def)
  have "finite A" "k \<notin> A" by (simp_all add: A_def)
  then have "(if m (K st tbl k) \<noteq> None then n + 1 else n) + card {x \<in> set ks. ?m (K st tbl x) \<noteq> None} =
      n + card {x \<in> set (k # ks). m (K st tbl x) \<noteq> None}" unfolding a b by simp
  then show ?case
    by (simp only: aero_del_all.simps bindM_def del_eval [OF assms] prod.case sum.case Cons.IH w)
qed

lemma abs_without:
  assumes "clustered st"
  shows "aero_abs st (without st setUTXO S m) = (aero_abs st m)\<lparr>fs_utxo := (\<lambda>op. if outpointKey op \<in> S then None else fs_utxo (aero_abs st m) op)\<rparr>"
    and "aero_abs st (without st setSubtree S m) = (aero_abs st m)\<lparr>fs_subtree := (\<lambda>r. if slice r \<in> S then None else fs_subtree (aero_abs st m) r)\<rparr>"
    and "aero_abs st (without st setTxIndex S m) = (aero_abs st m)\<lparr>fs_txindex := (\<lambda>r. if slice r \<in> S then None else fs_txindex (aero_abs st m) r)\<rparr>"
    and "aero_abs st (without st setBlock S m) = (aero_abs st m)\<lparr>fs_blocks := (\<lambda>r. if slice r \<in> S then None else fs_blocks (aero_abs st m) r)\<rparr>"
  using assms by (auto simp: aero_abs_def without_def fun_eq_iff)

lemma idx_without:
  assumes "clustered st"
  shows "tbl \<noteq> setSpentIdx \<Longrightarrow> spent_idx st (without st tbl S m) = spent_idx st m"
    and "tbl \<noteq> setHeightIdx \<Longrightarrow> tx_idx st (without st tbl S m) = tx_idx st m"
  using assms by (auto simp: spent_idx_def tx_idx_def without_def fun_eq_iff)

lemma sim_prune_spent:
  assumes "clustered st" and "aero_inv st m"
  shows "sim_at st m (aero_PruneSpentAtHeight st h) (so_PruneSpentAtHeight flat_ops h)"
proof -
  let ?U = "fs_utxo (aero_abs st m)" and ?k = "K st setSpentIdx (be32 h)"
  let ?S = "outpointKey ` spent_set ?U h"
  have i: "set (spent_idx st m h) = (\<lambda>op. VBytes (outpointKey op)) ` spent_set ?U h" and ok: "index_ok ?U (spent_idx st m)"
    using assms(2) by (auto simp: aero_inv_def index_ok_def)
  then have ks: "set (map (\<lambda>v. toBytes (Some v)) (spent_idx st m h)) = ?S" by (simp add: image_image)
  have "m (K st setUTXO k) \<noteq> None" if "k \<in> ?S" for k
    using that by (auto simp: spent_set_def spent_at_def aero_abs_sel(2) split: option.splits)
  then have "{k \<in> ?S. m (K st setUTXO k) \<noteq> None} = ?S" by blast
  then have c: "card {k \<in> ?S. m (K st setUTXO k) \<noteq> None} = card (spent_set ?U h)"
    by (simp add: card_image inj_on_def)
  have run: "aero_PruneSpentAtHeight st h m = ((without st setUTXO ?S m)(?k := None), Inr (card (spent_set ?U h)))"
  proof (cases "m ?k")
    case None
    then have "spent_idx st m h = []" by (simp add: spent_idx_def bins_of_def)
    then have "spent_set ?U h = {}" using i by simp
    moreover have "m(?k := None) = m" using None by (simp add: fun_upd_idem)
    ultimately show ?thesis using None by (simp add: aero_PruneSpentAtHeight_def aero_eval assms(1) without_def)
  next
    case (Some bins)
    then have "toList (fmlookup bins ''ops'') = spent_idx st m h" by (simp add: spent_idx_def)
    then show ?thesis using Some
      by (simp only: aero_PruneSpentAtHeight_def bindM_def aero_key_eval cluster_eval assms(1) prod.case sum.case option.case
          del_all_eval ks c tryM_def ret_def add_0)
  qed
  have u: "outpointKey op \<in> outpointKey ` S \<longleftrightarrow> op \<in> S" for op S by auto
  show ?thesis
    unfolding sim_at_def run
    using assms index_prune [OF ok, of h]
    by (simp add: abs_upd abs_without idx_upd idx_without u flat_ops_def flat_PruneSpentAtHeight_def aero_inv_def spent_set_def bins_of_def)
qed

lemma sim_put_txindex:
  assumes "clustered st" and "aero_inv st m" and "\<not> ti_Mined ix \<or> fs_txindex (aero_abs st m) txid = None"
  shows "sim_at st m (aero_PutTxIndex st txid ix) (so_PutTxIndex flat_ops txid ix)"
proof (cases "ti_Mined ix")
  case False
  then show ?thesis using assms
    by (simp add: sim_at_def aero_PutTxIndex_def aero_eval flat_ops_def flat_PutTxIndex_def aero_inv_def abs_upd idx_upd Let_def)
next
  case True
  let ?h = "ti_Height ix"
  let ?r = "m (K st setHeightIdx (be32 ?h))"
  have none: "fs_txindex (aero_abs st m) txid = None" using assms(3) True by simp
  have e: "read_entry (fmupd ''txids'' (VList (l @ [VBytes (slice txid)])) (bins_of ?r)) = add_txid txid (entry_of (fs_hidx (aero_abs st m) ?h))"
    if "l = toList (fmlookup (bins_of ?r) ''txids'')" for l
    using that by (cases ?r) (simp_all add: aero_abs_sel read_entry_def add_txid_def entry_of_def emptyEntry_def bins_of_def unpackHashes_def)
  obtain ts :: "hash list" where "tx_idx st m ?h = map (\<lambda>t. VBytes (slice t)) ts" using assms(2) by (auto simp: aero_inv_def)
  then have "\<exists>ts :: hash list. tx_idx st m ?h @ [VBytes (slice txid)] = map (\<lambda>t. VBytes (slice t)) ts"
    by (intro exI [of _ "ts @ [txid]"]) simp
  then show ?thesis using assms(1,2) True none e
    by (simp add: sim_at_def aero_PutTxIndex_def indexHeightTx_def aero_eval flat_ops_def flat_PutTxIndex_def aero_inv_def abs_upd idx_upd idx_fold Let_def)
qed

lemma sim_records:
  assumes "clustered st" and "aero_inv st m"
  shows "sim_at st m (aero_GetTxIndex st txid) (so_GetTxIndex flat_ops txid)"
    and "sim_at st m (aero_GetUTXO st op) (so_GetUTXO flat_ops op)"
    and "sim_at st m (aero_DeleteTxIndex st txid) (so_DeleteTxIndex flat_ops txid)"
    and "sim_at st m (aero_PutSubtree st root leaves) (so_PutSubtree flat_ops root leaves)"
    and "sim_at st m (aero_GetSubtree st root) (so_GetSubtree flat_ops root)"
    and "sim_at st m (aero_GetBlock st hash) (so_GetBlock flat_ops hash)"
    and "sim_at st m (aero_PutHeader st h hdr) (so_PutHeader flat_ops h hdr)"
    and "sim_at st m (aero_GetHeader st h) (so_GetHeader flat_ops h)"
  using assms
  by (simp_all add: sim_at_def aero_GetTxIndex_def aero_GetUTXO_def aero_DeleteTxIndex_def aero_PutSubtree_def aero_GetSubtree_def
      aero_GetBlock_def aero_PutHeader_def aero_GetHeader_def aero_eval flat_ops_def aero_abs_sel aero_inv_def abs_upd idx_upd Let_def)

lemma sim_put_block:
  assumes "clustered st" and "aero_inv st m"
  shows "sim_at st m (aero_PutBlock st b) (so_PutBlock flat_ops b)"
proof -
  let ?r = "m (K st setHeightIdx (be32 (br_Height b)))"
  let ?b = "fmap_of_list [(''blk'', VBytes (slice (br_Hash b))), (''subs'', VBytes (packHashes (br_SubtreeRoots b)))]"
  have e: "read_entry (bins_of ?r ++\<^sub>f ?b) = set_block b (entry_of (fs_hidx (aero_abs st m) (br_Height b)))"
    by (cases ?r) (simp_all add: aero_abs_sel read_entry_def set_block_def entry_of_def emptyEntry_def bins_of_def fmlookup_of_list)
  have t: "toList (fmlookup (bins_of ?r ++\<^sub>f ?b) ''txids'') = tx_idx st m (br_Height b)"
    by (simp add: tx_idx_def fmlookup_of_list)
  show ?thesis using assms e t
    by (simp add: sim_at_def aero_PutBlock_def indexHeightBlock_def aero_eval flat_ops_def flat_PutBlock_def aero_inv_def abs_upd idx_upd Let_def)
qed

lemma count_slices: "card {k \<in> slice ` S. P k} = card (S \<inter> {r :: hash. P (slice r)})"
proof -
  have "{k \<in> slice ` S. P k} = slice ` (S \<inter> {r. P (slice r)})" by auto
  then show ?thesis by (simp add: card_image inj_on_def)
qed

lemma del_hashes:
  assumes "clustered st"
  shows "aero_del_all st setSubtree (map slice rs) n m = (without st setSubtree (slice ` set rs) m, Inr (n + present (fs_subtree (aero_abs st m)) rs))"
    and "aero_del_all st setTxIndex (map slice rs) n m = (without st setTxIndex (slice ` set rs) m, Inr (n + present (fs_txindex (aero_abs st m)) rs))"
    and "aero_abs st (without st setSubtree (slice ` S) m) = (aero_abs st m)\<lparr>fs_subtree := fs_subtree (aero_abs st m) |` (- S)\<rparr>"
    and "aero_abs st (without st setTxIndex (slice ` S) m) = (aero_abs st m)\<lparr>fs_txindex := fs_txindex (aero_abs st m) |` (- S)\<rparr>"
    and "aero_abs st (without st setBlock (slice ` S) m) = (aero_abs st m)\<lparr>fs_blocks := fs_blocks (aero_abs st m) |` (- S)\<rparr>"
proof -
  have d: "{r. m (K st setSubtree (slice r)) \<noteq> None} = dom (fs_subtree (aero_abs st m))"
    "{r. m (K st setTxIndex (slice r)) \<noteq> None} = dom (fs_txindex (aero_abs st m))"
    by (auto simp: aero_abs_sel)
  show "aero_del_all st setSubtree (map slice rs) n m = (without st setSubtree (slice ` set rs) m, Inr (n + present (fs_subtree (aero_abs st m)) rs))"
    "aero_del_all st setTxIndex (map slice rs) n m = (without st setTxIndex (slice ` set rs) m, Inr (n + present (fs_txindex (aero_abs st m)) rs))"
    by (simp_all only: del_all_eval [OF assms] set_map count_slices d present_def)
  have "slice r \<in> slice ` S \<longleftrightarrow> r \<in> S" for r :: hash by auto
  then show "aero_abs st (without st setSubtree (slice ` S) m) = (aero_abs st m)\<lparr>fs_subtree := fs_subtree (aero_abs st m) |` (- S)\<rparr>"
    "aero_abs st (without st setTxIndex (slice ` S) m) = (aero_abs st m)\<lparr>fs_txindex := fs_txindex (aero_abs st m) |` (- S)\<rparr>"
    "aero_abs st (without st setBlock (slice ` S) m) = (aero_abs st m)\<lparr>fs_blocks := fs_blocks (aero_abs st m) |` (- S)\<rparr>"
    by (simp_all add: abs_without assms restrict_map_def) (auto simp: fun_eq_iff)
qed

lemma del_block:
  assumes "clustered st"
  shows "(if length blk = 32 then aero_del st setBlock blk 0 else ret 0) m =
    (let bs = (if length blk = 32 then [copy_from blk] else [])
     in (without st setBlock (slice ` set bs) m, Inr (present (fs_blocks (aero_abs st m)) bs)))"
  using assms by (auto simp: del_eval ret_def without_def present_def fun_eq_iff aero_abs_sel dom_def)


lemma sim_prune_index:
  assumes "clustered st" and "aero_inv st m"
  shows "sim_at st m (aero_PruneIndexAtHeight st h) (so_PruneIndexAtHeight flat_ops h)"
proof -
  let ?a = "aero_abs st m" and ?k = "K st setHeightIdx (be32 h)"
  define e where "e = entry_of (fs_hidx ?a h)"
  define bs where "bs = (if he_hasBlock e then [he_block e] else [])"
  define m3 where "m3 = without st setTxIndex (slice ` set (he_txids e)) (without st setSubtree (slice ` set (he_subtrees e)) (without st setBlock (slice ` set bs) m))"
  have a3: "aero_abs st m3 = ?a\<lparr>fs_blocks := fs_blocks ?a |` (- set bs), fs_subtree := fs_subtree ?a |` (- set (he_subtrees e)), fs_txindex := fs_txindex ?a |` (- set (he_txids e))\<rparr>"
    by (simp add: m3_def del_hashes assms(1))
  have i3: "spent_idx st m3 = spent_idx st m" "tx_idx st m3 = tx_idx st m" by (simp_all add: m3_def idx_without assms(1))
  have h3: "m3 (K st setHeader (be32 h)) = m (K st setHeader (be32 h))" "m3 ?k = m ?k"
    using assms(1) by (auto simp: m3_def without_def)
  have ph: "fs_hdr ?a h = None \<longleftrightarrow> m (K st setHeader (be32 h)) = None" by (simp add: aero_abs_sel)
  have run: "aero_PruneIndexAtHeight st h m = (m3(K st setHeader (be32 h) := None, ?k := None),
      Inr (present (fs_blocks ?a) bs + present (fs_subtree ?a) (he_subtrees e) + present (fs_txindex ?a) (he_txids e) + present (fs_hdr ?a) [h]))"
  proof (cases "m ?k")
    case None
    then have "e = emptyEntry" by (simp add: e_def aero_abs_sel entry_of_def)
    then have "he_txids e = []" "he_subtrees e = []" "bs = []" by (simp_all add: emptyEntry_def bs_def)
    moreover from this have "m3 = m" by (simp add: m3_def without_def)
    moreover have "(m(K st setHeader (be32 h) := None))(?k := None) = m(K st setHeader (be32 h) := None)"
      using None assms(1) by (simp add: fun_eq_iff)
    ultimately show ?thesis using None
      by (simp add: aero_PruneIndexAtHeight_def aero_eval del_eval assms(1) ph del: not_None_eq) (simp add: present_def)
  next
    case (Some bins)
    obtain ts :: "hash list" where ts: "toList (fmlookup bins ''txids'') = map (\<lambda>t. VBytes (slice t)) ts"
      using assms(2) Some by (auto simp: aero_inv_def tx_idx_def dest!: spec [of _ h])
    have e: "e = read_entry bins" using Some by (simp add: e_def aero_abs_sel entry_of_def)
    then have f: "he_txids e = ts" "he_subtrees e = unpackHashes (toBytes (fmlookup bins ''subs''))"
      and b: "(if length (toBytes (fmlookup bins ''blk'')) = 32 then [copy_from (toBytes (fmlookup bins ''blk''))] else []) = bs"
      by (simp_all add: read_entry_def ts bs_def comp_def)
    have t: "filter (\<lambda>tb. length tb = 32) (map (\<lambda>v. toBytes (Some v)) (toList (fmlookup bins ''txids''))) = map slice (he_txids e)"
      by (simp add: ts f comp_def filter_map)
    show ?thesis using Some
      by (simp add: aero_PruneIndexAtHeight_def bindM_def aero_key_eval cluster_eval assms(1) del_block b Let_def
          t f(2) [symmetric] del_hashes m3_def [symmetric] del_eval tryM_def ret_def h3 ph del: not_None_eq)
  qed
  have flat: "so_PruneIndexAtHeight flat_ops h ?a =
      (?a\<lparr>fs_blocks := fs_blocks ?a |` (- set bs), fs_subtree := fs_subtree ?a |` (- set (he_subtrees e)),
          fs_txindex := fs_txindex ?a |` (- set (he_txids e)), fs_hdr := (fs_hdr ?a)(h := None), fs_hidx := (fs_hidx ?a)(h := None)\<rparr>,
       Inr (present (fs_blocks ?a) bs + present (fs_subtree ?a) (he_subtrees e) + present (fs_txindex ?a) (he_txids e) + present (fs_hdr ?a) [h]))"
    by (simp only: flat_ops_def store_ops.select_convs flat_PruneIndexAtHeight_def Let_def e_def [symmetric] bs_def [symmetric])
  show ?thesis
    unfolding sim_at_def run flat
    using assms a3 i3 by (simp add: abs_upd idx_upd Let_def aero_inv_def bins_of_def)
qed

section \<open>The adapter implements the reference store\<close>

text \<open>
  The calls on which the adapter is used as intended: an output that is marked spent is not written or spent
  again before it is reopened or deleted, and a transaction is stored as mined only when it is not stored yet.
\<close>

fun orderly :: "FlatStore \<Rightarrow> store_call \<Rightarrow> bool" where
  "orderly a (CPutTxIndex txid ix) = (\<not> ti_Mined ix \<or> fs_txindex a txid = None)"
| "orderly a (CPutUTXO op u) = (\<not> spent (fs_utxo a op))"
| "orderly a (CSpendUTXO op by h) = (\<not> spent (fs_utxo a op))"
| "orderly a _ = True"

fun orderly_run :: "FlatStore \<Rightarrow> store_call list \<Rightarrow> bool" where
  "orderly_run a [] = True"
| "orderly_run a (c # cs) = (orderly a c \<and> orderly_run (fst (perform flat_ops c a)) cs)"

lemma perform_aero:
  assumes "clustered st" and "aero_inv st m" and "orderly (aero_abs st m) c"
  shows "sim_at st m (perform (aero_ops st) c) (perform flat_ops c)"
  using assms
  by (cases c) (simp_all add: aero_ops_def sim_at_answering sim_put_txindex sim_put_utxo sim_spend sim_unspend sim_delete
      sim_prune_spent sim_put_block sim_prune_index sim_records)

lemma run_aero:
  assumes "clustered st" and "aero_inv st m" and "orderly_run (aero_abs st m) cs"
  shows "aero_inv st (fst (run_calls (aero_ops st) cs m)) \<and>
    run_calls flat_ops cs (aero_abs st m) = (aero_abs st (fst (run_calls (aero_ops st) cs m)), snd (run_calls (aero_ops st) cs m))"
  using assms(2,3)
proof (induction cs arbitrary: m)
  case (Cons c cs)
  obtain m1 r where p: "perform (aero_ops st) c m = (m1, r)" by (metis prod.exhaust)
  obtain m2 rs where q: "run_calls (aero_ops st) cs m1 = (m2, rs)" by (metis prod.exhaust)
  have "aero_inv st m1" "perform flat_ops c (aero_abs st m) = (aero_abs st m1, r)"
    using perform_aero [OF assms(1) Cons.prems(1), of c] Cons.prems(2) p by (simp_all add: sim_at_def)
  then show ?case using Cons.IH [of m1] Cons.prems(2) by (simp add: p q)
qed simp

section \<open>Any client that behaves as a record store\<close>

lemma client_sims:
  assumes "client_ok cl view miss nolist"
  shows "implements (\<lambda>_. True) view (ac_Put cl k b) (ac_Put (cluster (ac_NewKey cl) miss nolist) k b)"
    and "implements (\<lambda>_. True) view (ac_Get cl k) (ac_Get (cluster (ac_NewKey cl) miss nolist) k)"
    and "implements (\<lambda>_. True) view (ac_Delete cl k) (ac_Delete (cluster (ac_NewKey cl) miss nolist) k)"
    and "implements (\<lambda>_. True) view (ac_ListAppend cl k bin v) (ac_ListAppend (cluster (ac_NewKey cl) miss nolist) k bin v)"
    and "implements (\<lambda>_. True) view (ac_ListRemoveByValue cl k bin v) (ac_ListRemoveByValue (cluster (ac_NewKey cl) miss nolist) k bin v)"
  using assms by (simp_all add: client_ok_def Let_def)

definition on_cluster :: "('w, 'k) AeroStore \<Rightarrow> go_error + BinMap option \<Rightarrow> go_error + unit \<Rightarrow> ('k \<rightharpoonup> BinMap, 'k) AeroStore" where
  "on_cluster st miss nolist = \<lparr>as_client = cluster (ac_NewKey (as_client st)) miss nolist, as_ns = as_ns st\<rparr>"

lemma on_cluster_key: "ac_NewKey (as_client (on_cluster st miss nolist)) = ac_NewKey (as_client st)" "as_ns (on_cluster st miss nolist) = as_ns st"
  by (simp_all add: on_cluster_def cluster_def)

lemmas aero_defs = aero_PutTxIndex_def indexHeightTx_def aero_GetTxIndex_def aero_indexSpent_def aero_deindexSpent_def aero_PutUTXO_def
  aero_GetUTXO_def aero_SpendUTXO_def aero_UnspendUTXO_def aero_DeleteUTXO_def aero_DeleteTxIndex_def aero_PruneSpentAtHeight_def
  aero_PutSubtree_def aero_GetSubtree_def indexHeightBlock_def aero_PutBlock_def aero_GetBlock_def aero_PutHeader_def aero_GetHeader_def
  aero_PruneIndexAtHeight_def aero_key_def

lemma del_sims:
  assumes "client_ok (as_client st) view miss nolist"
  shows "implements (\<lambda>_. True) view (aero_del st tbl k n) (aero_del (on_cluster st miss nolist) tbl k n)"
    and "implements (\<lambda>_. True) view (aero_del_all st tbl ks n) (aero_del_all (on_cluster st miss nolist) tbl ks n)"
proof -
  show d: "implements (\<lambda>_. True) view (aero_del st tbl k n) (aero_del (on_cluster st miss nolist) tbl k n)" for k n
    unfolding aero_del_def on_cluster_key
    by (intro sim_intros) (simp add: on_cluster_def client_sims [OF assms])
  show "implements (\<lambda>_. True) view (aero_del_all st tbl ks n) (aero_del_all (on_cluster st miss nolist) tbl ks n)"
    by (induction ks arbitrary: n) (auto intro!: sim_intros d)
qed

lemma perform_lift:
  assumes "client_ok (as_client st) view miss nolist"
  shows "implements (\<lambda>_. True) view (perform (aero_ops st) c) (perform (aero_ops (on_cluster st miss nolist)) c)"
  by (cases c)
    (simp_all only: perform.simps aero_ops_def store_ops.select_convs answering_def aero_defs on_cluster_key,
     (intro sim_intros del_sims [OF assms]; simp add: on_cluster_def client_sims [OF assms])+)


lemma run_lift:
  assumes "client_ok (as_client st) view miss nolist"
  shows "snd (run_calls (aero_ops st) cs w) = snd (run_calls (aero_ops (on_cluster st miss nolist)) cs (view w))"
proof (induction cs arbitrary: w)
  case (Cons c cs)
  obtain w1 r where p: "perform (aero_ops st) c w = (w1, r)" by (metis prod.exhaust)
  have "perform (aero_ops (on_cluster st miss nolist)) c (view w) = (view w1, r)"
    by (rule implementsD(2) [OF perform_lift [OF assms] _ p]) simp
  then show ?case using Cons.IH [of w1] by (auto simp: p split: prod.splits)
qed simp

lemma clustered_on: "keys_ok st \<Longrightarrow> clustered (on_cluster st (Inr None) nolist)"
  by (auto simp: clustered_def keys_ok_def on_cluster_key) (auto simp: on_cluster_def cluster_def)

lemma aero_empty: "aero_abs st Map.empty = emptyFlat" "aero_inv st Map.empty"
  by (simp_all add: aero_abs_def emptyFlat_def aero_inv_def spent_idx_def tx_idx_def bins_of_def index_ok_def spent_set_def spent_at_def)

lemma aero_run_flat:
  assumes "keys_ok st" and "client_ok (as_client st) view (Inr None) nolist" and "view w = Map.empty" and "orderly_run emptyFlat cs"
  shows "snd (run_calls (aero_ops st) cs w) = snd (run_calls flat_ops cs emptyFlat)"
  using run_aero [OF clustered_on [OF assms(1), of nolist], of Map.empty cs] assms(3,4) run_lift [OF assms(2), of cs w]
  by (simp add: aero_empty)


definition ex_aero :: "(string \<times> bytes \<rightharpoonup> BinMap, string \<times> bytes) AeroStore" where
  "ex_aero = \<lparr>as_client = cluster (\<lambda>ns tbl k. Inr (tbl, k)) (Inr None) (Inl (ErrBackend 0)), as_ns = ''test''\<rparr>"

definition ex_out :: "byte \<Rightarrow> Outpoint" where
  "ex_out b = \<lparr>op_TxID = copy_from [b], op_Vout = 0\<rparr>"

definition ex_coin :: UTXO where
  "ex_coin = \<lparr>u_Value = 500, u_ScriptHash = copy_from [], u_Spent = False, u_SpentBy = copy_from [], u_SpentHeight = 0\<rparr>"

definition ex_calls :: "store_call list" where
  "ex_calls = [CPutUTXO (ex_out 1) ex_coin, CPutUTXO (ex_out 2) ex_coin, CSpendUTXO (ex_out 1) (copy_from [9]) 100,
     CSpendUTXO (ex_out 2) (copy_from [9]) 101, CPruneSpentAtHeight 100, CGetUTXO (ex_out 1), CGetUTXO (ex_out 2)]"

lemma client_ok_self: "client_ok (cluster nk miss nolist) id miss nolist"
  by (simp add: client_ok_def implements_def Let_def cluster_def)


section \<open>Outside orderly use\<close>

text \<open>
  The sweep deletes whatever the height's list names and does not look at the record again: an output spent twice
  is listed at both heights, and pruning the first evicts it although its record says it was spent at the
  second. The memory backend keeps it.
\<close>

lemma respend_evicted:
  fixes op :: Outpoint and a b :: hash
  assumes "clustered st" and "h1 \<noteq> h2" and "\<not> u_Spent u"
  defines "cs \<equiv> [CPutUTXO op u, CSpendUTXO op a h1, CSpendUTXO op b h2, CPruneSpentAtHeight h1, CGetUTXO op]"
  shows "last (snd (run_calls (aero_ops st) cs Map.empty)) = Inr (AUTXO None)"
    and "last (snd (run_calls mem_ops cs New)) = Inr (AUTXO (Some (spend b h2 u)))"
proof -
  show "last (snd (run_calls (aero_ops st) cs Map.empty)) = Inr (AUTXO None)"
    using assms(1-3)
    by (simp add: cs_def answering_def aero_ops_def aero_PutUTXO_def aero_SpendUTXO_def aero_GetUTXO_def aero_indexSpent_def
        aero_PruneSpentAtHeight_def aero_eval del_eval bins_of_def)
  have "snd (run_calls mem_ops cs New) = snd (run_calls flat_ops cs emptyFlat)" using mem_run [of cs] by simp
  then show "last (snd (run_calls mem_ops cs New)) = Inr (AUTXO (Some (spend b h2 u)))"
    using assms(2,3)
    by (simp add: cs_def answering_def bindM_def ret_def flat_ops_def flat_SpendUTXO_def flat_PruneSpentAtHeight_def emptyFlat_def spend_def spent_at_def)
qed

text \<open>
  With a client that reports an absent record as an error, the lookups of the adapter fail instead of
  answering "not found", and a sweep of a height without spends fails.
\<close>

lemma absent_record_error:
  assumes "client_ok (as_client st) view (Inl e) nolist" and "ac_NewKey (as_client st) (as_ns st) tbl k = Inr x" and "view w x = None"
  shows "tbl = setTxIndex \<Longrightarrow> k = slice txid \<Longrightarrow> snd (aero_GetTxIndex st txid w) = Inl e"
    and "tbl = setUTXO \<Longrightarrow> k = outpointKey op \<Longrightarrow> snd (aero_SpendUTXO st op by h w) = Inl e"
    and "tbl = setSpentIdx \<Longrightarrow> k = be32 h \<Longrightarrow> snd (aero_PruneSpentAtHeight st h w) = Inl e"
proof -
  have "(case view w x of None \<Rightarrow> Inl e | Some b \<Rightarrow> Inr (Some b)) = snd (ac_Get (as_client st) x w)"
    using client_sims(2) [OF assms(1), of x] by (simp add: implements_def cluster_def)
  then have "snd (ac_Get (as_client st) x w) = Inl e" using assms(3) by simp
  then obtain w' where "ac_Get (as_client st) x w = (w', Inl e)" by (metis prod.collapse)
  then show "tbl = setTxIndex \<Longrightarrow> k = slice txid \<Longrightarrow> snd (aero_GetTxIndex st txid w) = Inl e"
    "tbl = setUTXO \<Longrightarrow> k = outpointKey op \<Longrightarrow> snd (aero_SpendUTXO st op by h w) = Inl e"
    "tbl = setSpentIdx \<Longrightarrow> k = be32 h \<Longrightarrow> snd (aero_PruneSpentAtHeight st h w) = Inl e"
    using assms(2) by (simp_all add: aero_GetTxIndex_def aero_SpendUTXO_def aero_GetUTXO_def aero_PruneSpentAtHeight_def aero_key_def liftE_def bindM_def)
qed

end
