(* ===== verification/Conformance.thy ===== *)
theory Conformance
  imports Aerospike Commitment
begin

text \<open>
  \<^verbatim>\<open>store/storetest/storetest.go\<close>: the conformance suite that every backend runs. A test is the sequence of its
  interface calls, each with the check the code makes of the result (\<open>anything\<close> where it makes none); it
  passes when no check calls \<^verbatim>\<open>t.Fatal\<close>. Both backends pass it, the memory store outright and the Aerospike
  adapter over any client that behaves as a record store, unless two of the labels collide under SHA-256d.
\<close>

section \<open>Checks\<close>

type_synonym outcome = "go_error + store_answer"

definition hsh :: "byte \<Rightarrow> hash" where
  "hsh b = DoubleSHA256 [b]"

definition anything :: "outcome \<Rightarrow> bool" where
  "anything r = True"

definition no_error :: "outcome \<Rightarrow> bool" where
  "no_error r = (\<not> isl r)"

text \<open>The \<^verbatim>\<open>ok\<close> result, false next to an error, and the count, 0 next to an error.\<close>

definition ok_flag :: "outcome \<Rightarrow> bool" where
  "ok_flag r =
     (case r of Inl _ \<Rightarrow> False
      | Inr a \<Rightarrow> (case a of ATxIndex x \<Rightarrow> x \<noteq> None | AUTXO x \<Rightarrow> x \<noteq> None | AFound b \<Rightarrow> b | ASubtree x \<Rightarrow> x \<noteq> None
                 | ABlock x \<Rightarrow> x \<noteq> None | AHeader x \<Rightarrow> x \<noteq> None | _ \<Rightarrow> False))"

definition not_ok :: "outcome \<Rightarrow> bool" where
  "not_ok r = (\<not> ok_flag r)"

definition counted :: "nat \<Rightarrow> outcome \<Rightarrow> bool" where
  "counted n r = ((case r of Inr (ACount k) \<Rightarrow> k | _ \<Rightarrow> 0) = n)"

definition utxo_is :: "(UTXO \<Rightarrow> bool) \<Rightarrow> outcome \<Rightarrow> bool" where
  "utxo_is p r = (case r of Inr (AUTXO (Some u)) \<Rightarrow> p u | _ \<Rightarrow> False)"

section \<open>The suite\<close>

type_synonym test = "(store_call \<times> (outcome \<Rightarrow> bool)) list"

definition zeroTxIndex :: TxIndex where
  "zeroTxIndex = \<lparr>ti_Mined = False, ti_BlockHash = copy_from [], ti_Height = 0, ti_BlockTime = 0, ti_SubtreeIndex = 0,
     ti_LeafIndex = 0, ti_SeenTime = 0\<rparr>"

definition mined_at :: "uint32 \<Rightarrow> hash \<Rightarrow> TxIndex" where
  "mined_at height blk = zeroTxIndex\<lparr>ti_Mined := True, ti_Height := height, ti_BlockHash := blk\<rparr>"

definition coin :: "uint64 \<Rightarrow> hash \<Rightarrow> UTXO" where
  "coin v sh = \<lparr>u_Value = v, u_ScriptHash = sh, u_Spent = False, u_SpentBy = copy_from [], u_SpentHeight = 0\<rparr>"

definition outp :: "byte \<Rightarrow> uint32 \<Rightarrow> Outpoint" where
  "outp b vout = \<lparr>op_TxID = hsh b, op_Vout = vout\<rparr>"

definition testPruneIndex :: test where
  "testPruneIndex =
     [(CPutSubtree (hsh 70) [hsh 71, hsh 72], anything),
      (CPutBlock \<lparr>br_Hash = hsh 73, br_Height = 7, br_Time = 0, br_MerkleRoot = hsh 74, br_SubtreeRoots = [hsh 70],
                  br_Header = copy_from []\<rparr>, anything),
      (CPutHeader 7 (copy_from []), anything),
      (CPutTxIndex (hsh 71) (mined_at 7 (hsh 73)), anything),
      (CPutTxIndex (hsh 72) (mined_at 7 (hsh 73)), anything),
      (CPutBlock \<lparr>br_Hash = hsh 80, br_Height = 8, br_Time = 0, br_MerkleRoot = copy_from [], br_SubtreeRoots = [],
                  br_Header = copy_from []\<rparr>, anything),
      (CPutTxIndex (hsh 81) (mined_at 8 (hsh 80)), anything),
      (CPruneIndexAtHeight 7, \<lambda>r. no_error r \<and> counted 5 r),
      (CGetBlock (hsh 73), not_ok), (CGetSubtree (hsh 70), not_ok), (CGetTxIndex (hsh 71), not_ok), (CGetHeader 7, not_ok),
      (CGetTxIndex (hsh 81), ok_flag)]"

definition testTxIndex :: test where
  "testTxIndex =
     (let want = (mined_at 42 (hsh 9))\<lparr>ti_SubtreeIndex := 1, ti_LeafIndex := 7\<rparr>
      in [(CGetTxIndex (hsh 1), not_ok),
          (CPutTxIndex (hsh 1) want, no_error),
          (CGetTxIndex (hsh 1), \<lambda>r. case r of
             Inr (ATxIndex (Some got)) \<Rightarrow> ti_Height got = 42 \<and> ti_SubtreeIndex got = 1 \<and> ti_LeafIndex got = 7 \<and>
               ti_BlockHash got = ti_BlockHash want
           | _ \<Rightarrow> False)])"

definition testUTXO :: test where
  "testUTXO =
     [(CPutUTXO (outp 2 3) (coin 500 (hsh 8)), no_error),
      (CGetUTXO (outp 2 3), utxo_is (\<lambda>u. u_Value u = 500 \<and> \<not> u_Spent u)),
      (CSpendUTXO (outp 2 3) (hsh 3) 100, ok_flag),
      (CGetUTXO (outp 2 3), utxo_is (\<lambda>u. u_Spent u \<and> u_SpentHeight u = 100 \<and> u_SpentBy u = hsh 3)),
      (CUnspendUTXO (outp 2 3), ok_flag),
      (CGetUTXO (outp 2 3), \<lambda>r. \<not> utxo_is u_Spent r),
      (CSpendUTXO (outp 99 0) (hsh 3) 1, not_ok)]"

definition testPrune :: test where
  "testPrune =
     [(CPutUTXO (outp 10 0) (coin 1 (copy_from [])), anything), (CPutUTXO (outp 11 0) (coin 1 (copy_from [])), anything),
      (CSpendUTXO (outp 10 0) (hsh 20) 100, anything), (CSpendUTXO (outp 11 0) (hsh 21) 101, anything),
      (CPruneSpentAtHeight 99, counted 0), (CPruneSpentAtHeight 100, counted 1),
      (CGetUTXO (outp 10 0), not_ok), (CGetUTXO (outp 11 0), ok_flag),
      (CPutUTXO (outp 12 0) (coin 1 (copy_from [])), anything), (CPruneSpentAtHeight 101, counted 1),
      (CGetUTXO (outp 12 0), ok_flag)]"

definition testDeletes :: test where
  "testDeletes =
     [(CPutUTXO (outp 30 1) (coin 9 (copy_from [])), anything),
      (CPutTxIndex (hsh 30) (zeroTxIndex\<lparr>ti_Mined := True, ti_Height := 5\<rparr>), anything),
      (CDeleteUTXO (outp 30 1), ok_flag), (CGetUTXO (outp 30 1), not_ok),
      (CDeleteTxIndex (hsh 30), ok_flag), (CGetTxIndex (hsh 30), not_ok),
      (CPutUTXO (outp 31 0) (coin 1 (copy_from [])), anything), (CSpendUTXO (outp 31 0) (hsh 40) 200, anything),
      (CDeleteUTXO (outp 31 0), anything), (CPruneSpentAtHeight 200, counted 0)]"

definition testSubtreeBlockHeader :: test where
  "testSubtreeBlockHeader =
     [(CPutSubtree (hsh 50) [hsh 51, hsh 52, hsh 53], no_error),
      (CGetSubtree (hsh 50), \<lambda>r. case r of Inr (ASubtree (Some got)) \<Rightarrow> length got = 3 \<and> got ! 1 = hsh 52 | _ \<Rightarrow> False),
      (CPutBlock \<lparr>br_Hash = hsh 60, br_Height = 7, br_Time = 123, br_MerkleRoot = hsh 61, br_SubtreeRoots = [hsh 50],
                  br_Header = copy_from [0xAB]\<rparr>, no_error),
      (CGetBlock (hsh 60), \<lambda>r. case r of
         Inr (ABlock (Some gb)) \<Rightarrow> br_Height gb = 7 \<and> br_MerkleRoot gb = hsh 61 \<and> length (br_SubtreeRoots gb) = 1 \<and>
           slice (br_Header gb) ! 0 = 0xAB
       | _ \<Rightarrow> False),
      (CPutHeader 7 (copy_from [0, 0, 0, 0, 0, 0xCD]), no_error),
      (CGetHeader 7, \<lambda>r. case r of Inr (AHeader (Some gh)) \<Rightarrow> slice gh ! 5 = 0xCD | _ \<Rightarrow> False)]"

definition RunSuite :: "test list" where
  "RunSuite = [testTxIndex, testUTXO, testPrune, testDeletes, testSubtreeBlockHeader, testPruneIndex]"

text \<open>A test on a fresh store: the checks against the answers, in order.\<close>

definition passes :: "'s store_ops \<Rightarrow> 's \<Rightarrow> test \<Rightarrow> bool" where
  "passes ops s t = list_all2 (\<lambda>(_, check) r. check r) t (snd (run_calls ops (map fst t) s))"

section \<open>Both backends pass\<close>

definition label_collision :: bool where
  "label_collision \<longleftrightarrow> (\<exists>a b. a \<noteq> b \<and> hsh a = hsh b)"

lemma hsh_eq: "\<not> label_collision \<Longrightarrow> hsh a = hsh b \<longleftrightarrow> a = b"
  by (auto simp: label_collision_def)

lemmas flat_run = passes_def answering_def bindM_def ret_def flat_defs emptyFlat_def spend_def unspend_def spent_at_def
  anything_def no_error_def ok_flag_def not_ok_def counted_def utxo_is_def mined_at_def zeroTxIndex_def coin_def outp_def

lemma flat_passes:
  assumes "\<not> label_collision"
  shows "passes flat_ops emptyFlat testTxIndex" "passes flat_ops emptyFlat testUTXO"
    "passes flat_ops emptyFlat testSubtreeBlockHeader"
  by (simp_all add: flat_run testTxIndex_def testUTXO_def testSubtreeBlockHeader_def Let_def hsh_eq [OF assms] slice_copy_from)

lemma flat_passes_deletes:
  assumes "\<not> label_collision"
  shows "passes flat_ops emptyFlat testDeletes"
  by (simp add: flat_run testDeletes_def hsh_eq [OF assms])

lemma flat_passes_prune:
  assumes "\<not> label_collision"
  shows "passes flat_ops emptyFlat testPrune"
proof -
  have "{op. op \<noteq> \<lparr>op_TxID = hsh 10, op_Vout = 0\<rparr> \<and> (op \<noteq> \<lparr>op_TxID = hsh 10, op_Vout = 0\<rparr> \<longrightarrow> op = \<lparr>op_TxID = hsh 11, op_Vout = 0\<rparr>)} =
      {\<lparr>op_TxID = hsh 11, op_Vout = 0\<rparr>}" by (auto simp: hsh_eq [OF assms])
  then show ?thesis by (simp add: flat_run testPrune_def hsh_eq [OF assms])
qed

lemma present_all: "set ks \<subseteq> dom m \<Longrightarrow> distinct ks \<Longrightarrow> present m ks = length ks"
  by (simp add: present_def Int_absorb2 distinct_card)

lemma flat_passes_index:
  assumes "\<not> label_collision"
  shows "passes flat_ops emptyFlat testPruneIndex"
  by (simp add: flat_run testPruneIndex_def hsh_eq [OF assms] entry_of_def add_txid_def set_block_def emptyEntry_def)
    (subst present_all; simp add: hsh_eq [OF assms])

lemma suite_orderly:
  assumes "\<not> label_collision"
  shows "orderly_run emptyFlat (map fst testTxIndex)" "orderly_run emptyFlat (map fst testUTXO)"
    "orderly_run emptyFlat (map fst testPrune)" "orderly_run emptyFlat (map fst testDeletes)"
    "orderly_run emptyFlat (map fst testSubtreeBlockHeader)" "orderly_run emptyFlat (map fst testPruneIndex)"
  by (simp_all add: testTxIndex_def testUTXO_def testPrune_def testDeletes_def testSubtreeBlockHeader_def testPruneIndex_def
      flat_run hsh_eq [OF assms] Let_def)

text \<open>
  Both backends conform: unless two labels of the suite collide under SHA-256d, the memory store passes
  every test, and so does the Aerospike adapter over any client that behaves as a record store.
\<close>

theorem conformance_suite_passes:
  assumes "keys_ok st" and "client_ok (as_client st) view (Inr None) nolist" and "view w = Map.empty"
  shows "label_collision \<or> list_all (passes mem_ops New) RunSuite \<and> list_all (passes (aero_ops st) w) RunSuite"
proof (cases label_collision)
  case False
  have flat: "list_all (passes flat_ops emptyFlat) RunSuite"
    using flat_passes [OF False] flat_passes_deletes [OF False] flat_passes_prune [OF False] flat_passes_index [OF False]
    by (simp add: RunSuite_def)
  have "passes mem_ops New t = passes flat_ops emptyFlat t" for t using mem_run [of "map fst t"] by (simp add: passes_def)
  then have "list_all (passes mem_ops New) RunSuite" using flat by (simp add: list_all_iff)
  moreover have "list_all (passes (aero_ops st) w) RunSuite"
    using flat suite_orderly [OF False] aero_run_flat [OF assms] by (simp add: passes_def RunSuite_def)
  ultimately show ?thesis by simp
qed simp

theorem conformance_suite_passes_witness:
  "label_collision \<or> list_all (passes mem_ops New) RunSuite \<and> list_all (passes (aero_ops ex_aero) Map.empty) RunSuite"
proof -
  have "keys_ok ex_aero" "client_ok (as_client ex_aero) id (Inr None) (Inl (ErrBackend 0))"
    by (simp add: keys_ok_def ex_aero_def cluster_def, simp add: ex_aero_def client_ok_self)
  then show ?thesis using conformance_suite_passes [of ex_aero id "Inl (ErrBackend 0)" Map.empty] by simp
qed

end
