(* ===== verification/Testnet.thy ===== *)
theory Testnet
  imports Address Httpsource
begin

text \<open>
  \<^verbatim>\<open>cmd/channeltestnet/main.go\<close>: the command that builds and broadcasts the transactions of a payment
  channel. A run of the command passes along the state of the network and the lines printed so far; it
  ends with a value or, as \<open>Inl code\<close>, with an exit status (a panic has status 2), and \<open>None\<close> is a nonce search that does
  not end. The explorer is the parameter \<open>Explorer\<close>; flags are parsed values, printed lines are the
  values they show.
\<close>

section \<open>Runs of the command\<close>

record utxoRef =
  ur_TxID :: string
  ur_Vout :: uint32
  ur_UValue :: uint64
  ur_Height :: uint32

datatype Line =
    LError string
  | LAddress bytes string string string
  | LUTXOs bytes nat | LUTXO utxoRef
  | LStatus string int int
  | LUsing string uint32 uint64
  | LTx string string string | LNotBroadcast | LBroadcastOK string
  | LUseForSettle string uint64
  | LRefund uint32 string string

type_synonym ('w, 'a) cmd = "'w \<times> Line list \<Rightarrow> (('w \<times> Line list) \<times> (nat + 'a)) option"

definition cret :: "'a \<Rightarrow> ('w, 'a) cmd" where
  "cret x s = Some (s, Inr x)"

definition cbind :: "('w, 'a) cmd \<Rightarrow> ('a \<Rightarrow> ('w, 'b) cmd) \<Rightarrow> ('w, 'b) cmd" where
  "cbind m f s =
     (case m s of None \<Rightarrow> None
      | Some (s', Inl code) \<Rightarrow> Some (s', Inl code)
      | Some (s', Inr x) \<Rightarrow> f x s')"

definition say :: "Line \<Rightarrow> ('w, unit) cmd" where
  "say l = (\<lambda>(w, out). Some ((w, out @ [l]), Inr ()))"

definition exit_with :: "nat \<Rightarrow> ('w, 'a) cmd" where
  "exit_with code s = Some (s, Inl code)"

text \<open>\<^verbatim>\<open>fmt.Println(msg); os.Exit(code)\<close>.\<close>

definition fail :: "string \<Rightarrow> nat \<Rightarrow> ('w, 'a) cmd" where
  "fail msg code = cbind (say (LError msg)) (\<lambda>_. exit_with code)"

definition online :: "('w \<Rightarrow> 'w \<times> 'a) \<Rightarrow> ('w, 'a) cmd" where
  "online f = (\<lambda>(w, out). case f w of (w', x) \<Rightarrow> Some ((w', out), Inr x))"

definition or_panic :: "go_error + 'a \<Rightarrow> ('w, 'a) cmd" where
  "or_panic r = (case r of Inl _ \<Rightarrow> exit_with 2 | Inr x \<Rightarrow> cret x)"

text \<open>A signature whose error is dropped: the slice is then nil.\<close>

definition signature_of :: "(go_error + bytes) option \<Rightarrow> ('w, bytes) cmd" where
  "signature_of r s = map_option (\<lambda>x. (s, Inr (case x of Inl _ \<Rightarrow> [] | Inr b \<Rightarrow> b))) r"

section \<open>Keys and identifiers\<close>

definition mustKey :: "string \<Rightarrow> ('w, PrivateKey) cmd" where
  "mustKey seedHex =
     (case hex_DecodeString seedHex of
        None \<Rightarrow> fail ''error: seed must be 32-byte hex'' 2
      | Some b \<Rightarrow> if length b \<noteq> 32 then fail ''error: seed must be 32-byte hex'' 2 else cret (NewPrivateKey b))"

definition rev_id :: "hash \<Rightarrow> bytes" where
  "rev_id h = rev (slice h)"

text \<open>The bytes that \<^verbatim>\<open>hex.DecodeString\<close> returns next to an error: those decoded before it.\<close>

fun hex_prefix :: "string \<Rightarrow> bytes" where
  "hex_prefix (a # b # s) =
     (case (fromHexChar a, fromHexChar b) of (Some x, Some y) \<Rightarrow> of_nat (16 * x + y) # hex_prefix s | _ \<Rightarrow> [])"
| "hex_prefix _ = []"

definition dispToInternal :: "string \<Rightarrow> hash" where
  "dispToInternal s = copy_from (rev (hex_prefix s))"

section \<open>Transactions\<close>

definition buildFunding ::
  "PrivateKey \<Rightarrow> bytes \<Rightarrow> bytes \<Rightarrow> string \<Rightarrow> uint32 \<Rightarrow> uint64 \<Rightarrow> uint64 \<Rightarrow> uint64 \<Rightarrow> ('w, BTx) cmd" where
  "buildFunding clientPriv clientPub serverPub utxoTxid vout utxoValue deposit fee s =
     (let change = utxoValue - deposit - fee;
          i = \<lparr>ti_PrevOut = \<lparr>po_Hash = dispToInternal utxoTxid, po_Index = vout\<rparr>, ti_ScriptSig = [], ti_Sequence = FinalSequence\<rparr>;
          tx = \<lparr>bt_Version = 2, bt_Inputs = [i],
                bt_Outputs = [\<lparr>bo_Value = deposit, bo_ScriptPubKey = Multisig2of2 clientPub serverPub\<rparr>,
                              \<lparr>bo_Value = change, bo_ScriptPubKey = P2PKHFromPub clientPub\<rparr>],
                bt_LockTime = 0\<rparr>
      in case SignInput (Some clientPriv) tx 0 (P2PKHFromPub clientPub) utxoValue SighashAllFork of
           None \<Rightarrow> None
         | Some (Inl _) \<Rightarrow> fail ''sign funding'' 1 s
         | Some (Inr sig) \<Rightarrow> cret (tx\<lparr>bt_Inputs := [i\<lparr>ti_ScriptSig := ScriptSigP2PKH sig clientPub\<rparr>]\<rparr>) s)"

definition testnet_channelTx :: "string \<Rightarrow> uint32 \<Rightarrow> uint64 \<Rightarrow> bytes \<Rightarrow> bytes \<Rightarrow> uint64 \<Rightarrow> ChannelTx" where
  "testnet_channelTx fundingTxidDisp vout amt clientPub serverPub fee =
     \<lparr>ct_FundingOut = \<lparr>po_Hash = dispToInternal fundingTxidDisp, po_Index = vout\<rparr>, ct_FundingValue = amt,
      ct_ClientPub = clientPub, ct_ServerPub = serverPub, ct_Fee = fee\<rparr>"

definition sign_both :: "ChannelTx \<Rightarrow> PrivateKey \<Rightarrow> PrivateKey \<Rightarrow> BTx \<Rightarrow> ('w, BTx) cmd" where
  "sign_both c clientPriv serverPriv tx =
     cbind (signature_of (SignInput (Some clientPriv) tx 0 (Redeem c) (ct_FundingValue c) SighashAllFork)) (\<lambda>clientSig.
     cbind (signature_of (SignInput (Some serverPriv) tx 0 (Redeem c) (ct_FundingValue c) SighashAllFork)) (\<lambda>serverSig.
     or_panic (Finalize2of2 tx clientSig serverSig)))"

definition buildSettlement :: "ChannelTx \<Rightarrow> PrivateKey \<Rightarrow> PrivateKey \<Rightarrow> uint64 \<Rightarrow> ('w, BTx) cmd" where
  "buildSettlement c clientPriv serverPriv pay =
     (case CommitmentTx c pay of Inl _ \<Rightarrow> fail ''commitment'' 1 | Inr tx \<Rightarrow> sign_both c clientPriv serverPriv tx)"

definition buildRefund :: "ChannelTx \<Rightarrow> PrivateKey \<Rightarrow> PrivateKey \<Rightarrow> uint32 \<Rightarrow> ('w, BTx) cmd" where
  "buildRefund c clientPriv serverPriv lockTime = sign_both c clientPriv serverPriv (RefundTx c lockTime)"

section \<open>The explorer\<close>

record jsonUnspent =
  un_height :: uint32
  un_tx_pos :: uint32
  un_tx_hash :: string
  un_value :: uint64

record jsonStatus =
  ju_confirmations :: int
  ju_blockheight :: int

record 'w Explorer =
  ex_unspent :: "bytes \<Rightarrow> 'w \<Rightarrow> 'w \<times> jsonUnspent list HttpReply"
  ex_status :: "string \<Rightarrow> 'w \<Rightarrow> 'w \<times> jsonStatus HttpReply"
  ex_broadcast :: "string \<Rightarrow> 'w \<Rightarrow> 'w \<times> string HttpReply"

definition getJSON_once :: "('w \<Rightarrow> 'w \<times> 'j HttpReply) \<Rightarrow> ('w, 'j) gom" where
  "getJSON_once get w =
     (case get w of
        (w', Reply code body) \<Rightarrow>
          (w', if code \<noteq> 200 then Inl (ErrStatus code) else case body of None \<Rightarrow> Inl ErrJSON | Some j \<Rightarrow> Inr j)
      | (w', BadURL) \<Rightarrow> (w', Inl ErrMalformedURL)
      | (w', NetError) \<Rightarrow> (w', Inl ErrNetwork))"

definition fetchUTXOs :: "'w Explorer \<Rightarrow> bytes \<Rightarrow> ('w, utxoRef list) gom" where
  "fetchUTXOs e addr =
     bindM (getJSON_once (ex_unspent e addr)) (\<lambda>raw.
     ret (map (\<lambda>r. \<lparr>ur_TxID = un_tx_hash r, ur_Vout = un_tx_pos r, ur_UValue = un_value r, ur_Height = un_height r\<rparr>) raw))"

definition zeroRef :: utxoRef where
  "zeroRef = \<lparr>ur_TxID = [], ur_Vout = 0, ur_UValue = 0, ur_Height = 0\<rparr>"

fun pick_best :: "uint64 \<Rightarrow> utxoRef list \<Rightarrow> utxoRef \<Rightarrow> utxoRef" where
  "pick_best need [] best = best"
| "pick_best need (u # us) best =
     pick_best need us (if need \<le> ur_UValue u \<and> ur_UValue best < ur_UValue u then u else best)"

abbreviation "ErrNoUTXO \<equiv> ErrBackend 7"

definition pickUTXO :: "'w Explorer \<Rightarrow> bytes \<Rightarrow> uint64 \<Rightarrow> ('w, utxoRef) gom" where
  "pickUTXO e addr need =
     bindM (fetchUTXOs e addr) (\<lambda>us.
     let best = pick_best need us zeroRef in if ur_TxID best = [] then throw ErrNoUTXO else ret best)"

definition fetchStatus :: "'w Explorer \<Rightarrow> string \<Rightarrow> ('w, int \<times> int) gom" where
  "fetchStatus e txid = bindM (getJSON_once (ex_status e txid)) (\<lambda>raw. ret (ju_confirmations raw, ju_blockheight raw))"

text \<open>The body is text, cut to 4096 bytes and trimmed of quotes, newlines and blanks; an unreadable one is empty.\<close>

definition trim_body :: "string \<Rightarrow> string" where
  "trim_body b =
     (let cut = dropWhile (\<lambda>c. c \<in> {CHR 0x22, CHR 0x0A, CHR 0x20}) in rev (cut (rev (cut (take 4096 b)))))"

definition postRaw :: "'w Explorer \<Rightarrow> string \<Rightarrow> ('w, string) gom" where
  "postRaw e txhex w =
     (case ex_broadcast e txhex w of
        (w', Reply code body) \<Rightarrow>
          (w', if code \<noteq> 200 then Inl (ErrStatus code) else Inr (trim_body (case body of None \<Rightarrow> [] | Some b \<Rightarrow> b)))
      | (w', BadURL) \<Rightarrow> (w', Inl ErrMalformedURL)
      | (w', NetError) \<Rightarrow> (w', Inl ErrNetwork))"

definition emit :: "'w Explorer \<Rightarrow> string \<Rightarrow> BTx \<Rightarrow> bool \<Rightarrow> ('w, unit) cmd" where
  "emit e label tx broadcast =
     (let raw = hex_EncodeToString (tx_Serialize tx)
      in cbind (say (LTx label (hex_EncodeToString (rev_id (Bsvtx.tx_TxID tx))) raw)) (\<lambda>_.
         if \<not> broadcast then say LNotBroadcast
         else cbind (online (postRaw e raw)) (\<lambda>r.
           case r of Inl _ \<Rightarrow> fail ''BROADCAST FAILED'' 1 | Inr txid \<Rightarrow> say (LBroadcastOK txid))))"

section \<open>The command\<close>

record Flags =
  fl_clientSeed :: string
  fl_serverSeed :: string
  fl_mode :: string
  fl_net :: string
  fl_fee :: uint64
  fl_deposit :: uint64
  fl_utxoTxid :: string
  fl_utxoVout :: uint64
  fl_utxoValue :: uint64
  fl_fundingTxid :: string
  fl_fundingVout :: uint64
  fl_fundingValue :: uint64
  fl_pay :: uint64
  fl_lockTime :: uint64
  fl_statusTxid :: string
  fl_broadcast :: bool

definition mode_utxo :: "'w Explorer \<Rightarrow> bytes \<Rightarrow> ('w, unit) cmd" where
  "mode_utxo e addr =
     cbind (online (fetchUTXOs e addr)) (\<lambda>r.
     case r of Inl _ \<Rightarrow> fail ''utxo fetch failed'' 1
     | Inr us \<Rightarrow>
         cbind (say (LUTXOs addr (length us))) (\<lambda>_. fold (\<lambda>u m. cbind m (\<lambda>_. say (LUTXO u))) us (cret ())))"

definition mode_status :: "'w Explorer \<Rightarrow> Flags \<Rightarrow> ('w, unit) cmd" where
  "mode_status e fl =
     (if fl_statusTxid fl = [] then fail ''error: status needs -txid'' 2
      else cbind (online (fetchStatus e (fl_statusTxid fl))) (\<lambda>r.
        case r of Inl _ \<Rightarrow> fail ''status fetch failed'' 1
        | Inr (conf, height) \<Rightarrow> say (LStatus (fl_statusTxid fl) conf height)))"

definition funding_utxo :: "'w Explorer \<Rightarrow> Flags \<Rightarrow> bytes \<Rightarrow> ('w, string \<times> uint32 \<times> uint64) cmd" where
  "funding_utxo e fl addr =
     (if fl_utxoTxid fl \<noteq> [] then cret (fl_utxoTxid fl, ucast (fl_utxoVout fl), fl_utxoValue fl)
      else cbind (online (pickUTXO e addr (fl_deposit fl + fl_fee fl))) (\<lambda>r.
        case r of Inl _ \<Rightarrow> fail ''auto-fetch UTXO failed'' 1
        | Inr best \<Rightarrow>
            cbind (say (LUsing (ur_TxID best) (ur_Vout best) (ur_UValue best))) (\<lambda>_.
            cret (ur_TxID best, ur_Vout best, ur_UValue best))))"

definition mode_fund :: "'w Explorer \<Rightarrow> Flags \<Rightarrow> bytes \<Rightarrow> PrivateKey \<Rightarrow> bytes \<Rightarrow> bytes \<Rightarrow> ('w, unit) cmd" where
  "mode_fund e fl addr clientPriv clientPub serverPub =
     (if fl_deposit fl = 0 then fail ''error: fund needs -deposit'' 2
      else cbind (funding_utxo e fl addr) (\<lambda>(uTxid, uVout, uValue).
        if uValue < fl_deposit fl + fl_fee fl then fail ''error: UTXO value < deposit+fee'' 2
        else cbind (buildFunding clientPriv clientPub serverPub uTxid uVout uValue (fl_deposit fl) (fl_fee fl)) (\<lambda>tx.
          cbind (emit e ''FUNDING'' tx (fl_broadcast fl)) (\<lambda>_.
          say (LUseForSettle (hex_EncodeToString (rev_id (Bsvtx.tx_TxID tx))) (fl_deposit fl))))))"

definition mode_settle :: "'w Explorer \<Rightarrow> Flags \<Rightarrow> PrivateKey \<Rightarrow> PrivateKey \<Rightarrow> bytes \<Rightarrow> bytes \<Rightarrow> ('w, unit) cmd" where
  "mode_settle e fl clientPriv serverPriv clientPub serverPub =
     (if fl_fundingTxid fl = [] \<or> fl_fundingValue fl = 0
      then fail ''error: settle needs -funding-txid -funding-vout -funding-value -pay'' 2
      else
        let c = testnet_channelTx (fl_fundingTxid fl) (ucast (fl_fundingVout fl)) (fl_fundingValue fl) clientPub serverPub (fl_fee fl);
            lt = ucast (fl_lockTime fl)
        in cbind (buildSettlement c clientPriv serverPriv (fl_pay fl)) (\<lambda>settle.
           cbind (emit e ''SETTLEMENT'' settle (fl_broadcast fl)) (\<lambda>_.
           cbind (buildRefund c clientPriv serverPriv lt) (\<lambda>refund.
           say (LRefund lt (hex_EncodeToString (rev_id (Bsvtx.tx_TxID refund))) (hex_EncodeToString (tx_Serialize refund)))))))"

definition channeltestnet :: "'w Explorer \<Rightarrow> Flags \<Rightarrow> ('w, unit) cmd" where
  "channeltestnet e fl =
     (if fl_clientSeed fl = [] then fail ''error: -client-seed <hex32> is required'' 2
      else
        let ver = (if fl_net fl = ''main'' then AddrMainP2PKH else AddrTestP2PKH)
        in cbind (mustKey (fl_clientSeed fl)) (\<lambda>clientPriv.
           cbind (or_panic (SerializeCompressed (Public clientPriv))) (\<lambda>clientPub.
           let srvSeed = (if fl_serverSeed fl = []
                 then hex_EncodeToString (slice (DoubleSHA256 (str_bytes ''server-of:'' @ clientPub))) else fl_serverSeed fl);
               addr = AddressFromPubKey clientPub ver
           in cbind (mustKey srvSeed) (\<lambda>serverPriv.
              cbind (or_panic (SerializeCompressed (Public serverPriv))) (\<lambda>serverPub.
              if fl_mode fl = ''address''
              then say (LAddress addr (hex_EncodeToString clientPub) (hex_EncodeToString serverPub) srvSeed)
              else if fl_mode fl = ''utxo'' then mode_utxo e addr
              else if fl_mode fl = ''status'' then mode_status e fl
              else if fl_mode fl = ''fund'' then mode_fund e fl addr clientPriv clientPub serverPub
              else if fl_mode fl = ''settle'' then mode_settle e fl clientPriv serverPriv clientPub serverPub
              else fail ''unknown -mode'' 2)))))"

section \<open>From funding to settlement\<close>

lemma hex_prefix_decoded: "hex_DecodeString s = Some b \<Longrightarrow> hex_prefix s = b"
  by (induction s arbitrary: b rule: hex_DecodeString.induct) (auto split: option.splits)

lemma dispToInternal_display: "dispToInternal (hex_EncodeToString (rev_id h)) = h"
  by (simp add: dispToInternal_def hex_prefix_decoded [OF hex_roundtrip] rev_id_def)

lemma cbind_Some: "cbind m f s = Some (s', Inr y) \<longleftrightarrow> (\<exists>s1 x. m s = Some (s1, Inr x) \<and> f x s1 = Some (s', Inr y))"
  by (auto simp: cbind_def split: option.splits prod.splits sum.splits)

lemma fail_not: "fail msg code s \<noteq> Some (s', Inr x)"
  by (cases s) (auto simp: fail_def cbind_def say_def exit_with_def)

definition dropped :: "(go_error + bytes) option \<Rightarrow> bytes" where
  "dropped r = (case r of Some (Inr b) \<Rightarrow> b | _ \<Rightarrow> [])"

lemma signature_of_Some: "signature_of r s = Some (s', Inr b) \<Longrightarrow> s' = s \<and> b = dropped r"
  by (cases r; cases "the r") (auto simp: signature_of_def dropped_def)

lemma buildFunding_inv:
  assumes "buildFunding clientPriv clientPub serverPub utxoTxid vout utxoValue deposit fee s = Some (s', Inr tx)"
  shows "bt_Outputs tx = [\<lparr>bo_Value = deposit, bo_ScriptPubKey = Multisig2of2 clientPub serverPub\<rparr>,
      \<lparr>bo_Value = utxoValue - deposit - fee, bo_ScriptPubKey = P2PKHFromPub clientPub\<rparr>]"
    and "map ti_PrevOut (bt_Inputs tx) = [\<lparr>po_Hash = dispToInternal utxoTxid, po_Index = vout\<rparr>]"
  using assms by (auto simp: buildFunding_def Let_def fail_not cret_def split: option.splits sum.splits)

definition script_2of2 :: "PrivateKey \<Rightarrow> PrivateKey \<Rightarrow> BTx \<Rightarrow> BTxOut \<Rightarrow> bytes" where
  "script_2of2 clientPriv serverPriv tx out =
     (let sig = (\<lambda>key. dropped (SignInput (Some key) tx 0 (bo_ScriptPubKey out) (bo_Value out) SighashAllFork))
      in ScriptSig2of2 (sig clientPriv) (sig serverPriv))"

definition total_out :: "BTx \<Rightarrow> nat" where
  "total_out tx = sum_list (map unat (map bo_Value (bt_Outputs tx)))"

lemma sign_both_inv:
  assumes "sign_both c clientPriv serverPriv tx s = Some (s', Inr tx')"
  shows "Finalize2of2 tx (dropped (SignInput (Some clientPriv) tx 0 (Redeem c) (ct_FundingValue c) SighashAllFork))
      (dropped (SignInput (Some serverPriv) tx 0 (Redeem c) (ct_FundingValue c) SighashAllFork)) = Inr tx'"
proof -
  obtain s1 x s2 y where x: "signature_of (SignInput (Some clientPriv) tx 0 (Redeem c) (ct_FundingValue c) SighashAllFork) s = Some (s1, Inr x)"
    and y: "signature_of (SignInput (Some serverPriv) tx 0 (Redeem c) (ct_FundingValue c) SighashAllFork) s1 = Some (s2, Inr y)"
    and z: "or_panic (Finalize2of2 tx x y) s2 = Some (s', Inr tx')"
    using assms unfolding sign_both_def cbind_Some by blast
  show ?thesis using z signature_of_Some [OF x] signature_of_Some [OF y]
    by (cases "Finalize2of2 tx x y") (simp_all add: or_panic_def exit_with_def cret_def)
qed

lemma buildSettlement_inv:
  assumes "buildSettlement c clientPriv serverPriv pay s = Some (s', Inr settle)"
  shows "\<exists>tx. CommitmentTx c pay = Inr tx \<and>
      settle = tx\<lparr>bt_Inputs := map (\<lambda>i. i\<lparr>ti_ScriptSig := script_2of2 clientPriv serverPriv tx (FundingOutput c)\<rparr>) (bt_Inputs tx)\<rparr>"
proof -
  obtain tx where tx: "CommitmentTx c pay = Inr tx" "sign_both c clientPriv serverPriv tx s = Some (s', Inr settle)"
    using assms by (auto simp: buildSettlement_def fail_not split: sum.splits)
  have "length (bt_Inputs tx) = 1" using tx(1) by (auto simp: CommitmentTx_def Let_def split: if_splits)
  then show ?thesis using tx(1) sign_both_inv [OF tx(2)]
    by (auto simp: Finalize2of2_def script_2of2_def FundingOutput_def Let_def length_Suc_conv split: list.splits)
qed

lemma unat_change:
  "unat a + unat b \<le> unat v \<Longrightarrow> unat (v - a - b) = unat v - unat a - unat (b :: uint64)"
proof -
  assume le: "unat a + unat b \<le> unat v"
  then have a: "unat (v - a) = unat v - unat a" by (simp add: unat_sub word_le_nat_alt)
  then show ?thesis using le by (simp add: unat_sub word_le_nat_alt)
qed

lemma settlement_spends:
  assumes "buildSettlement c clientPriv serverPriv pay s = Some (s', Inr settle)"
  shows "map ti_PrevOut (bt_Inputs settle) = [ct_FundingOut c]"
    and "\<exists>tx. CommitmentTx c pay = Inr tx \<and> map ti_ScriptSig (bt_Inputs settle) = [script_2of2 clientPriv serverPriv tx (FundingOutput c)]"
    and "bo_Value (bt_Outputs settle ! 0) = pay"
    and "unat pay + unat (ct_Fee c) \<le> unat (ct_FundingValue c) \<Longrightarrow> total_out settle + unat (ct_Fee c) = unat (ct_FundingValue c)"
proof -
  obtain u where u: "CommitmentTx c pay = Inr u"
    and e: "settle = u\<lparr>bt_Inputs := map (\<lambda>i. i\<lparr>ti_ScriptSig := script_2of2 clientPriv serverPriv u (FundingOutput c)\<rparr>) (bt_Inputs u)\<rparr>"
    using buildSettlement_inv [OF assms] by blast
  have i: "map ti_PrevOut (bt_Inputs u) = [ct_FundingOut c]" and b: "map bo_Value (bt_Outputs u) = [pay, ct_FundingValue c - pay - ct_Fee c]"
    using u by (auto simp: CommitmentTx_def Let_def split: if_splits)
  then have l: "length (bt_Inputs u) = 1" by (metis length_map length_Cons list.size(3) One_nat_def)
  show "map ti_PrevOut (bt_Inputs settle) = [ct_FundingOut c]" using i by (simp add: e comp_def)
  show "\<exists>tx. CommitmentTx c pay = Inr tx \<and> map ti_ScriptSig (bt_Inputs settle) = [script_2of2 clientPriv serverPriv tx (FundingOutput c)]"
    using u l by (auto simp: e length_Suc_conv)
  show "bo_Value (bt_Outputs settle ! 0) = pay" using b by (cases "bt_Outputs u") (auto simp: e)
  have "total_out settle = sum_list (map unat [pay, ct_FundingValue c - pay - ct_Fee c])"
    unfolding total_out_def b [symmetric] by (simp add: e)
  then show "unat pay + unat (ct_Fee c) \<le> unat (ct_FundingValue c) \<Longrightarrow> total_out settle + unat (ct_Fee c) = unat (ct_FundingValue c)"
    by (simp add: unat_change)
qed

text \<open>
  C32. The steps of the channel fit together. The funding transaction locks the deposit in its first output and
  gives the rest, less the fee, back to the client, so it conserves value whenever deposit and fee fit into the
  coin. Its displayed identifier, fed to the settle mode, names that output again: the settlement
  spends exactly it, carries the signatures of both keys made for its script and amount, and pays the
  server and the client what was locked, less the fee.
\<close>

theorem fund_then_settle:
  "case buildFunding clientPriv clientPub serverPub utxoTxid vout utxoValue deposit fee s of
     Some (_, Inr tx) \<Rightarrow>
       (let c = testnet_channelTx (hex_EncodeToString (rev_id (Bsvtx.tx_TxID tx))) 0 deposit clientPub serverPub fee'
        in bt_Outputs tx ! 0 = FundingOutput c \<and>
           (if unat deposit + unat fee \<le> unat utxoValue then total_out tx + unat fee = unat utxoValue else True) \<and>
           (case buildSettlement c clientPriv serverPriv pay s' of
              Some (_, Inr settle) \<Rightarrow>
                map ti_PrevOut (bt_Inputs settle) = [\<lparr>po_Hash = Bsvtx.tx_TxID tx, po_Index = 0\<rparr>] \<and>
                (\<exists>unsigned. CommitmentTx c pay = Inr unsigned \<and>
                   map ti_ScriptSig (bt_Inputs settle) = [script_2of2 clientPriv serverPriv unsigned (bt_Outputs tx ! 0)]) \<and>
                bo_Value (bt_Outputs settle ! 0) = pay \<and>
                (if unat pay + unat fee' \<le> unat deposit then total_out settle + unat fee' = unat deposit else True)
            | _ \<Rightarrow> True))
   | _ \<Rightarrow> True"
proof (cases "\<exists>s1 tx. buildFunding clientPriv clientPub serverPub utxoTxid vout utxoValue deposit fee s = Some (s1, Inr tx)")
  case True
  then obtain s1 tx where tx: "buildFunding clientPriv clientPub serverPub utxoTxid vout utxoValue deposit fee s = Some (s1, Inr tx)" by blast
  define c where "c = testnet_channelTx (hex_EncodeToString (rev_id (Bsvtx.tx_TxID tx))) 0 deposit clientPub serverPub fee'"
  have c: "ct_FundingOut c = \<lparr>po_Hash = Bsvtx.tx_TxID tx, po_Index = 0\<rparr>" "ct_FundingValue c = deposit" "ct_ClientPub c = clientPub"
    "ct_ServerPub c = serverPub" "ct_Fee c = fee'"
    by (simp_all add: c_def testnet_channelTx_def dispToInternal_display)
  have o: "bt_Outputs tx ! 0 = FundingOutput c" by (simp add: buildFunding_inv [OF tx] FundingOutput_def Redeem_def c)
  have v: "unat deposit + unat fee \<le> unat utxoValue \<Longrightarrow> total_out tx + unat fee = unat utxoValue"
    by (simp add: total_out_def buildFunding_inv [OF tx] unat_change)
  show ?thesis
    unfolding tx using o v settlement_spends [of c clientPriv serverPriv pay s', unfolded c]
    by (auto simp: c_def [symmetric] Let_def split: option.split sum.split prod.split)
next
  case False
  then show ?thesis by (auto split: option.split sum.split prod.split)
qed

section \<open>Choice of the funding coin\<close>

lemma pick_best_spec:
  "pick_best need us best \<in> insert best (set us) \<and> ur_UValue best \<le> ur_UValue (pick_best need us best) \<and>
   (\<forall>u \<in> set us. need \<le> ur_UValue u \<longrightarrow> ur_UValue u \<le> ur_UValue (pick_best need us best)) \<and>
   (pick_best need us best = best \<or> need \<le> ur_UValue (pick_best need us best))"
proof (induction us arbitrary: best)
  case (Cons u us)
  let ?b = "if need \<le> ur_UValue u \<and> ur_UValue best < ur_UValue u then u else best"
  show ?case using Cons.IH [of ?b] by (auto split: if_splits)
qed simp

text \<open>
  The wrapping sum of the guard: a deposit and a fee whose sum exceeds 64 bits pass the check of the fund mode, and
  the change is then more than the coin.
\<close>

lemma fund_guard_wraps:
  "\<not> (1000 :: uint64) < (2 ^ 64 - 400) + 500" "(1000 :: uint64) - (2 ^ 64 - 400) - 500 = 900"
  by simp_all

end
