(* ===== verification/Daemon.thy ===== *)
theory Daemon
  imports Http_Server Httpsource
begin

text \<open>
  \<^verbatim>\<open>cmd/memserved/main.go\<close> and the deterministic half of \<^verbatim>\<open>bench/bench.go\<close>: how the daemon turns its flags into a
  server, a source and a pruning policy, and how the benchmark fills a store and opens its channel. Opening the
  store is an argument; logging, signals and the memory limit of the Go runtime are not modelled. The
  theorems show that the daemon never runs with a pruning depth below its horizon and that its ingest loop
  catches up with the mock source.
\<close>

section \<open>memserved\<close>

definition paymentPolicy :: "uint64 \<Rightarrow> int \<Rightarrow> AbusePolicy" where
  "paymentPolicy minDeposit maxChannels = DefaultPolicy\<lparr>ap_MinDeposit := minDeposit, ap_MaxChannels := maxChannels\<rparr>"

record MemFlags =
  mf_teranodeURL :: string
  mf_mock :: bool
  mf_shardK :: nat
  mf_shardID :: uint64
  mf_reorg :: uint64
  mf_recency :: uint64
  mf_paymentRequired :: bool
  mf_operatorSeed :: string
  mf_adminToken :: string
  mf_rate :: int
  mf_minDeposit :: uint64
  mf_maxChannels :: int
  mf_maxMemMB :: int
  mf_mockBlocks :: int
  mf_indexRetention :: uint64

datatype SourceChoice = SrcMock MockSource | SrcHttp HttpSource

definition daemon_source :: "MemFlags \<Rightarrow> SourceChoice option" where
  "daemon_source fl =
     (if mf_mock fl
      then Some (SrcMock (NewMock \<lparr>mc_Blocks = mf_mockBlocks fl, mc_SubtreesPer = 4, mc_TxsPerSubtree = 2048, mc_SpendFraction = 3,
                                   mc_StartHeight = 0, mc_Seed = 0\<rparr>))
      else if mf_teranodeURL fl \<noteq> []
      then Some (SrcHttp (NewHttpSource \<lparr>hc_StartHeight = 0, hc_EndHeight = 0, hc_MaxRetries = 0\<rparr>))
      else None)"

definition daemon_seed :: "MemFlags \<Rightarrow> bytes option" where
  "daemon_seed fl =
     (if mf_operatorSeed fl = [] then Some []
      else case hex_DecodeString (mf_operatorSeed fl) of None \<Rightarrow> None
           | Some b \<Rightarrow> if length b \<noteq> 32 then None else Some b)"

definition daemon_policy :: "MemFlags \<Rightarrow> go_error + Policy" where
  "daemon_policy fl =
     (case PolicyWithD (ucast (mf_reorg fl) + ucast (mf_recency fl)) (ucast (mf_reorg fl)) of
        Inl err \<Rightarrow> Inl err
      | Inr pol \<Rightarrow> Inr (pol\<lparr>po_IndexRetention := ucast (mf_indexRetention fl)\<rparr>))"

definition daemon_config :: "MemFlags \<Rightarrow> Policy \<Rightarrow> bytes \<Rightarrow> SrvConfig" where
  "daemon_config fl pol seed =
     \<lparr>sc_ShardK = mf_shardK fl, sc_ShardID = ucast (mf_shardID fl), sc_Prune = pol,
      sc_Abuse = paymentPolicy (mf_minDeposit fl) (mf_maxChannels fl), sc_PaymentRequired = mf_paymentRequired fl,
      sc_OperatorSeed = seed, sc_AdminToken = mf_adminToken fl, sc_RatePerSec = mf_rate fl, sc_MaxMemMB = mf_maxMemMB fl\<rparr>"

text \<open>The exit status, or the source and the server that \<open>Start\<close> runs.\<close>

definition memserved :: "MemFlags \<Rightarrow> go_error + 's \<Rightarrow> nat + SourceChoice \<times> 's HttpServer" where
  "memserved fl openStore =
     (case daemon_source fl of None \<Rightarrow> Inl 2
      | Some src \<Rightarrow>
          (case daemon_seed fl of None \<Rightarrow> Inl 2
           | Some seed \<Rightarrow>
               (case daemon_policy fl of Inl _ \<Rightarrow> Inl 2
                | Inr pol \<Rightarrow>
                    (case openStore of Inl _ \<Rightarrow> Inl 2
                     | Inr st \<Rightarrow> Inr (src, NewServer (daemon_config fl pol seed) st)))))"

section \<open>The benchmark's store and channel\<close>

record 's Populated =
  pp_Store :: 's
  pp_TxIDs :: "hash list"
  pp_Outpts :: "Outpoint list"
  pp_Stats :: IngestStats
  pp_Tip :: uint32

text \<open>The sample of a block: the outputs are those with index 0.\<close>

definition sample_block :: "Block \<Rightarrow> 's Populated \<Rightarrow> 's Populated" where
  "sample_block b p =
     (if length (pp_TxIDs p) < 2 ^ 20
      then p\<lparr>pp_TxIDs := pp_TxIDs p @ concat (map su_TxIDs (bl_Subtrees b)),
             pp_Outpts := pp_Outpts p @ concat (map (\<lambda>sub. map (\<lambda>tx. \<lparr>op_TxID = Tx.tx_TxID tx, op_Vout = 0\<rparr>) (su_Txs sub)) (bl_Subtrees b))\<rparr>
      else p)"

partial_function (option) build_loop ::
  "'s store_ops \<Rightarrow> Ingestor \<Rightarrow> ('m, Block option) gom \<Rightarrow> 'm \<Rightarrow> Pruner option \<Rightarrow> 's Populated \<Rightarrow> (go_error + 's Populated) option" where
  [code]: "build_loop ops inn nxt src pr p =
     (case nxt src of
        (src', Inl err) \<Rightarrow> Some (Inl err)
      | (src', Inr None) \<Rightarrow> Some (Inr p)
      | (src', Inr (Some b)) \<Rightarrow>
          (case IngestBlock ops inn b (pp_Store p, pr) of
             ((s', pr'), st, Some err) \<Rightarrow> Some (Inl err)
           | ((s', pr'), st, None) \<Rightarrow>
               build_loop ops inn nxt src' pr'
                 (sample_block b (p\<lparr>pp_Store := s', pp_Tip := bl_Height b, pp_Stats := add_stats (pp_Stats p) st\<rparr>))))"

definition bench_Build :: "MockConfig \<Rightarrow> uint32 \<Rightarrow> uint32 \<Rightarrow> (go_error + MemStore Populated) option" where
  "bench_Build cfg reorgHorizon recencyWindow =
     (let pol = \<lparr>po_ReorgHorizon = reorgHorizon, po_RecencyWindow = recencyWindow, po_IndexRetention = 0\<rparr>
      in build_loop mem_ops \<lparr>in_k = 0, in_id = 0, in_skipValidate = False\<rparr> mock_Next (NewMock cfg) (Some (NewPruner pol))
           \<lparr>pp_Store = New, pp_TxIDs = [], pp_Outpts = [], pp_Stats = zeroStats, pp_Tip = 0\<rparr>)"

type_synonym QueryKind = byte

definition QueryKind_String :: "QueryKind \<Rightarrow> string" where
  "QueryKind_String k =
     (if k = 0 then ''Seen'' else if k = 1 then ''Mined'' else if k = 2 then ''MerklePath'' else if k = 3 then ''UTXO'' else ''?'')"

definition newPaidChannel :: "uint64 \<Rightarrow> go_error + PaidServer \<times> PrivateKey \<times> Params" where
  "newPaidChannel seed =
     (let sd = le64 seed @ replicate 23 0 @ [1];
          priv = NewPrivateKey sd;
          serverPriv = NewPrivateKey (slice (DoubleSHA256 (str_bytes ''memserve-bench-server'')));
          fund = DoubleSHA256 (str_bytes ''memserve-bench-funding'' @ sd)
      in case SerializeCompressed (Public priv) of Inl e \<Rightarrow> Inl e
         | Inr clientPub \<Rightarrow>
      (case SerializeCompressed (Public serverPriv) of Inl e \<Rightarrow> Inl e
       | Inr serverPub \<Rightarrow>
           let params = \<lparr>pa_ChannelID = DeriveChannelID fund 0, pa_FundingTxID = fund, pa_FundingVout = 0, pa_ClientPub = clientPub,
                 pa_ServerPub = serverPub, pa_FundingValue = 2 ^ 50, pa_Fee = 0\<rparr>;
               cfg = \<lparr>cf_Params = params, cf_Deposit = 2 ^ 50, cf_ClientPub = Some (Public priv),
                 cf_Pricing = \<lparr>pg_Flat = True, pg_FlatPrice = 1, pg_PerType = [0, 0, 0, 0], pg_SettleFee = 0, pg_FeeMode = FeeUpfront\<rparr>,
                 cf_N = 2 ^ 50, cf_RefundLockTime = 0, cf_SettleBefore = 0\<rparr>
           in Inr (fst (OpenChannel cfg (NewWithPolicy DefaultPolicy)), priv, params)))"

section \<open>The daemon's pruning depth\<close>

lemma daemon_policy_D:
  assumes "daemon_policy fl = Inr pol"
  shows "policy_D pol = ucast (mf_reorg fl) + ucast (mf_recency fl)" and "po_ReorgHorizon pol \<le> policy_D pol"
    and "unat (policy_D pol) = unat (po_ReorgHorizon pol) + unat (po_RecencyWindow pol)"
proof -
  define x y :: uint32 where "x = ucast (mf_reorg fl)" and "y = ucast (mf_recency fl)"
  have pol: "pol = \<lparr>po_ReorgHorizon = x, po_RecencyWindow = y, po_IndexRetention = ucast (mf_indexRetention fl)\<rparr>" and le: "x \<le> x + y"
    using assms by (auto simp: daemon_policy_def PolicyWithD_def x_def [symmetric] y_def [symmetric] split: if_splits)
  show "policy_D pol = ucast (mf_reorg fl) + ucast (mf_recency fl)" "po_ReorgHorizon pol \<le> policy_D pol"
    "unat (policy_D pol) = unat (po_ReorgHorizon pol) + unat (po_RecencyWindow pol)"
    using le unat_plus_simple [of x y] by (simp_all add: pol policy_D_def x_def y_def)
qed

section \<open>Catching up\<close>

lemma mock_ingest_step:
  assumes "mem_inv s" and "pruner_D p d" and "0 < d" and "0 < mc_SubtreesPer (mk_cfg m)" and "0 < mc_TxsPerSubtree (mk_cfg m)"
    and "mk_made m < mc_Blocks (mk_cfg m)"
  obtains m' b s' p' st where "mock_Next m = (m', Inr (Some b))" and "IngestBlock mem_ops inn b (s, p) = ((s', p'), st, None)"
    and "mem_inv s'" and "pruner_D p' d" and "is_Blocks st = 1" and "mk_cfg m' = mk_cfg m" and "mk_made m' = mk_made m + 1"
    and "mk_height m' = mk_height m + 1" and "bl_Height b = mk_height m"
proof -
  obtain m' b where nx: "mock_Next m = (m', Inr (Some b))" using mock_Next_some [OF assms(6)] by blast
  have v: "validateBlock b = None" using mock_block_valid [OF nx assms(4,5)] .
  obtain s' p' st e where i: "IngestBlock mem_ops inn b (s, p) = ((s', p'), st, e)" by (metis prod.exhaust)
  note sim = mem.ingest_block_sim [OF assms(1) i]
  from ingest_block_flat [OF pruner_D_ok [OF assms(2,3)], of inn b "mem_abs s"] v sim(2)
  have "e = None" "advance p (bl_Height b) p'" "is_Blocks st = 1" by auto
  then show thesis using that [OF nx] i sim(1) pruner_D_advance [OF assms(2)] mock_Next_frame [OF nx] by simp
qed

text \<open>The memory reading stays below the limit of the configuration, if it sets one.\<close>

definition roomy :: "int \<Rightarrow> SrvConfig \<Rightarrow> bool" where
  "roomy heldMB cfg = (\<not> (0 < sc_MaxMemMB cfg \<and> sc_MaxMemMB cfg \<le> heldMB))"

lemma roomyD: "roomy heldMB cfg \<Longrightarrow> (0 < sc_MaxMemMB cfg \<and> sc_MaxMemMB cfg \<le> heldMB) = False"
  by (simp add: roomy_def)

definition ingest_loop :: "'s Env \<Rightarrow> int \<Rightarrow> ('m, Block option) gom \<Rightarrow> nat \<Rightarrow> 'm \<times> 's HttpServer \<Rightarrow> 'm \<times> 's HttpServer" where
  "ingest_loop env heldMB nxt n = (ingest_iteration env heldMB nxt ^^ n)"

lemma loop_Suc: "ingest_loop env heldMB nxt (Suc n) st = ingest_loop env heldMB nxt n (ingest_iteration env heldMB nxt st)"
  by (simp add: ingest_loop_def funpow_swap1)

lemma loop_idle:
  assumes "nxt m = (m, Inr None)" and "roomy heldMB (hs_cfg hs)"
  shows "ingest_loop env heldMB nxt (Suc n) (m, hs) = (m, hs\<lparr>hs_ready := True\<rparr>)"
  using assms
proof (induction n arbitrary: hs)
  case 0
  then show ?case by (simp add: ingest_loop_def ingest_iteration_def ingest_turn_def roomyD)
next
  case (Suc n)
  then have "ingest_iteration env heldMB nxt (m, hs) = (m, hs\<lparr>hs_ready := True\<rparr>)" by (simp add: ingest_iteration_def ingest_turn_def roomyD)
  then show ?case using Suc.IH [of "hs\<lparr>hs_ready := True\<rparr>"] Suc.prems by (subst loop_Suc) simp
qed

lemma loop_catches_up:
  assumes "env_ops env = mem_ops" and "mem_inv (hs_store hs)" and "pruner_D (hs_pruner hs) d" and "0 < d" and "roomy heldMB (hs_cfg hs)"
    and "0 < mc_SubtreesPer (mk_cfg m)" and "0 < mc_TxsPerSubtree (mk_cfg m)" and "mk_made m \<le> mc_Blocks (mk_cfg m)"
  shows "case ingest_loop env heldMB mock_Next (Suc (nat (mc_Blocks (mk_cfg m) - mk_made m) + extra)) (m, hs) of (m', hs') \<Rightarrow>
    hs_ready hs' \<and> mem_inv (hs_store hs') \<and> mock_Next m' = (m', Inr None) \<and>
    me_blocks (hs_met hs') = me_blocks (hs_met hs) + of_nat (nat (mc_Blocks (mk_cfg m) - mk_made m)) \<and>
    (if mk_made m < mc_Blocks (mk_cfg m) then hs_tip hs' = mk_height m + of_nat (nat (mc_Blocks (mk_cfg m) - mk_made m)) - 1 else hs_tip hs' = hs_tip hs)"
  using assms
proof (induction "nat (mc_Blocks (mk_cfg m) - mk_made m)" arbitrary: m hs)
  case 0
  then have "mock_Next m = (m, Inr None)" by (simp add: mock_Next_def)
  then show ?case using 0 by (simp add: loop_idle)
next
  case (Suc k)
  then have made: "mk_made m < mc_Blocks (mk_cfg m)" by simp
  obtain m1 b s1 p1 st1 where nx: "mock_Next m = (m1, Inr (Some b))"
    and i: "IngestBlock mem_ops (hs_ing hs) b (hs_store hs, hs_pruner hs) = ((s1, p1), st1, None)"
    and inv: "mem_inv s1" "pruner_D p1 d" and fr: "mk_cfg m1 = mk_cfg m" "mk_made m1 = mk_made m + 1" "mk_height m1 = mk_height m + 1" "bl_Height b = mk_height m"
    by (rule mock_ingest_step [OF Suc.prems(2,3,4,6,7) made])
  define hs1 where "hs1 = publish (bl_Height b) (hs\<lparr>hs_store := s1, hs_pruner := p1\<rparr>)"
  have it: "ingest_iteration env heldMB mock_Next (m, hs) = (m1, hs1)"
    using Suc.prems(1,5) by (simp add: ingest_iteration_def ingest_turn_def roomyD nx i hs1_def)
  have h1: "hs_store hs1 = s1" "hs_pruner hs1 = p1" "hs_cfg hs1 = hs_cfg hs" "hs_tip hs1 = mk_height m" "me_blocks (hs_met hs1) = me_blocks (hs_met hs) + 1"
    by (simp_all add: hs1_def publish_def inc_blocks_def fr)
  have k: "k = nat (mc_Blocks (mk_cfg m1) - mk_made m1)" using Suc.hyps(2) fr by simp
  have ih: "case ingest_loop env heldMB mock_Next (Suc (nat (mc_Blocks (mk_cfg m1) - mk_made m1) + extra)) (m1, hs1) of (m', hs') \<Rightarrow>
    hs_ready hs' \<and> mem_inv (hs_store hs') \<and> mock_Next m' = (m', Inr None) \<and>
    me_blocks (hs_met hs') = me_blocks (hs_met hs1) + of_nat (nat (mc_Blocks (mk_cfg m1) - mk_made m1)) \<and>
    (if mk_made m1 < mc_Blocks (mk_cfg m1) then hs_tip hs' = mk_height m1 + of_nat (nat (mc_Blocks (mk_cfg m1) - mk_made m1)) - 1 else hs_tip hs' = hs_tip hs1)"
    by (rule Suc.hyps(1) [OF k]) (use Suc.prems inv h1 fr made in simp_all)
  define N where "N = nat (mc_Blocks (mk_cfg m1) - mk_made m1)"
  have n: "nat (mc_Blocks (mk_cfg m) - mk_made m) = Suc N" using Suc.hyps(2) k by (simp add: N_def)
  have z: "\<not> mk_made m1 < mc_Blocks (mk_cfg m1) \<Longrightarrow> N = 0" by (simp add: N_def)
  obtain m' hs' where l: "ingest_loop env heldMB mock_Next (Suc (N + extra)) (m1, hs1) = (m', hs')" by (metis prod.exhaust)
  have "ingest_loop env heldMB mock_Next (Suc (Suc N + extra)) (m, hs) = (m', hs')" using l by (simp only: loop_Suc it add_Suc)
  then show ?case
    using ih made z l unfolding n N_def [symmetric] by (auto simp: h1 fr(3) split: if_splits)
qed

lemma NewMock_blocks: "mc_Blocks (mk_cfg (NewMock cfg)) = max 1 (mc_Blocks cfg)" "mk_made (NewMock cfg) = 0" "mk_height (NewMock cfg) = mc_StartHeight cfg"
  by (auto simp: NewMock_def Let_def)

lemma NewServer_cfg [simp]: "hs_cfg (NewServer cfg st) = cfg"
  by (simp add: NewServer_def Let_def)

lemma memserved_Inr:
  assumes "memserved fl (Inr st) = Inr (src, hs)"
  obtains pol seed where "daemon_source fl = Some src" and "daemon_policy fl = Inr pol" and "hs = NewServer (daemon_config fl pol seed) st"
  using assms by (auto simp: memserved_def split: option.splits sum.splits)

text \<open>
  C31. A daemon that starts serves. Whatever its flags, it runs only with a pruning depth that is the sum of
  horizon and recency window without wrap-around. With the mock source and memory to spare, its ingest
  loop reaches the tip: after more turns than there are blocks, each taken in, the server is ready, has counted
  every block, publishes the height of the last one as its tip, and the source has nothing left.
\<close>

theorem daemon_catches_up:
  assumes "memserved fl (Inr New) = Inr (SrcMock m, hs)" and "roomy heldMB (hs_cfg hs)" and "policy_D (sc_Prune (hs_cfg hs)) \<noteq> 0"
    and "blocks = nat (max 1 (mf_mockBlocks fl))" and "blocks < n"
  shows "unat (policy_D (sc_Prune (hs_cfg hs))) = unat (po_ReorgHorizon (sc_Prune (hs_cfg hs))) + unat (po_RecencyWindow (sc_Prune (hs_cfg hs))) \<and>
    (case ingest_loop (memserve_env mem_ops) heldMB mock_Next n (m, hs) of (m', hs') \<Rightarrow>
       hs_ready hs' \<and> me_blocks (hs_met hs') = of_nat blocks \<and> hs_tip hs' = of_nat blocks - 1 \<and> mock_Next m' = (m', Inr None))"
proof -
  obtain pol seed where src: "daemon_source fl = Some (SrcMock m)" and pol: "daemon_policy fl = Inr pol"
    and hs: "hs = NewServer (daemon_config fl pol seed) New"
    using memserved_Inr [OF assms(1)] by blast
  have m: "\<exists>cfg. m = NewMock cfg \<and> mc_Blocks cfg = mf_mockBlocks fl \<and> mc_StartHeight cfg = 0"
    using src by (auto simp: daemon_source_def split: if_splits)
  then have mk: "mc_Blocks (mk_cfg m) = max 1 (mf_mockBlocks fl)" "mk_made m = 0" "mk_height m = 0"
    "0 < mc_SubtreesPer (mk_cfg m)" "0 < mc_TxsPerSubtree (mk_cfg m)"
    by (auto simp: NewMock_blocks NewMock_positive)
  have cfg: "sc_Prune (hs_cfg hs) = pol" by (simp add: hs NewServer_def Let_def daemon_config_def)
  have pr: "pruner_D (hs_pruner hs) (unat (policy_D pol))" by (simp add: hs NewServer_def Let_def daemon_config_def pruner_D_def NewPruner_def)
  obtain extra where n: "n = Suc (blocks + extra)" using assms(5) less_imp_Suc_add by blast
  have "0 < unat (policy_D pol)" using assms(3) by (simp add: cfg unat_gt_0)
  note up = loop_catches_up [OF _ _ pr this assms(2) mk(4,5), of "memserve_env mem_ops" extra]
  have "hs_store hs = New" "me_blocks (hs_met hs) = 0" by (simp_all add: hs NewServer_def Let_def)
  moreover have "0 < max 1 (mf_mockBlocks fl)" "0 \<le> max 1 (mf_mockBlocks fl)" by simp_all
  ultimately show ?thesis using up daemon_policy_D(3) [OF pol] mem_inv_New
    by (auto simp: memserve_env_def mk cfg n assms(4) split: prod.splits)
qed

definition ex_flags :: MemFlags where
  "ex_flags = \<lparr>mf_teranodeURL = [], mf_mock = True, mf_shardK = 0, mf_shardID = 0, mf_reorg = 18, mf_recency = 12,
     mf_paymentRequired = False, mf_operatorSeed = [], mf_adminToken = [], mf_rate = 0, mf_minDeposit = 0, mf_maxChannels = 0,
     mf_maxMemMB = 4096, mf_mockBlocks = 300, mf_indexRetention = 0\<rparr>"

theorem daemon_catches_up_witness:
  "\<exists>m hs. memserved ex_flags (Inr New) = Inr (SrcMock m, hs) \<and>
     (case ingest_loop (memserve_env mem_ops) 512 mock_Next 301 (m, hs) of (m', hs') \<Rightarrow> hs_ready hs' \<and> hs_tip hs' = 299)"
proof -
  obtain m where m: "daemon_source ex_flags = Some (SrcMock m)" by (simp add: daemon_source_def ex_flags_def)
  let ?pol = "\<lparr>po_ReorgHorizon = 18, po_RecencyWindow = 12, po_IndexRetention = 0\<rparr>"
  let ?hs = "NewServer (daemon_config ex_flags ?pol []) New"
  have p: "daemon_policy ex_flags = Inr ?pol" by (simp add: daemon_policy_def ex_flags_def PolicyWithD_def)
  have s: "daemon_seed ex_flags = Some []" by (simp add: daemon_seed_def ex_flags_def)
  have r: "memserved ex_flags (Inr New) = Inr (SrcMock m, ?hs)" by (simp add: memserved_def m p s)
  have "roomy 512 (hs_cfg ?hs)" "policy_D (sc_Prune (hs_cfg ?hs)) \<noteq> 0" "300 = nat (max 1 (mf_mockBlocks ex_flags))"
    by (simp_all add: roomy_def daemon_config_def ex_flags_def policy_D_def)
  from daemon_catches_up [OF r this, of 301] r show ?thesis by (auto split: prod.splits)
qed

section \<open>A block that is refused\<close>

text \<open>
  When a block fails validation, or the backend fails on it, the loop goes on with the next call of the source,
  which has already moved past it; nothing records that the block is missing.
\<close>

lemma failed_block_skipped:
  assumes "nxt src = (src', Inr (Some b))" and "roomy heldMB (hs_cfg hs)" and "\<not> in_skipValidate (hs_ing hs)" and "validateBlock b = Some e"
  shows "ingest_iteration env heldMB nxt (src, hs) = (src', hs)"
  using assms by (simp add: ingest_iteration_def ingest_turn_def roomyD IngestBlock_def)

section \<open>The benchmark\<close>

lemma build_loop_mock:
  assumes "mem_inv (pp_Store p)" and "pruner_D pr d" and "0 < d" and "0 < mc_SubtreesPer (mk_cfg m)" and "0 < mc_TxsPerSubtree (mk_cfg m)"
  shows "\<exists>q. build_loop mem_ops inn mock_Next m pr p = Some (Inr q) \<and> mem_inv (pp_Store q) \<and>
    is_Blocks (pp_Stats q) = is_Blocks (pp_Stats p) + nat (mc_Blocks (mk_cfg m) - mk_made m)"
  using assms
proof (induction "nat (mc_Blocks (mk_cfg m) - mk_made m)" arbitrary: m pr p)
  case 0
  then show ?case by (subst build_loop.simps) (simp add: mock_Next_def)
next
  case (Suc k)
  then have made: "mk_made m < mc_Blocks (mk_cfg m)" by simp
  obtain m1 b s1 p1 st1 where nx: "mock_Next m = (m1, Inr (Some b))"
    and i: "IngestBlock mem_ops inn b (pp_Store p, pr) = ((s1, p1), st1, None)"
    and inv: "mem_inv s1" "pruner_D p1 d" and one: "is_Blocks st1 = 1" and fr: "mk_cfg m1 = mk_cfg m" "mk_made m1 = mk_made m + 1"
    by (rule mock_ingest_step [OF Suc.prems made])
  define q where "q = sample_block b (p\<lparr>pp_Store := s1, pp_Tip := bl_Height b, pp_Stats := add_stats (pp_Stats p) st1\<rparr>)"
  have q: "pp_Store q = s1" "is_Blocks (pp_Stats q) = is_Blocks (pp_Stats p) + 1" by (simp_all add: q_def sample_block_def add_stats_def one)
  have k: "k = nat (mc_Blocks (mk_cfg m1) - mk_made m1)" using Suc.hyps(2) fr by simp
  have "\<exists>q'. build_loop mem_ops inn mock_Next m1 p1 q = Some (Inr q') \<and> mem_inv (pp_Store q') \<and>
      is_Blocks (pp_Stats q') = is_Blocks (pp_Stats q) + nat (mc_Blocks (mk_cfg m1) - mk_made m1)"
    by (rule Suc.hyps(1) [OF k]) (use Suc.prems inv q fr in simp_all)
  then show ?case using Suc.hyps(2) k q by (subst build_loop.simps) (auto simp: nx i q_def [symmetric])
qed

text \<open>The benchmark's store is filled: \<open>Build\<close> returns without an error and has ingested the configured number of blocks.\<close>

theorem bench_build_returns:
  assumes "reorgHorizon + recencyWindow \<noteq> 0"
  shows "\<exists>p. bench_Build cfg reorgHorizon recencyWindow = Some (Inr p) \<and> mem_inv (pp_Store p) \<and> is_Blocks (pp_Stats p) = nat (max 1 (mc_Blocks cfg))"
proof -
  let ?pol = "\<lparr>po_ReorgHorizon = reorgHorizon, po_RecencyWindow = recencyWindow, po_IndexRetention = 0\<rparr>"
  have d: "pruner_D (Some (NewPruner ?pol)) (unat (policy_D ?pol))" by (simp add: pruner_D_def NewPruner_def)
  have "0 < unat (policy_D ?pol)" using assms by (simp add: policy_D_def unat_gt_0)
  from build_loop_mock [of "\<lparr>pp_Store = New, pp_TxIDs = [], pp_Outpts = [], pp_Stats = zeroStats, pp_Tip = 0\<rparr>", OF _ d this NewMock_positive(2,3) [of cfg]]
  show ?thesis using mem_inv_New by (simp add: bench_Build_def NewMock_blocks zeroStats_def)
qed

text \<open>The channel of the paid benchmark is open and asks for one satoshi for the first access of any kind.\<close>

lemma bench_channel_quote:
  "case newPaidChannel seed of Inl _ \<Rightarrow> True | Inr (ps, priv, params) \<Rightarrow> paid_Quote ps (pa_ChannelID params) q = Inr 1"
proof -
  have "SerializeCompressed P = Inr b \<Longrightarrow> b \<noteq> []" for P b by (auto simp: SerializeCompressed_def Let_def split: option.splits sum.splits if_splits)
  then show ?thesis
    by (auto simp: newPaidChannel_def OpenChannel_def Open_def NewWithPolicy_def DefaultPolicy_def paid_Quote_def Payment.lookup_def
        Quote_def service_def feeComponent_def Let_def split: sum.splits)
qed

end
