(* ===== verification/Commands.thy ===== *)
theory Commands
  imports Daemon Accel Aerospike
begin

text \<open>
  The remaining commands: the choice of the store in \<^verbatim>\<open>cmd/memserved/store_default.go\<close> and
  \<^verbatim>\<open>store_aerospike.go\<close>, \<^verbatim>\<open>cmd/ingest\<close>, the demonstrations of \<^verbatim>\<open>cmd/memserve\<close>, \<^verbatim>\<open>cmd/accelcheck\<close>, and the measuring
  loops of \<^verbatim>\<open>bench/bench.go\<close> and \<^verbatim>\<open>accel/throughput.go\<close>. What a command prints is the list of the values it shows.
  A loop that runs until a deadline takes the number of clock readings before the deadline as an argument and
  returns the count that the code divides by the elapsed time; the division is not modelled.
\<close>

section \<open>Opening the store\<close>

abbreviation "ErrUnknownStore \<equiv> ErrBackend 8"
abbreviation "ErrNeedsTag \<equiv> ErrBackend 9"

text \<open>The nil store, \<open>Inr None\<close>, makes the server use its memory store.\<close>

definition openStore_default :: "string \<Rightarrow> go_error + 's option" where
  "openStore_default kind =
     (if kind = '''' \<or> kind = ''mem'' then Inr None
      else if kind = ''aerospike'' then Inl ErrNeedsTag
      else Inl ErrUnknownStore)"

text \<open>\<open>newClient\<close> connects to a cluster.\<close>

definition aero_Open ::
  "(string \<Rightarrow> int \<Rightarrow> go_error + ('w, 'k) AeroClient) \<Rightarrow> string \<Rightarrow> int \<Rightarrow> string \<Rightarrow> go_error + ('w, 'k) AeroStore" where
  "aero_Open newClient host port namespace =
     (case newClient host port of Inl err \<Rightarrow> Inl err | Inr c \<Rightarrow> Inr \<lparr>as_client = c, as_ns = namespace\<rparr>)"

definition openStore_aerospike ::
  "(string \<Rightarrow> int \<Rightarrow> go_error + ('w, 'k) AeroClient) \<Rightarrow> string \<Rightarrow> string \<Rightarrow> int \<Rightarrow> string \<Rightarrow> go_error + ('w, 'k) AeroStore option" where
  "openStore_aerospike newClient kind host port ns =
     (if kind = '''' \<or> kind = ''mem'' then Inr None
      else if kind = ''aerospike'' then map_sum id Some (aero_Open newClient host port ns)
      else Inl ErrUnknownStore)"

section \<open>cmd/ingest\<close>

record IngestFlags =
  gf_blocks :: int
  gf_subtrees :: int
  gf_txs :: int
  gf_spendFrac :: int
  gf_reorg :: uint64
  gf_recency :: uint64

datatype IngestLine =
    IPolicy uint32 uint32 uint32
  | IRow uint32 nat nat nat nat uint64
  | ISourceError go_error | IIngestError go_error
  | IDone nat nat nat nat uint64
  | IRetained nat nat uint32

definition TotalPruned :: "Pruner option \<Rightarrow> uint64" where
  "TotalPruned pr = (case pr of None \<Rightarrow> 0 | Some p \<Rightarrow> pr_total p)"

definition add_totals :: "IngestStats \<Rightarrow> IngestStats \<Rightarrow> IngestStats" where
  "add_totals tot s =
     tot\<lparr>is_TxsIndexed := is_TxsIndexed tot + is_TxsIndexed s, is_UTXOsMade := is_UTXOsMade tot + is_UTXOsMade s,
           is_UTXOsSpent := is_UTXOsSpent tot + is_UTXOsSpent s, is_Pruned := is_Pruned tot + is_Pruned s\<rparr>"

partial_function (option) ingest_rows ::
  "int \<Rightarrow> uint32 \<Rightarrow> MockSource \<Rightarrow> MemStore \<Rightarrow> Pruner option \<Rightarrow> IngestStats \<Rightarrow> nat \<Rightarrow> IngestLine list \<Rightarrow> IngestLine list option" where
  [code]: "ingest_rows blocks d src st pr tot h out =
     (case mock_Next src of
        (src', Inl err) \<Rightarrow> Some (out @ [ISourceError err])
      | (src', Inr None) \<Rightarrow>
          (let fin = so_Stats mem_ops st
           in Some (out @ [IDone (is_Blocks tot + h) (is_TxsIndexed tot) (is_UTXOsMade tot) (is_UTXOsSpent tot) (TotalPruned pr),
                           IRetained (sts_UTXOLive fin) (sts_UTXOSpent fin) d]))
      | (src', Inr (Some b)) \<Rightarrow>
          (case IngestBlock mem_ops \<lparr>in_k = 0, in_id = 0, in_skipValidate = False\<rparr> b (st, pr) of
             ((st', pr'), s, Some err) \<Rightarrow> Some (out @ [IIngestError err])
           | ((st', pr'), s, None) \<Rightarrow>
               (let row = (let sts = so_Stats mem_ops st' in
                      if h mod 20 = 0 \<or> int h = blocks - 1
                      then [IRow (bl_Height b) (sts_TxIndex sts) (sts_UTXOLive sts) (sts_UTXOSpent sts) (is_Pruned s) (TotalPruned pr')]
                      else [])
                in ingest_rows blocks d src' st' pr' (add_totals tot s) (h + 1) (out @ row))))"

definition ingest_main :: "IngestFlags \<Rightarrow> IngestLine list option" where
  "ingest_main fl =
     (let pol = \<lparr>po_ReorgHorizon = ucast (gf_reorg fl), po_RecencyWindow = ucast (gf_recency fl), po_IndexRetention = 0\<rparr>;
          src = NewMock \<lparr>mc_Blocks = gf_blocks fl, mc_SubtreesPer = gf_subtrees fl, mc_TxsPerSubtree = gf_txs fl,
                  mc_SpendFraction = gf_spendFrac fl, mc_StartHeight = 0, mc_Seed = 0\<rparr>
      in ingest_rows (gf_blocks fl) (policy_D pol) src New (Some (NewPruner pol)) zeroStats 0
           [IPolicy (policy_D pol) (po_ReorgHorizon pol) (po_RecencyWindow pol)])"

section \<open>cmd/memserve\<close>

text \<open>A call whose error is dropped: the result is then the zero value.\<close>

definition drop_err :: "'a \<Rightarrow> ('s, 'a) gom \<Rightarrow> ('s, 'a) gom" where
  "drop_err z m = bindM (tryM m) (\<lambda>r. ret (case r of Inl _ \<Rightarrow> z | Inr x \<Rightarrow> x))"

record DemoQueries =
  dq_Seen :: bool
  dq_Mined :: bool
  dq_Height :: uint32
  dq_Verifies :: bool
  dq_Depth :: nat
  dq_UTXO :: UTXOStatus
  dq_Pruned :: bool

fun find_pruned :: "'s store_ops \<Rightarrow> Outpoint list \<Rightarrow> ('s, bool) gom" where
  "find_pruned ops [] = ret False"
| "find_pruned ops (sop # sops) =
     bindM (drop_err (status_only UTXOUnknown) (api_UTXO ops sop)) (\<lambda>r.
     if ur_Status r = UTXONotInWindow then ret True else find_pruned ops sops)"

definition demoQueries :: "'s store_ops \<Rightarrow> hash list \<Rightarrow> Outpoint list \<Rightarrow> ('s, DemoQueries) gom" where
  "demoQueries ops txids outpts =
     (if txids = [] then throw PanicIndex
      else let txid = txids ! (length txids div 2) in
        bindM (drop_err zeroSeen (Seen ops txid)) (\<lambda>seen.
        bindM (drop_err zeroMined (Mined ops txid)) (\<lambda>mined.
        bindM (tryM (api_MerklePath ops txid)) (\<lambda>pr.
        if outpts = [] then throw PanicIndex
        else bindM (drop_err (status_only UTXOUnknown) (api_UTXO ops (outpts ! (length outpts div 2)))) (\<lambda>u.
        bindM (find_pruned ops outpts) (\<lambda>found.
        ret \<lparr>dq_Seen = sr_Seen seen, dq_Mined = mr_Mined mined, dq_Height = mr_Height mined,
             dq_Verifies = (case pr of Inl _ \<Rightarrow> False | Inr p \<Rightarrow> Verify p),
             dq_Depth = (case pr of Inl _ \<Rightarrow> 0 | Inr p \<Rightarrow> length (pf_L1 p) + length (pf_L2 p)),
             dq_UTXO = ur_Status u, dq_Pruned = found\<rparr>))))))"

datatype PayLine =
    POpenError go_error | PQuoteError go_error | PQueryError go_error
  | PSettled Snapshot Settlement uint32

definition demo_priv :: PrivateKey where
  "demo_priv = NewPrivateKey (str_bytes ''memserve-demo-client-key-0000001'')"

definition demo_params :: "bytes \<Rightarrow> bytes \<Rightarrow> Params" where
  "demo_params clientPub serverPub =
     (let fund = DoubleSHA256 (str_bytes ''demo-funding'')
      in \<lparr>pa_ChannelID = DeriveChannelID fund 0, pa_FundingTxID = fund, pa_FundingVout = 0, pa_ClientPub = clientPub,
          pa_ServerPub = serverPub, pa_FundingValue = 100000, pa_Fee = 250\<rparr>)"

definition demo_config :: "Params \<Rightarrow> Config" where
  "demo_config params =
     \<lparr>cf_Params = params, cf_Deposit = 100000, cf_ClientPub = Some (Public demo_priv),
      cf_Pricing = \<lparr>pg_Flat = False, pg_FlatPrice = 0, pg_PerType = [1, 1, 5, 2], pg_SettleFee = 200, pg_FeeMode = FeeUpfront\<rparr>,
      cf_N = 8, cf_RefundLockTime = 800000, cf_SettleBefore = 0\<rparr>"

text \<open>The loop of prepaid queries; \<open>Inl\<close> is the line on which the demonstration stops.\<close>

fun pay_loop ::
  "sig_check \<Rightarrow> 's store_ops \<Rightarrow> PrivateKey \<Rightarrow> Params \<Rightarrow> hash \<Rightarrow> nat \<Rightarrow> 's \<times> PaidServer \<Rightarrow> (PayLine + 's \<times> PaidServer) option" where
  "pay_loop vf ops priv params txid 0 st = Some (Inr st)"
| "pay_loop vf ops priv params txid (Suc n) st =
     (case paid_Quote (snd st) (pa_ChannelID params) QMerklePath of
        Inl err \<Rightarrow> Some (Inl (PQuoteError err))
      | Inr cum \<Rightarrow>
          Option.bind (SignCommitment (Some priv) params cum) (\<lambda>r.
          case paid_MerklePath vf ops (pa_ChannelID params) (case r of Inl _ \<Rightarrow> None | Inr c \<Rightarrow> Some c) txid st of
            (st', Inl err) \<Rightarrow> Some (Inl (PQueryError err))
          | (st', Inr _) \<Rightarrow> pay_loop vf ops priv params txid n st'))"

definition zeroSettlement :: Settlement where
  "zeroSettlement = \<lparr>se_ToServer = 0, se_ToClient = 0, se_MiningFee = 0, se_NetServer = 0, se_Accesses = 0\<rparr>"

text \<open>The end of the demonstration. The channel is shared with the registry, so its state is the registry's.\<close>

definition demo_end :: "Params \<Rightarrow> PayLine + 's \<times> PaidServer \<Rightarrow> PayLine" where
  "demo_end params r =
     (case r of Inl l \<Rightarrow> l
      | Inr (s, ps) \<Rightarrow>
          (let ch = the (fmlookup (ps_channels ps) (pa_ChannelID params))
           in PSettled (snapshot ch) (case snd (Settle ch) of Inl _ \<Rightarrow> zeroSettlement | Inr x \<Rightarrow> x)
                (rf_LockTime (refund (fst (Settle ch))))))"

definition demoPayment :: "sig_check \<Rightarrow> 's store_ops \<Rightarrow> hash list \<Rightarrow> 's \<Rightarrow> (go_error + PayLine) option" where
  "demoPayment vf ops txids s =
     (let serverPriv = NewPrivateKey (str_bytes ''memserve-demo-server-key-0000001'')
      in case SerializeCompressed (Public demo_priv) of Inl e \<Rightarrow> Some (Inl e)
         | Inr clientPub \<Rightarrow>
      (case SerializeCompressed (Public serverPriv) of Inl e \<Rightarrow> Some (Inl e)
       | Inr serverPub \<Rightarrow>
           let params = demo_params clientPub serverPub
           in case OpenChannel (demo_config params) (NewWithPolicy DefaultPolicy) of
                (ps, Inl err) \<Rightarrow> Some (Inr (POpenError err))
              | (ps, Inr ch) \<Rightarrow>
                  if txids = [] then Some (Inl PanicIndex)
                  else map_option (\<lambda>r. Inr (demo_end params r)) (pay_loop vf ops demo_priv params (txids ! 0) 4 (s, ps))))"

section \<open>The measuring loops\<close>

text \<open>One query of the benchmark; its answer and its error are dropped. An unknown kind asks nothing.\<close>

definition bench_ask :: "'s store_ops \<Rightarrow> hash list \<Rightarrow> Outpoint list \<Rightarrow> QueryKind \<Rightarrow> nat \<Rightarrow> ('s, unit) gom" where
  "bench_ask ops txids outpts kind i =
     (if kind = 3
      then (if outpts = [] then throw PanicDivide
            else bindM (tryM (api_UTXO ops (outpts ! (i mod length outpts)))) (\<lambda>_. ret ()))
      else if kind < 3
      then (if txids = [] then throw PanicDivide
            else let txid = txids ! (i mod length txids) in
              if kind = 0 then bindM (tryM (Seen ops txid)) (\<lambda>_. ret ())
              else if kind = 1 then bindM (tryM (Mined ops txid)) (\<lambda>_. ret ())
              else bindM (tryM (api_MerklePath ops txid)) (\<lambda>_. ret ()))
      else ret ())"

definition bench_worker ::
  "'s store_ops \<Rightarrow> hash list \<Rightarrow> Outpoint list \<Rightarrow> QueryKind \<Rightarrow> nat \<Rightarrow> nat \<Rightarrow> ('s, uint64) gom" where
  "bench_worker ops txids outpts kind ticks off =
     bindM (forM [0..<256 * ticks] (\<lambda>j. bench_ask ops txids outpts kind (off + j))) (\<lambda>_. ret (of_nat (256 * ticks)))"

text \<open>The workers only read the store, so the order in which they run does not matter; \<open>ticks w\<close> is for worker \<open>w\<close>.\<close>

fun bench_workers ::
  "'s store_ops \<Rightarrow> hash list \<Rightarrow> Outpoint list \<Rightarrow> QueryKind \<Rightarrow> (nat \<Rightarrow> nat) \<Rightarrow> nat list \<Rightarrow> uint64 \<Rightarrow> ('s, uint64) gom" where
  "bench_workers ops txids outpts kind ticks [] tot = ret tot"
| "bench_workers ops txids outpts kind ticks (w # ws) tot =
     bindM (bench_worker ops txids outpts kind (ticks w) (w * 7919)) (\<lambda>n.
     bench_workers ops txids outpts kind ticks ws (tot + n))"

definition bench_Throughput ::
  "'s store_ops \<Rightarrow> hash list \<Rightarrow> Outpoint list \<Rightarrow> QueryKind \<Rightarrow> int \<Rightarrow> (nat \<Rightarrow> nat) \<Rightarrow> ('s, uint64) gom" where
  "bench_Throughput ops txids outpts kind cores ticks =
     bench_workers ops txids outpts kind ticks [0..<nat (if cores < 1 then 1 else cores)] 0"

text \<open>
  A worker of the paid benchmark. When signing fails it returns without adding its count; when a query fails it
  opens the channel afresh.
\<close>

fun paid_turns ::
  "sig_check \<Rightarrow> 's store_ops \<Rightarrow> hash list \<Rightarrow> uint64 \<Rightarrow> nat \<Rightarrow> 's \<Rightarrow> PaidServer \<Rightarrow> PrivateKey \<Rightarrow> Params \<Rightarrow> nat \<Rightarrow> uint64 \<Rightarrow> uint64 \<Rightarrow>
   (go_error + uint64) option" where
  "paid_turns vf ops txids seed 0 s ps priv params i cum n = Some (Inr n)"
| "paid_turns vf ops txids seed (Suc t) s ps priv params i cum n =
     (let cum = cum + 1
      in case SignCommitment (Some priv) params cum of None \<Rightarrow> None
         | Some (Inl _) \<Rightarrow> Some (Inr 0)
         | Some (Inr c) \<Rightarrow>
             if txids = [] then Some (Inl PanicDivide)
             else case paid_Seen vf ops (pa_ChannelID params) (Some c) (txids ! (i mod length txids)) (s, ps) of
                    ((s', ps'), Inl _) \<Rightarrow>
                      (case newPaidChannel seed of Inl e \<Rightarrow> Some (Inl e)
                       | Inr (ps, priv, params) \<Rightarrow> paid_turns vf ops txids seed t s' ps priv params i 0 n)
                  | ((s', ps'), Inr _) \<Rightarrow> paid_turns vf ops txids seed t s' ps' priv params (i + 1) cum (n + 1))"

definition paid_worker :: "sig_check \<Rightarrow> 's store_ops \<Rightarrow> hash list \<Rightarrow> nat \<Rightarrow> nat \<Rightarrow> 's \<Rightarrow> (go_error + uint64) option" where
  "paid_worker vf ops txids ticks off s =
     (let seed = of_nat off + 1
      in case newPaidChannel seed of Inl e \<Rightarrow> Some (Inl e)
         | Inr (ps, priv, params) \<Rightarrow> paid_turns vf ops txids seed ticks s ps priv params off 0 0)"

section \<open>cmd/accelcheck\<close>

text \<open>The benchmark batch; a negative size panics in \<^verbatim>\<open>make\<close>.\<close>

definition MakeBatch :: "int \<Rightarrow> (go_error + VRequest list) option" where
  "MakeBatch m =
     (if m < 0 then Some (Inl PanicIndex)
      else collect (map (\<lambda>i.
        let seed = DoubleSHA256 [of_nat i, of_nat (i div 2 ^ 8), of_nat (i div 2 ^ 16), 0x11];
            priv = NewPrivateKey (slice seed);
            msg = slice (DoubleSHA256 [of_nat i, of_nat (i div 2 ^ 8), 0x22])
        in map_option (\<lambda>r. Inr \<lparr>rq_Pub = Some (Public priv), rq_Hash = msg,
                                 rq_Sig = (case r of Inl _ \<Rightarrow> None | Inr sig \<Rightarrow> Some sig)\<rparr>) (Sign (Some priv) msg)) [0..<nat m]))"

type_synonym backend = "VRequest list \<Rightarrow> (bool list, unit) gom"

fun throughput_turns :: "backend \<Rightarrow> VRequest list \<Rightarrow> nat \<Rightarrow> uint64 \<Rightarrow> (bool list, uint64) gom" where
  "throughput_turns v batch 0 n = ret n"
| "throughput_turns v batch (Suc t) n =
     bindM (v batch) (\<lambda>_. throughput_turns v batch t (n + of_nat (length batch)))"

definition accel_Throughput :: "backend \<Rightarrow> VRequest list \<Rightarrow> nat \<Rightarrow> go_error + uint64" where
  "accel_Throughput v batch ticks = snd (throughput_turns v batch ticks 0 (replicate (length batch) False))"

text \<open>The answers of a backend on a fresh output array, as \<open>Validate\<close> reads them.\<close>

definition answers :: "backend \<Rightarrow> VRequest list \<Rightarrow> bool list" where
  "answers v reqs = fst (v reqs (replicate (length reqs) False))"

text \<open>The exit status: 1 when the backend disagrees, 2 for a panic.\<close>

definition accelcheck :: "sig_verify \<Rightarrow> backend \<Rightarrow> int \<Rightarrow> int \<Rightarrow> nat \<Rightarrow> nat \<Rightarrow> nat option" where
  "accelcheck vf bv n batch refTicks ticks =
     (case Validate vf (answers bv) n of None \<Rightarrow> None
      | Some (Some err) \<Rightarrow> Some (if err = ErrMismatch then 1 else 2)
      | Some None \<Rightarrow>
          Option.bind (MakeBatch batch) (\<lambda>b.
          case b of Inl _ \<Rightarrow> Some 2
          | Inr b \<Rightarrow>
              Option.bind (MakeBatch 64) (\<lambda>rb.
              case rb of Inl _ \<Rightarrow> Some 2
              | Inr rb \<Rightarrow>
                  (case accel_Throughput (Reference_VerifyBatch vf) rb refTicks of Inl _ \<Rightarrow> Some 2
                   | Inr _ \<Rightarrow> (case accel_Throughput bv b ticks of Inl _ \<Rightarrow> Some 2 | Inr _ \<Rightarrow> Some 0)))))"

section \<open>The ingest command ends\<close>

lemma ingest_rows_mock:
  assumes "mem_inv st" and "pruner_D pr d" and "0 < d" and "0 < mc_SubtreesPer (mk_cfg m)" and "0 < mc_TxsPerSubtree (mk_cfg m)"
    and "is_Blocks tot = 0"
  shows "\<exists>rows txs made spent pruned live retained. ingest_rows blocks D m st pr tot h out =
    Some (out @ rows @ [IDone (h + nat (mc_Blocks (mk_cfg m) - mk_made m)) txs made spent pruned, IRetained live retained D])"
  using assms
proof (induction "nat (mc_Blocks (mk_cfg m) - mk_made m)" arbitrary: m st pr tot h out)
  case 0
  then show ?case by (subst ingest_rows.simps) (auto simp: mock_Next_def Let_def)
next
  case (Suc k)
  let ?inn = "\<lparr>in_k = 0, in_id = 0, in_skipValidate = False\<rparr>"
  have made: "mk_made m < mc_Blocks (mk_cfg m)" using Suc.hyps(2) by simp
  obtain m1 b s1 p1 st1 where nx: "mock_Next m = (m1, Inr (Some b))"
    and i: "IngestBlock mem_ops ?inn b (st, pr) = ((s1, p1), st1, None)"
    and inv: "mem_inv s1" "pruner_D p1 d" and fr: "mk_cfg m1 = mk_cfg m" "mk_made m1 = mk_made m + 1"
    by (rule mock_ingest_step [OF Suc.prems(1-5) made])
  have k: "k = nat (mc_Blocks (mk_cfg m1) - mk_made m1)" using Suc.hyps(2) fr by simp
  have n: "h + nat (mc_Blocks (mk_cfg m) - mk_made m) = h + 1 + nat (mc_Blocks (mk_cfg m1) - mk_made m1)" using Suc.hyps(2) k by simp
  have z: "is_Blocks (add_totals tot st1) = 0" using Suc.prems(6) by (simp add: add_totals_def)
  define row where "row = (let sts = so_Stats mem_ops s1 in
      if h mod 20 = 0 \<or> int h = blocks - 1
      then [IRow (bl_Height b) (sts_TxIndex sts) (sts_UTXOLive sts) (sts_UTXOSpent sts) (is_Pruned st1) (TotalPruned p1)] else [])"
  have step: "ingest_rows blocks D m st pr tot h out = ingest_rows blocks D m1 s1 p1 (add_totals tot st1) (h + 1) (out @ row)"
    by (subst ingest_rows.simps) (simp add: nx i row_def Let_def)
  have "\<exists>rows txs made spent pruned live retained. ingest_rows blocks D m1 s1 p1 (add_totals tot st1) (h + 1) (out @ row) =
      Some ((out @ row) @ rows @ [IDone (h + 1 + nat (mc_Blocks (mk_cfg m1) - mk_made m1)) txs made spent pruned, IRetained live retained D])"
    by (rule Suc.hyps(1) [OF k inv Suc.prems(3) _ _ z]) (use Suc.prems(4,5) fr in simp_all)
  then show ?case unfolding step n by (metis append.assoc)
qed

text \<open>
  The command ends for every choice of flags whose depth is not zero. It prints the policy, some rows, and as its summary the
  number of blocks it was asked for (at least one); no error line is ever printed.
\<close>

theorem ingest_main_returns:
  assumes "ucast (gf_reorg fl) + ucast (gf_recency fl) \<noteq> (0 :: uint32)"
  shows "\<exists>rows txs made spent pruned live retained. ingest_main fl =
    Some ([IPolicy (ucast (gf_reorg fl) + ucast (gf_recency fl)) (ucast (gf_reorg fl)) (ucast (gf_recency fl))] @ rows @
      [IDone (nat (max 1 (gf_blocks fl))) txs made spent pruned,
       IRetained live retained (ucast (gf_reorg fl) + ucast (gf_recency fl))])"
proof -
  let ?pol = "\<lparr>po_ReorgHorizon = ucast (gf_reorg fl), po_RecencyWindow = ucast (gf_recency fl), po_IndexRetention = 0\<rparr>"
  let ?cfg = "\<lparr>mc_Blocks = gf_blocks fl, mc_SubtreesPer = gf_subtrees fl, mc_TxsPerSubtree = gf_txs fl,
    mc_SpendFraction = gf_spendFrac fl, mc_StartHeight = 0, mc_Seed = 0\<rparr>"
  have d: "pruner_D (Some (NewPruner ?pol)) (unat (policy_D ?pol))" by (simp add: pruner_D_def NewPruner_def)
  have "0 < unat (policy_D ?pol)" using assms by (simp add: policy_D_def unat_gt_0)
  from ingest_rows_mock [OF mem_inv_New d this NewMock_positive(2,3) [of ?cfg], of zeroStats "gf_blocks fl" "policy_D ?pol" 0
      "[IPolicy (policy_D ?pol) (po_ReorgHorizon ?pol) (po_RecencyWindow ?pol)]"]
  show ?thesis by (simp add: ingest_main_def Let_def NewMock_blocks zeroStats_def policy_D_def)
qed

section \<open>The payment demonstration\<close>

text \<open>The channel of the demonstration after \<open>n\<close> paid queries.\<close>

definition demo_state :: "Params \<Rightarrow> nat \<Rightarrow> PaidServer \<Rightarrow> bool" where
  "demo_state params n ps \<longleftrightarrow>
     (\<exists>ch. fmlookup (ps_channels ps) (pa_ChannelID params) = Some ch \<and> ch_cfg ch = demo_config params \<and> \<not> ch_closed ch \<and>
       ch_accesses ch = of_nat n \<and> ch_cumPaid ch = (if n = 0 then 0 else 200 + 5 * of_nat n))"

lemma demo_quote:
  assumes "demo_state params n ps" and "n \<le> 3" and "paid_Quote ps (pa_ChannelID params) QMerklePath = Inr cum"
  shows "cum = 205 + 5 * of_nat n"
proof -
  have "n \<in> {0, 1, 2, 3}" using assms(2) by auto
  then show ?thesis
    using assms by (auto simp: demo_state_def paid_Quote_def Payment.lookup_def Quote_def service_def feeComponent_def demo_config_def split: if_splits)
qed

lemma SignCommitment_amount: "SignCommitment priv params cum = Some (Inr c) \<Longrightarrow> cm_CumAmount c = cum"
  by (cases "sighash params cum"; cases "Sign priv (projr (sighash params cum))"; cases "the (Sign priv (projr (sighash params cum)))")
    (auto simp: SignCommitment_def)

lemma demo_paid:
  assumes "demo_state params n ps" and "n \<le> 3" and "paid_Quote ps (pa_ChannelID params) QMerklePath = Inr cum"
    and "\<And>c. oc = Some c \<Longrightarrow> cm_CumAmount c = cum"
    and "paid_MerklePath vf ops (pa_ChannelID params) oc txid (s, ps) = ((s', ps'), Inr pf)"
  shows "demo_state params (Suc n) ps'"
proof -
  have cum: "cum = 205 + 5 * of_nat n" by (rule demo_quote [OF assms(1-3)])
  obtain ch where ch: "fmlookup (ps_channels ps) (pa_ChannelID params) = Some ch" "ch_cfg ch = demo_config params" "\<not> ch_closed ch"
    "ch_accesses ch = of_nat n"
    using assms(1) by (auto simp: demo_state_def)
  have a: "authorize vf (pa_ChannelID params) oc QMerklePath ps = (ps', None)"
    using assms(5) by (auto simp: paid_MerklePath_def prepaid_def on_fst_def split: prod.splits option.splits)
  then obtain ch' where ch': "Authorize_with vf ch oc QMerklePath = (ch', None)"
    and ps': "ps' = ps\<lparr>ps_channels := fmupd (pa_ChannelID params) ch' (ps_channels ps)\<rparr>"
    using ch(1) by (auto simp: authorize_def Payment.lookup_def Let_def split: prod.splits option.splits if_splits)
  obtain c where c: "oc = Some c" using ch' by (cases oc) (auto simp: Authorize_with_def split: if_splits)
  have "ch' = ch\<lparr>ch_cumPaid := cm_CumAmount c, ch_accesses := ch_accesses ch + 1, ch_best := Some c\<rparr>"
    using ch' by (auto simp: c Authorize_with_def Let_def split: if_splits sum.splits bool.splits)
  then show ?thesis using ch assms(4) [OF c] by (simp add: demo_state_def ps' cum algebra_simps)
qed

lemma demo_loop:
  assumes "demo_state params n (snd st)" and "n + k \<le> 4" and "pay_loop vf ops priv params txid k st = Some (Inr st')"
  shows "demo_state params (n + k) (snd st')"
  using assms
proof (induction k arbitrary: n st)
  case (Suc k)
  obtain s ps where st: "st = (s, ps)" by fastforce
  obtain cum where q: "paid_Quote ps (pa_ChannelID params) QMerklePath = Inr cum"
    using Suc.prems(3) by (auto simp: st split: sum.splits)
  obtain r where r: "SignCommitment (Some priv) params cum = Some r"
    using Suc.prems(3) q by (cases "SignCommitment (Some priv) params cum") (auto simp: st)
  let ?oc = "case r of Inl _ \<Rightarrow> None | Inr c \<Rightarrow> Some c"
  obtain s1 ps1 pf where p: "paid_MerklePath vf ops (pa_ChannelID params) ?oc txid (s, ps) = ((s1, ps1), Inr pf)"
    and rest: "pay_loop vf ops priv params txid k (s1, ps1) = Some (Inr st')"
    using Suc.prems(3) q r by (auto simp: st split: prod.splits sum.splits)
  have amount: "cm_CumAmount c = cum" if "?oc = Some c" for c using that r SignCommitment_amount by (auto split: sum.splits)
  have "demo_state params (Suc n) ps1" by (rule demo_paid [OF _ _ q amount p]) (use Suc.prems st in auto)
  then show ?case using Suc.IH [of "Suc n" "(s1, ps1)"] rest Suc.prems(2) by simp
qed simp

lemma pay_loop_error: "pay_loop vf ops priv params txid k st = Some (Inl l) \<Longrightarrow> l \<noteq> PSettled snap settle lock"
proof (induction k arbitrary: st)
  case (Suc k)
  then show ?case
    by (cases "paid_Quote (snd st) (pa_ChannelID params) QMerklePath"; cases "SignCommitment (Some priv) params (projr (paid_Quote (snd st) (pa_ChannelID params) QMerklePath))")
      (auto split: prod.splits sum.splits)
qed simp

text \<open>
  The demonstration shows what it says: whenever it gets to the settlement, four proofs have been paid for, at 5 satoshis each
  and a settlement fee of 200 once; the settlement gives 220 to the server, 20 of them net of the fee, and
  the rest of the deposit back to the client.
\<close>

theorem demo_payment_settles:
  "case demoPayment vf ops txids s of
     Some (Inr (PSettled snap settle lock)) \<Rightarrow>
       snap = \<lparr>sn_Accesses = 4, sn_CumPaid = 220, sn_Deposit = 100000, sn_Closed = False\<rparr> \<and>
       settle = \<lparr>se_ToServer = 220, se_ToClient = 99780, se_MiningFee = 200, se_NetServer = 20, se_Accesses = 4\<rparr> \<and> lock = 800000
   | _ \<Rightarrow> True"
proof (cases "\<exists>snap settle lock. demoPayment vf ops txids s = Some (Inr (PSettled snap settle lock))")
  case True
  then obtain snap settle lock where d: "demoPayment vf ops txids s = Some (Inr (PSettled snap settle lock))" by blast
  obtain clientPub serverPub ps ch0 where cp: "SerializeCompressed (Public demo_priv) = Inr clientPub"
    and o: "OpenChannel (demo_config (demo_params clientPub serverPub)) (NewWithPolicy DefaultPolicy) = (ps, Inr ch0)"
    and sp: "SerializeCompressed (Public (NewPrivateKey (str_bytes ''memserve-demo-server-key-0000001''))) = Inr serverPub"
    using d by (auto simp: demoPayment_def Let_def split: sum.splits prod.splits)
  define params where "params = demo_params clientPub serverPub"
  obtain r where r: "pay_loop vf ops demo_priv params (txids ! 0) 4 (s, ps) = Some r" and res: "demo_end params r = PSettled snap settle lock"
    using d o by (auto simp: demoPayment_def Let_def cp sp params_def split: if_splits)
  from res pay_loop_error [of vf ops demo_priv params "txids ! 0" 4 "(s, ps)"] r obtain s' ps' where "r = Inr (s', ps')"
    by (cases r) (auto simp: demo_end_def)
  with r have l: "pay_loop vf ops demo_priv params (txids ! 0) 4 (s, ps) = Some (Inr (s', ps'))" by simp
  have ne: "clientPub \<noteq> []" using cp by (auto simp: SerializeCompressed_def Let_def split: option.splits sum.splits if_splits)
  have "demo_state params 0 ps"
    using o ne by (auto simp: OpenChannel_def Open_def NewWithPolicy_def DefaultPolicy_def demo_state_def params_def demo_config_def demo_params_def Let_def
        split: sum.splits if_splits)
  from demo_loop [of params 0 "(s, ps)" 4, OF _ _ l] this have "demo_state params 4 ps'" by simp
  then obtain ch where ch: "fmlookup (ps_channels ps') (pa_ChannelID params) = Some ch" "ch_cfg ch = demo_config params" "\<not> ch_closed ch"
    "ch_accesses ch = 4" "ch_cumPaid ch = 220"
    by (auto simp: demo_state_def)
  show ?thesis using res ch \<open>r = Inr (s', ps')\<close> by (auto simp: d demo_end_def Let_def snapshot_def Settle_def refund_def demo_config_def)
next
  case False
  then show ?thesis by (auto split: option.split sum.split PayLine.split)
qed

section \<open>What the measuring loops count\<close>

lemma bench_ask_ok: "txids \<noteq> [] \<Longrightarrow> outpts \<noteq> [] \<Longrightarrow> \<exists>s'. bench_ask ops txids outpts kind i s = (s', Inr ())"
  by (auto simp: bench_ask_def bindM_def tryM_def ret_def Let_def split: prod.splits)

lemma bench_worker_ok:
  assumes "txids \<noteq> []" and "outpts \<noteq> []"
  shows "\<exists>s'. bench_worker ops txids outpts kind ticks off s = (s', Inr (of_nat (256 * ticks)))"
proof -
  have "\<exists>s'. forM js (\<lambda>j. bench_ask ops txids outpts kind (off + j)) s = (s', Inr ())" for js
  proof (induction js arbitrary: s)
    case (Cons j js)
    obtain s1 where "bench_ask ops txids outpts kind (off + j) s = (s1, Inr ())" using bench_ask_ok [OF assms, of ops kind "off + j" s] by blast
    then show ?case using Cons.IH [of s1] by (simp add: bindM_def)
  qed (simp add: ret_def)
  then obtain s' where "forM [0..<256 * ticks] (\<lambda>j. bench_ask ops txids outpts kind (off + j)) s = (s', Inr ())" by blast
  then show ?thesis by (simp add: bench_worker_def bindM_def ret_def)
qed

text \<open>
  On any sample that is not empty the benchmark does not panic, whatever the backend answers, and counts 256 answers for every clock
  reading of every worker; with fewer than one core it measures one.
\<close>

lemma bench_throughput_counts:
  assumes "txids \<noteq> []" and "outpts \<noteq> []"
  shows "snd (bench_Throughput ops txids outpts kind cores ticks s) = Inr (of_nat (\<Sum>w < nat (max 1 cores). 256 * ticks w))"
proof -
  have "snd (bench_workers ops txids outpts kind ticks ws tot s) = Inr (tot + of_nat (\<Sum>w\<leftarrow>ws. 256 * ticks w))" for ws tot
  proof (induction ws arbitrary: tot s)
    case (Cons w ws)
    obtain s1 where "bench_worker ops txids outpts kind (ticks w) (w * 7919) s = (s1, Inr (of_nat (256 * ticks w)))"
      using bench_worker_ok [OF assms, of ops kind "ticks w" "w * 7919" s] by blast
    then show ?case using Cons.IH by (simp add: bindM_def)
  qed (simp add: ret_def)
  moreover have "(if cores < 1 then 1 else cores) = max 1 cores" by simp
  ultimately show ?thesis by (simp add: bench_Throughput_def sum_list_distinct_conv_sum_set atLeast0LessThan)
qed

lemma accelcheck_zero:
  assumes "accelcheck vf bv n batch refTicks ticks = Some 0"
  shows "\<exists>cases. testVectors vf (nat (max 8 n)) = Some (Inr cases) \<and> (\<forall>i < length cases. answers bv (map fst cases) ! i = snd (cases ! i))"
proof -
  have v: "Validate vf (answers bv) n = Some None" using assms by (auto simp: accelcheck_def split: option.splits if_splits)
  have m: "(if n < 8 then 8 else n) = max 8 n" by simp
  obtain r where r: "testVectors vf (nat (max 8 n)) = Some r" using v unfolding Validate_def m by auto
  then obtain cases where "r = Inr cases" "disagreement (answers bv (map fst cases)) (map snd cases) = None"
    using v unfolding Validate_def m by (cases r) (auto split: option.splits)
  with r have "testVectors vf (nat (max 8 n)) = Some (Inr cases)" "disagreement (answers bv (map fst cases)) (map snd cases) = None" by simp_all
  then show ?thesis by (auto simp: disagreement_def find_None_iff)
qed

end
