(* ===== verification/History.thy ===== *)
theory History
  imports Api
begin

text \<open>
  What a whole run of the ingestor serves. The single-block lemmas of theory Ingest are lifted to any sequence of
  blocks: the store always holds the position of every transaction in the latest block that has it, and the
  queries answer from that history and nothing else.
\<close>

section \<open>Histories\<close>

definition txids_of :: "Block \<Rightarrow> hash list" where
  "txids_of b = concat (map su_TxIDs (bl_Subtrees b))"

text \<open>A block that passes validation and is well formed in what validation does not check.\<close>

definition wf_block :: "Block \<Rightarrow> bool" where
  "wf_block b \<longleftrightarrow>
     validateBlock b = None \<and> (\<forall>sub\<in>set (bl_Subtrees b). map tx_TxID (su_Txs sub) = su_TxIDs sub \<and> length (su_TxIDs sub) \<le> 2 ^ 20) \<and>
     length (bl_Subtrees b) \<le> 2 ^ 32"

text \<open>No block hash names two blocks and no subtree root two lists of transactions, as for a hash without collisions.\<close>

definition coherent :: "Block list \<Rightarrow> bool" where
  "coherent bs \<longleftrightarrow>
     (\<forall>b\<in>set bs. \<forall>b'\<in>set bs. bl_Hash b = bl_Hash b' \<longrightarrow> block_rec b = block_rec b') \<and>
     (\<forall>sub\<in>set (concat (map bl_Subtrees bs)). \<forall>sub'\<in>set (concat (map bl_Subtrees bs)).
        su_Root sub = su_Root sub' \<longrightarrow> su_TxIDs sub = su_TxIDs sub')"

text \<open>The last block of the history that has the transaction, for a transaction of the shard.\<close>

definition latest :: "Ingestor \<Rightarrow> Block list \<Rightarrow> hash \<Rightarrow> Block option" where
  "latest inn bs txid = (if owns inn txid then find (\<lambda>b. txid \<in> set (txids_of b)) (rev bs) else None)"

definition located :: "Block \<Rightarrow> nat \<Rightarrow> nat \<Rightarrow> hash \<Rightarrow> bool" where
  "located b si li txid \<longleftrightarrow>
     si < length (bl_Subtrees b) \<and> li < length (su_TxIDs (bl_Subtrees b ! si)) \<and> su_TxIDs (bl_Subtrees b ! si) ! li = txid"

definition holds :: "Ingestor \<Rightarrow> Block list \<Rightarrow> FlatStore \<Rightarrow> bool" where
  "holds inn bs a \<longleftrightarrow>
     (\<forall>txid. case latest inn bs txid of None \<Rightarrow> fs_txindex a txid = None
        | Some b \<Rightarrow> \<exists>si li. located b si li txid \<and> fs_txindex a txid = Some (tx_index b si li)) \<and>
     (\<forall>b\<in>set bs. fs_blocks a (bl_Hash b) = Some (block_rec b)) \<and>
     (\<forall>sub\<in>set (concat (map bl_Subtrees bs)). ownAny inn sub \<longrightarrow> fs_subtree a (su_Root sub) = Some (su_TxIDs sub))"

section \<open>One block more\<close>

lemma latest_snoc: "latest inn (bs @ [b]) txid = (if owns inn txid \<and> txid \<in> set (txids_of b) then Some b else latest inn bs txid)"
  by (simp add: latest_def)

lemma find_mem: "find P xs = Some x \<Longrightarrow> x \<in> set xs \<and> P x"
  by (induction xs) (auto split: if_splits)

lemma latest_Some: "latest inn bs txid = Some b \<Longrightarrow> b \<in> set bs \<and> owns inn txid \<and> txid \<in> set (txids_of b)"
  by (auto simp: latest_def split: if_splits dest: find_mem)

lemma coherent_prefix: "coherent (bs @ bs') \<Longrightarrow> coherent bs"
  by (simp add: coherent_def)

lemma owned_located:
  assumes "wf_block b"
  shows "(si, li, tx) \<in> set (owned_txs inn b) \<Longrightarrow> located b si li (tx_TxID tx) \<and> owns inn (tx_TxID tx)"
    and "owns inn txid \<Longrightarrow> txid \<in> set (txids_of b) \<Longrightarrow> txid \<in> (\<lambda>(si, li, tx). tx_TxID tx) ` set (owned_txs inn b)"
proof -
  have par: "map tx_TxID (su_Txs (bl_Subtrees b ! i)) = su_TxIDs (bl_Subtrees b ! i)" if "i < length (bl_Subtrees b)" for i
    using assms that by (simp add: wf_block_def)
  show "(si, li, tx) \<in> set (owned_txs inn b) \<Longrightarrow> located b si li (tx_TxID tx) \<and> owns inn (tx_TxID tx)"
    using par [of si] by (auto simp: owned_txs_def block_txs_mem located_def) (metis length_map, metis nth_map)
  assume own: "owns inn txid" and "txid \<in> set (txids_of b)"
  then obtain i j where "i < length (bl_Subtrees b)" "j < length (su_TxIDs (bl_Subtrees b ! i))" "su_TxIDs (bl_Subtrees b ! i) ! j = txid"
    by (auto simp: txids_of_def in_set_conv_nth)
  with par [of i] have "(i, j, su_Txs (bl_Subtrees b ! i) ! j) \<in> set (block_txs b)" "tx_TxID (su_Txs (bl_Subtrees b ! i) ! j) = txid"
    by (auto simp: block_txs_mem) (metis length_map, metis length_map nth_map)
  then show "txid \<in> (\<lambda>(si, li, tx). tx_TxID tx) ` set (owned_txs inn b)" using own by (force simp: owned_txs_def)
qed

lemma located_mem: "located b si li txid \<Longrightarrow> bl_Subtrees b ! si \<in> set (bl_Subtrees b) \<and> txid \<in> set (su_TxIDs (bl_Subtrees b ! si))"
  by (auto simp: located_def)

lemma fold_tx_effect_other:
  "txid \<notin> (\<lambda>(si, li, tx). tx_TxID tx) ` set xs \<Longrightarrow> fs_txindex (fold (tx_effect b) xs a) txid = fs_txindex a txid"
  by (induction xs arbitrary: a) (auto simp: tx_effect_def flat_PutTxIndex_def)

lemma fold_put_subtree_coherent:
  fixes a :: FlatStore
  assumes "\<forall>sub\<in>set xs. \<forall>sub'\<in>set xs. su_Root sub = su_Root sub' \<longrightarrow> su_TxIDs sub = su_TxIDs sub'"
  shows "fs_subtree (fold (\<lambda>sub a. a\<lparr>fs_subtree := (fs_subtree a)(su_Root sub \<mapsto> su_TxIDs sub)\<rparr>) xs a) r =
    (case find (\<lambda>sub. su_Root sub = r) xs of Some sub \<Rightarrow> Some (su_TxIDs sub) | None \<Rightarrow> fs_subtree a r)"
  using assms
proof (induction xs arbitrary: a)
  case (Cons x xs)
  have ih: "fs_subtree (fold (\<lambda>sub a. a\<lparr>fs_subtree := (fs_subtree a)(su_Root sub \<mapsto> su_TxIDs sub)\<rparr>) xs a') r =
    (case find (\<lambda>sub. su_Root sub = r) xs of Some sub \<Rightarrow> Some (su_TxIDs sub) | None \<Rightarrow> fs_subtree a' r)" for a' :: FlatStore
    by (rule Cons.IH) (meson Cons.prems list.set_intros(2))
  show ?case
  proof (cases "find (\<lambda>sub. su_Root sub = r) xs")
    case (Some y)
    then have y: "su_Root y = r" "y \<in> set xs" using find_mem [OF Some] by simp_all
    then have "su_TxIDs x = su_TxIDs y" if "su_Root x = r" using Cons.prems that by (metis list.set_intros)
    with Some show ?thesis by (simp only: fold_simps ih) simp
  next
    case None
    then show ?thesis by (simp only: fold_simps ih) simp
  qed
qed simp

lemma put_subtree_frame:
  "fs_blocks (fold (\<lambda>sub a. a\<lparr>fs_subtree := (fs_subtree a)(su_Root sub \<mapsto> su_TxIDs sub)\<rparr>) xs a) = fs_blocks a"
  "fs_txindex (fold (\<lambda>sub a. a\<lparr>fs_subtree := (fs_subtree a)(su_Root sub \<mapsto> su_TxIDs sub)\<rparr>) xs a) = fs_txindex a"
  by (induction xs arbitrary: a) simp_all

lemma block_effect_sel:
  "fs_blocks (block_effect inn b a) = (fs_blocks a)(bl_Hash b \<mapsto> block_rec b)"
  "fs_subtree (block_effect inn b a) =
     fs_subtree (fold (\<lambda>sub a. a\<lparr>fs_subtree := (fs_subtree a)(su_Root sub \<mapsto> su_TxIDs sub)\<rparr>) (filter (ownAny inn) (bl_Subtrees b)) a)"
  by (simp_all add: block_effect_def fold_tx_effect_frame flat_ops_def flat_PutBlock_def block_rec_def put_subtree_frame)

lemma block_effect_index:
  assumes "wf_block b"
  shows "if owns inn txid \<and> txid \<in> set (txids_of b)
    then \<exists>si li. located b si li txid \<and> fs_txindex (block_effect inn b a) txid = Some (tx_index b si li)
    else fs_txindex (block_effect inn b a) txid = fs_txindex a txid"
proof (cases "owns inn txid \<and> txid \<in> set (txids_of b)")
  case True
  from fold_tx_effect_index [OF owned_located(2) [OF assms]] True owned_located(1) [OF assms] show ?thesis
    by (fastforce simp: block_effect_def)
next
  case False
  then have "txid \<notin> (\<lambda>(si, li, tx). tx_TxID tx) ` set (owned_txs inn b)"
    using owned_located(1) [OF assms] located_mem by (fastforce simp: txids_of_def)
  from fold_tx_effect_other [OF this] have "fs_txindex (block_effect inn b a) txid = fs_txindex a txid"
    by (simp add: block_effect_def flat_ops_def flat_PutBlock_def put_subtree_frame)
  then show ?thesis using False by (simp only: if_False)
qed

lemma holdsD:
  assumes "holds inn bs a"
  shows "case latest inn bs txid of None \<Rightarrow> fs_txindex a txid = None
      | Some b \<Rightarrow> \<exists>si li. located b si li txid \<and> fs_txindex a txid = Some (tx_index b si li)"
    and "b \<in> set bs \<Longrightarrow> fs_blocks a (bl_Hash b) = Some (block_rec b)"
    and "sub \<in> set (concat (map bl_Subtrees bs)) \<Longrightarrow> ownAny inn sub \<Longrightarrow> fs_subtree a (su_Root sub) = Some (su_TxIDs sub)"
  using assms unfolding holds_def by blast+

lemma coherentD:
  assumes "coherent bs"
  shows "b \<in> set bs \<Longrightarrow> b' \<in> set bs \<Longrightarrow> bl_Hash b = bl_Hash b' \<Longrightarrow> block_rec b = block_rec b'"
    and "sub \<in> set (concat (map bl_Subtrees bs)) \<Longrightarrow> sub' \<in> set (concat (map bl_Subtrees bs)) \<Longrightarrow>
      su_Root sub = su_Root sub' \<Longrightarrow> su_TxIDs sub = su_TxIDs sub'"
  using assms unfolding coherent_def by blast+

lemma step_index:
  assumes "holds inn bs a" and "wf_block b"
  shows "case latest inn (bs @ [b]) txid of None \<Rightarrow> fs_txindex (block_effect inn b a) txid = None
      | Some b' \<Rightarrow> \<exists>si li. located b' si li txid \<and> fs_txindex (block_effect inn b a) txid = Some (tx_index b' si li)"
proof (cases "owns inn txid \<and> txid \<in> set (txids_of b)")
  case True
  then show ?thesis using block_effect_index [OF assms(2), of inn txid a] by (simp add: latest_snoc)
next
  case False
  then have "fs_txindex (block_effect inn b a) txid = fs_txindex a txid" "latest inn (bs @ [b]) txid = latest inn bs txid"
    using block_effect_index [OF assms(2), of inn txid a] by (simp_all only: latest_snoc if_False)
  then show ?thesis using holdsD(1) [OF assms(1), of txid] by (simp only:)
qed

lemma step_blocks:
  assumes "holds inn bs a" and "coherent (bs @ [b])" and "b' \<in> set (bs @ [b])"
  shows "fs_blocks (block_effect inn b a) (bl_Hash b') = Some (block_rec b')"
proof (cases "bl_Hash b' = bl_Hash b")
  case True
  then show ?thesis using coherentD(1) [OF assms(2,3), of b] by (simp add: block_effect_sel(1))
next
  case False
  then show ?thesis using assms(3) holdsD(2) [OF assms(1), of b'] by (auto simp: block_effect_sel(1))
qed

lemma step_subtrees:
  assumes "holds inn bs a" and "coherent (bs @ [b])" and "sub \<in> set (concat (map bl_Subtrees (bs @ [b])))" and "ownAny inn sub"
  shows "fs_subtree (block_effect inn b a) (su_Root sub) = Some (su_TxIDs sub)"
proof -
  let ?own = "filter (ownAny inn) (bl_Subtrees b)"
  have m: "s \<in> set (concat (map bl_Subtrees (bs @ [b])))" if "s \<in> set ?own" for s using that by simp
  have "\<forall>s\<in>set ?own. \<forall>s'\<in>set ?own. su_Root s = su_Root s' \<longrightarrow> su_TxIDs s = su_TxIDs s'"
    using coherentD(2) [OF assms(2) m m] by blast
  note f = fold_put_subtree_coherent [OF this, of a "su_Root sub"]
  show ?thesis
  proof (cases "find (\<lambda>s. su_Root s = su_Root sub) ?own")
    case None
    then have "sub \<notin> set (bl_Subtrees b)" using assms(4) by (auto simp: find_None_iff)
    with assms(3) have "sub \<in> set (concat (map bl_Subtrees bs))" by simp
    from holdsD(3) [OF assms(1) this assms(4)] None f show ?thesis by (simp add: block_effect_sel(2))
  next
    case (Some s)
    then have "s \<in> set ?own" "su_Root s = su_Root sub" using find_mem [OF Some] by blast+
    then have "su_TxIDs s = su_TxIDs sub" using coherentD(2) [OF assms(2) m assms(3)] by blast
    with Some f show ?thesis by (simp add: block_effect_sel(2))
  qed
qed

lemma holds_step:
  assumes "holds inn bs a" and "wf_block b" and "coherent (bs @ [b])"
  shows "holds inn (bs @ [b]) (evict S {} (block_effect inn b a))"
proof -
  let ?a = "block_effect inn b a"
  have e: "fs_txindex (evict S {} ?a) = fs_txindex ?a" "fs_blocks (evict S {} ?a) = fs_blocks ?a" "fs_subtree (evict S {} ?a) = fs_subtree ?a"
    by (simp_all add: evict_sel listed_def restrict_map_def)
  show ?thesis
    unfolding holds_def e
    using step_index [OF assms(1,2)] step_blocks [OF assms(1,3)] step_subtrees [OF assms(1,3)] by blast
qed

lemma holds_empty: "holds inn [] emptyFlat"
  by (simp add: holds_def latest_def emptyFlat_def)

section \<open>A run of the ingestor\<close>

lemma run_holds_flat:
  assumes "holds inn bs0 a" and "pruner_D p d" and "0 < d" and "keeps_index p" and "\<forall>b\<in>set bs. wf_block b" and "coherent (bs0 @ bs)"
  shows "holds inn (bs0 @ bs) (fst (ingest_all flat_ops inn bs (a, p)))"
  using assms
proof (induction bs arbitrary: bs0 a p)
  case (Cons b bs)
  have w: "wf_block b" and c: "coherent (bs0 @ [b])" using Cons.prems(5,6) coherent_prefix [of "bs0 @ [b]" bs] by simp_all
  have k: "swept_index p (bl_Height b) = {}"
    using Cons.prems(4) by (auto simp: keeps_index_def swept_index_def due_index_def split: option.splits)
  obtain p' st where i: "IngestBlock flat_ops inn b (a, p) = ((evict (swept p (bl_Height b)) {} (block_effect inn b a), p'), st, None)"
    and adv: "advance p (bl_Height b) p'"
    using ingest_block_flat [OF pruner_D_ok [OF Cons.prems(2,3)], of inn b a] w by (auto simp: k wf_block_def)
  have "keeps_index p'" using Cons.prems(4) adv by (auto simp: keeps_index_def advance_def split: option.splits)
  from Cons.IH [OF holds_step [OF Cons.prems(1) w c] pruner_D_advance [OF Cons.prems(2) adv] Cons.prems(3) this] Cons.prems(5,6)
  show ?case by (simp add: i)
qed simp

lemma run_holds:
  assumes "pruner_D p d" and "0 < d" and "keeps_index p" and "\<forall>b\<in>set bs. wf_block b" and "coherent bs"
  shows "mem_inv (fst (ingest_all mem_ops inn bs (New, p)))" and "holds inn bs (mem_abs (fst (ingest_all mem_ops inn bs (New, p))))"
proof -
  note sim = mem.ingest_all_sim [OF mem_inv_New, of inn bs p]
  show "mem_inv (fst (ingest_all mem_ops inn bs (New, p)))" using sim by blast
  have "mem_abs (fst (ingest_all mem_ops inn bs (New, p))) = fst (ingest_all flat_ops inn bs (emptyFlat, p))"
    using sim by (simp add: mem_abs_New)
  then show "holds inn bs (mem_abs (fst (ingest_all mem_ops inn bs (New, p))))"
    using run_holds_flat [OF holds_empty assms(1-4)] assms(5) by simp
qed

lemma holds_provable:
  assumes "holds inn bs a" and "latest inn bs txid = Some b" and "wf_block b"
  shows "\<exists>si li leaves. provable a txid (tx_index b si li) (block_rec b) leaves"
proof -
  note l = latest_Some [OF assms(2)]
  obtain si li where t: "located b si li txid" "fs_txindex a txid = Some (tx_index b si li)"
    using holdsD(1) [OF assms(1), of txid] assms(2) by auto
  let ?sub = "bl_Subtrees b ! si"
  have si: "si < length (bl_Subtrees b)" and li: "li < length (su_TxIDs ?sub)" "su_TxIDs ?sub ! li = txid"
    using t(1) by (simp_all add: located_def)
  have v: "validateBlock b = None" and len: "length (su_TxIDs ?sub) \<le> 2 ^ 20" "length (bl_Subtrees b) \<le> 2 ^ 32"
    using assms(3) si by (simp_all add: wf_block_def)
  note vs = validateBlock_sound [OF v]
  have own: "ownAny inn ?sub" using l located_mem [OF t(1)] by (auto simp: ownAny_def list_ex_iff)
  have r: "su_Root ?sub = bl_SubtreeRoots b ! si" using si vs(2) by (metis nth_map)
  have "?sub \<in> set (concat (map bl_Subtrees bs))" using l nth_mem [OF si] by auto
  from holdsD(3) [OF assms(1) this own] have sub: "fs_subtree a (bl_SubtreeRoots b ! si) = Some (su_TxIDs ?sub)" by (simp add: r)
  have idx: "unat (of_nat si :: uint32) = si" "unat (of_nat li :: uint32) = li" using si li len by (simp_all add: unat_of_nat)
  have blk: "fs_blocks a (bl_Hash b) = Some (block_rec b)" by (rule holdsD(2) [OF assms(1)]) (use l in blast)
  have "provable a txid (tx_index b si li) (block_rec b) (su_TxIDs ?sub)"
    using vs(1) vs(3) [OF si] vs(4) si sub t(2) li len idx blk by (simp add: provable_def tx_index_def block_rec_def)
  then show ?thesis by blast
qed

section \<open>What it answers\<close>

definition mined_in :: "Block option \<Rightarrow> MinedResult" where
  "mined_in r = (case r of None \<Rightarrow> \<lparr>mr_Mined = False, mr_BlockHash = copy_from [], mr_Height = 0, mr_BlockTime = 0\<rparr>
     | Some b \<Rightarrow> \<lparr>mr_Mined = True, mr_BlockHash = bl_Hash b, mr_Height = bl_Height b, mr_BlockTime = bl_Time b\<rparr>)"

lemma mined_flat:
  assumes "holds inn bs a"
  shows "snd (Mined flat_ops txid a) = Inr (mined_in (latest inn bs txid))"
    and "\<exists>r. snd (Seen flat_ops txid a) = Inr r \<and> sr_Seen r = (latest inn bs txid \<noteq> None)"
    and "latest inn bs txid = None \<Longrightarrow> snd (Build flat_ops txid a) = Inl ErrNotMined"
  using holdsD(1) [OF assms, of txid]
  by (auto simp: Mined_def Seen_def Build_def mined_in_def flat_ops_def bindM_def ret_def throw_def tx_index_def split: option.splits)

lemma snd_sim: "implements iv af m m' \<Longrightarrow> iv s \<Longrightarrow> snd (m s) = snd (m' (af s))"
  by (cases "m s") (auto dest: implementsD)

text \<open>
  C1. The answers are exactly the history. After any sequence of well-formed blocks, whatever the pruner evicts of the
  spent outputs on the way, a shard says of a transaction that it was seen or mined if and only if it owns it and some
  block of the history has it. It names the latest such block, with its hash, height and time, and serves a proof that
  verifies against the root in that block's header; for every other transaction it answers that it was
  not seen, not mined, and that there is no proof.
\<close>

theorem answers_are_history:
  assumes "pruner_D p d" and "0 < d" and "keeps_index p" and "\<forall>b\<in>set bs. wf_block b" and "coherent bs"
    and "s = fst (ingest_all mem_ops inn bs (New, p))"
  shows "snd (Mined mem_ops txid s) = Inr (mined_in (latest inn bs txid)) \<and>
    (\<exists>r. snd (Seen mem_ops txid s) = Inr r \<and> sr_Seen r = (latest inn bs txid \<noteq> None)) \<and>
    (case latest inn bs txid of None \<Rightarrow> snd (api_MerklePath mem_ops txid s) = Inl ErrNotMined
     | Some b \<Rightarrow> \<exists>pf. snd (api_MerklePath mem_ops txid s) = Inr pf \<and> Verify pf \<and> pf_Leaf pf = txid \<and>
         pf_BlockRoot pf = HeaderMerkleRoot (bl_Header b) \<and> pf_Header pf = bl_Header b \<and> pf_BlockHash pf = bl_Hash b \<and>
         pf_Height pf = bl_Height b)"
proof -
  note run = run_holds [OF assms(1-5), of inn, folded assms(6)]
  note flat = mined_flat [OF run(2), of txid]
  have proofs: "case latest inn bs txid of None \<Rightarrow> snd (Build mem_ops txid s) = Inl ErrNotMined
     | Some b \<Rightarrow> \<exists>pf. snd (Build mem_ops txid s) = Inr pf \<and> Verify pf \<and> pf_Leaf pf = txid \<and>
         pf_BlockRoot pf = HeaderMerkleRoot (bl_Header b) \<and> pf_Header pf = bl_Header b \<and> pf_BlockHash pf = bl_Hash b \<and>
         pf_Height pf = bl_Height b"
  proof (cases "latest inn bs txid")
    case None
    then show ?thesis using flat(3) snd_sim [OF mem.build_sim run(1)] by simp
  next
    case (Some b)
    then have w: "wf_block b" using latest_Some [OF Some] assms(4) by blast
    then have v: "validateBlock b = None" by (simp add: wf_block_def)
    obtain si li leaves where "provable (mem_abs s) txid (tx_index b si li) (block_rec b) leaves"
      using holds_provable [OF run(2) Some w] by blast
    from build_mem [OF run(1) this] Some validateBlock_sound(5) [OF v] show ?thesis by auto
  qed
  show ?thesis
    using flat(1,2) proofs unfolding snd_sim [OF mem.mined_sim run(1)] snd_sim [OF mem.seen_sim run(1)] api_MerklePath_def by blast
qed

definition ex_later :: Block where
  "ex_later = ex_valid\<lparr>bl_Hash := copy_from [8], bl_Height := 6, bl_Header := buildHeader 6 0 (copy_from [9])\<rparr>"

theorem answers_are_history_witness:
  "let p = Some (NewPruner RecommendedPolicy); inn = \<lparr>in_k = 0, in_id = 0, in_skipValidate = False\<rparr>;
       s = fst (ingest_all mem_ops inn [ex_valid, ex_later] (New, p))
   in snd (Mined mem_ops (copy_from [9]) s) = Inr (mined_in (Some ex_later)) \<and> snd (Mined mem_ops (copy_from [10]) s) = Inr (mined_in None)"
proof -
  let ?p = "Some (NewPruner RecommendedPolicy)" and ?inn = "\<lparr>in_k = 0, in_id = 0, in_skipValidate = False\<rparr>" and ?bs = "[ex_valid, ex_later]"
  have p: "pruner_D ?p (unat (policy_D RecommendedPolicy))" "0 < unat (policy_D RecommendedPolicy)" "keeps_index ?p"
    by (simp_all add: pruner_D_def keeps_index_def ex_prune_defs unat_gt_0)
  have "validateBlock ex_later = None"
    by (simp add: validateBlock_def ex_valid_def ex_later_def MerkleRoot_single HeaderMerkleRoot_buildHeader)
  then have w: "\<forall>b\<in>set ?bs. wf_block b" using ex_valid by (simp add: wf_block_def ex_later_def ex_valid_def ex_tx_def)
  have ne: "copy_from [7] \<noteq> (copy_from [8] :: hash)" "copy_from [9] \<noteq> (copy_from [10] :: hash)"
    by (simp_all add: slice_inject [symmetric] slice_copy_from)
  then have c: "coherent ?bs" by (simp add: coherent_def ex_later_def ex_valid_def block_rec_def)
  have "latest ?inn ?bs (copy_from [9]) = Some ex_later" "latest ?inn ?bs (copy_from [10]) = None"
    using ne by (simp_all add: latest_def owns_def txids_of_def ex_later_def ex_valid_def)
  then show ?thesis using answers_are_history [OF p w c refl, where inn = ?inn and txid = "copy_from [9]"] answers_are_history [OF p w c refl, where inn = ?inn and txid = "copy_from [10]"]
    by (simp add: Let_def)
qed

section \<open>What the pruner leaves\<close>

text \<open>Every spent record is inside the window of \<open>d\<close> blocks that ends at the tip.\<close>

definition in_window :: "nat \<Rightarrow> nat \<Rightarrow> (Outpoint \<rightharpoonup> UTXO) \<Rightarrow> bool" where
  "in_window d tip U \<longleftrightarrow>
     (\<forall>op u. U op = Some u \<and> u_Spent u \<longrightarrow> unat (u_SpentHeight u) \<le> tip \<and> tip < unat (u_SpentHeight u) + d)"

lemma tx_utxo_spent:
  assumes "tx_utxo h tx U op = Some u" and "u_Spent u"
  shows "u_SpentHeight u = h \<or> U op = Some u"
proof (cases "op \<in> created tx")
  case True
  then show ?thesis using tx_utxo_created [OF True, of h] assms by (auto simp: new_utxo_def)
next
  case False
  then show ?thesis using assms tx_utxo_other [OF False, of h U] by (auto simp: spend_def split: if_splits)
qed

lemma block_spends_here: "block_utxo inn b U op = Some u \<Longrightarrow> u_Spent u \<Longrightarrow> u_SpentHeight u = bl_Height b \<or> U op = Some u"
proof -
  have "fold (tx_utxo h) txs U op = Some u \<Longrightarrow> u_Spent u \<Longrightarrow> u_SpentHeight u = h \<or> U op = Some u" for h txs
    by (induction txs arbitrary: U) (auto dest: tx_utxo_spent)
  then show "block_utxo inn b U op = Some u \<Longrightarrow> u_Spent u \<Longrightarrow> ?thesis" by (simp add: block_utxo_def)
qed

text \<open>The pruner is level with the window: it has seen the tip, or nothing is spent yet.\<close>

definition level :: "Pruner option \<Rightarrow> nat \<Rightarrow> (Outpoint \<rightharpoonup> UTXO) \<Rightarrow> bool" where
  "level p d U \<longleftrightarrow> (case p of None \<Rightarrow> False | Some pr \<Rightarrow> unat (policy_D (pr_policy pr)) = d \<and>
     (if pr_hasTip pr then in_window d (unat (pr_lastTip pr)) U else (\<forall>op u. U op = Some u \<longrightarrow> \<not> u_Spent u)))"

lemma level_step:
  assumes "level (Some pr) d U" and "0 < d" and "pr_hasTip pr \<Longrightarrow> pr_lastTip pr < bl_Height b"
  shows "in_window d (unat (bl_Height b)) (evict_utxo (swept (Some pr) (bl_Height b)) (block_utxo inn b U))"
  unfolding in_window_def
proof (intro allI impI)
  fix op u
  let ?h = "bl_Height b" and ?S = "swept (Some pr) (bl_Height b)"
  assume "evict_utxo ?S (block_utxo inn b U) op = Some u \<and> u_Spent u"
  then have u: "block_utxo inn b U op = Some u" "u_Spent u" and keep: "u_SpentHeight u \<notin> ?S"
    by (auto simp: evict_utxo_def spent_at_def split: if_splits)
  show "unat (u_SpentHeight u) \<le> unat ?h \<and> unat ?h < unat (u_SpentHeight u) + d"
  proof (cases "u_SpentHeight u = ?h")
    case False
    with block_spends_here [OF u] have old: "U op = Some u" by blast
    then have t: "pr_hasTip pr" using assms(1) u(2) by (auto simp: level_def split: if_splits)
    then have w: "unat (u_SpentHeight u) \<le> unat (pr_lastTip pr)" "unat (pr_lastTip pr) < unat (u_SpentHeight u) + d"
      using assms(1) old u(2) by (auto simp: level_def in_window_def)
    moreover have "unat (pr_lastTip pr) < unat ?h" using assms(3) [OF t] by (simp add: word_less_nat_alt)
    ultimately show ?thesis using keep t assms(1) by (auto simp: swept_def due_def level_def)
  qed (use assms(2) in simp)
qed

lemma run_window_flat:
  assumes "level (Some pr) d (fs_utxo a)" and "0 < d" and "sorted_wrt (<) (map bl_Height bs)"
    and "\<And>b. b \<in> set bs \<Longrightarrow> pr_hasTip pr \<Longrightarrow> pr_lastTip pr < bl_Height b"
    and "\<And>b. b \<in> set bs \<Longrightarrow> in_skipValidate inn \<or> validateBlock b = None"
  shows "bs \<noteq> [] \<Longrightarrow> in_window d (unat (bl_Height (last bs))) (fs_utxo (fst (ingest_all flat_ops inn bs (a, Some pr))))"
  using assms
proof (induction bs arbitrary: a pr)
  case (Cons b bs)
  let ?h = "bl_Height b"
  have D: "pruner_D (Some pr) d" using Cons.prems(2) by (simp add: level_def pruner_D_def)
  obtain p' st where i: "IngestBlock flat_ops inn b (a, Some pr) =
      ((evict (swept (Some pr) ?h) (swept_index (Some pr) ?h) (block_effect inn b a), p'), st, None)"
    and adv: "advance (Some pr) ?h p'"
    using ingest_block_flat [OF pruner_D_ok [OF D Cons.prems(3)], of inn b a] Cons.prems(6) by auto
  let ?a = "evict (swept (Some pr) ?h) (swept_index (Some pr) ?h) (block_effect inn b a)"
  obtain n where p': "p' = Some (pr\<lparr>pr_lastTip := ?h, pr_hasTip := True, pr_total := n\<rparr>)" using adv by (auto simp: advance_def)
  have w: "in_window d (unat ?h) (fs_utxo ?a)"
    unfolding evict_utxo block_effect_utxo by (rule level_step) (use Cons.prems in auto)
  show ?case
  proof (cases "bs = []")
    case True
    then show ?thesis using w by (simp add: i)
  next
    case False
    have "level p' d (fs_utxo ?a)" using w Cons.prems(2) by (simp add: p' level_def)
    then have "in_window d (unat (bl_Height (last bs))) (fs_utxo (fst (ingest_all flat_ops inn bs (?a, p'))))"
      unfolding p' by (rule Cons.IH [OF False]) (use Cons.prems in auto)
    then show ?thesis using False by (simp add: i)
  qed
qed simp

text \<open>
  C4. Pruning bounds the store. A server that ingests blocks of increasing heights from an empty store, with a pruner of
  positive depth \<open>D\<close>, never keeps a spent output longer than \<open>D\<close> blocks: at every moment each spent record is at
  most as high as the tip and less than \<open>D\<close> below it. So spends of at most \<open>D\<close> heights are held, however long the
  chain is.
\<close>

theorem spent_window_bounded:
  assumes "policy_D pol \<noteq> 0" and "sorted_wrt (<) (map bl_Height bs)" and "bs \<noteq> []"
    and "\<forall>b\<in>set bs. in_skipValidate inn \<or> validateBlock b = None"
    and "s = fst (ingest_all mem_ops inn bs (New, Some (NewPruner pol)))" and "tip = bl_Height (last bs)"
  shows "(\<forall>op u. utxo_of s op = Some u \<and> u_Spent u \<longrightarrow>
      u_SpentHeight u \<le> tip \<and> unat tip < unat (u_SpentHeight u) + unat (policy_D pol)) \<and>
    card {h. \<exists>op u. utxo_of s op = Some u \<and> u_Spent u \<and> u_SpentHeight u = h} \<le> unat (policy_D pol)"
proof -
  note sim = mem.ingest_all_sim [OF mem_inv_New, of inn bs "Some (NewPruner pol)"]
  have abs: "mem_abs s = fst (ingest_all flat_ops inn bs (emptyFlat, Some (NewPruner pol)))"
    using sim by (simp add: assms(5) mem_abs_New)
  let ?d = "unat (policy_D pol)" and ?H = "{h. \<exists>op u. utxo_of s op = Some u \<and> u_Spent u \<and> u_SpentHeight u = h}"
  have "in_window ?d (unat tip) (fs_utxo (mem_abs s))"
    unfolding abs assms(6) by (rule run_window_flat [OF _ _ assms(2) _ _ assms(3)])
      (use assms(1,4) in \<open>auto simp: level_def NewPruner_def emptyFlat_def unat_gt_0\<close>)
  then have w: "u_SpentHeight u \<le> tip \<and> unat tip < unat (u_SpentHeight u) + ?d" if "utxo_of s op = Some u" "u_Spent u" for op u
    using that by (simp add: in_window_def utxo_of_abs word_le_nat_alt)
  have "unat ` ?H \<subseteq> {unat tip + 1 - ?d..unat tip}"
  proof
    fix n assume "n \<in> unat ` ?H"
    then obtain op u where "n = unat (u_SpentHeight u)" "utxo_of s op = Some u" "u_Spent u" by blast
    then show "n \<in> {unat tip + 1 - ?d..unat tip}" using w [of op u] by (auto simp: word_le_nat_alt)
  qed
  then have "card (unat ` ?H) \<le> card {unat tip + 1 - ?d..unat tip}" by (intro card_mono) simp_all
  then have "card (unat ` ?H) \<le> ?d" by simp
  moreover have "card (unat ` ?H) = card ?H" by (rule card_image) (simp add: inj_on_def word_unat_eq_iff)
  ultimately have "card ?H \<le> ?d" by (simp only:)
  then show ?thesis using w by blast
qed

theorem spent_window_bounded_witness:
  "let s = fst (ingest_all mem_ops ex_trusting [ex_block, ex_block\<lparr>bl_Height := 40\<rparr>] (New, Some (NewPruner RecommendedPolicy)))
   in card {h. \<exists>op u. utxo_of s op = Some u \<and> u_Spent u \<and> u_SpentHeight u = h} \<le> unat (policy_D RecommendedPolicy)"
proof -
  let ?bs = "[ex_block, ex_block\<lparr>bl_Height := 40\<rparr>]"
  have "policy_D RecommendedPolicy \<noteq> 0" "sorted_wrt (<) (map bl_Height ?bs)" "?bs \<noteq> []"
    "\<forall>b\<in>set ?bs. in_skipValidate ex_trusting \<or> validateBlock b = None"
    by (simp_all add: ex_prune_defs ex_block_def ex_trusting_def)
  from spent_window_bounded [OF this refl refl] show ?thesis by (simp add: Let_def)
qed

end
