(* ===== verification/Spec2Isabelle.thy ===== *)
theory Spec2Isabelle
  imports Client Http_Server Test_Vectors Httpsource Accel Conformance Testnet Commands History
begin

text \<open>
  A verification library for memserve, a memory-resident query service beside a Teranode (BSV) node. The
  service pulls sealed blocks from a block source, indexes its shard of the transactions and outputs in a
  store, prunes what is older than its retention window, and answers four queries (was a transaction seen,
  was it mined, its inclusion proof, the status of an output), free or prepaid over payment
  channels, with answers that the operator may sign. A client compares several operators and turns
  contradicting signatures into fraud proofs.

  \<^bold>\<open>Parts and theories.\<close> Every theory models the files it names in its first text block; the definitions keep the
  source's names, prefixed where two files or the library share one.

  \<^item> Foundations. \<open>Prelude\<close> has Go's integers as words (\<open>uint32\<close>, \<open>uint64\<close>, \<dots>), fixed-size arrays as the type
    \<open>barray\<close>, byte orders, and the errors of all packages as the datatype \<open>go_error\<close> (a panic is one of its
    constructors). \<open>Go_Monad\<close> has stateful code as functions from a state to a state and an error or a result, and
    the simulation relation \<open>implements\<close> with its rules. \<open>Sha256\<close> and \<open>Big\<close> have the parts of the standard library
    that the code calls: SHA-256, HMAC, and \<^verbatim>\<open>math/big\<close>. \<open>Test_Vectors\<close> evaluates published hash values.
  \<^item> Data. \<open>Commitment\<close> (\<^verbatim>\<open>commitment/\<close>) has Merkle trees and paths, \<open>Shard\<close> (\<^verbatim>\<open>shard/\<close>) the assignment of hashes
    to shards, \<open>Inclusion_Proof\<close> (\<^verbatim>\<open>proof/\<close>) the building and checking of proofs.
  \<^item> Stores. \<open>Store\<close> (\<^verbatim>\<open>store/store.go\<close>) has the interface as a record of operations, the locale
    \<open>store_backend\<close> with its contract, and a plain reference store of maps. \<open>Mem_Store\<close> (\<^verbatim>\<open>store/mem/\<close>) is the striped
    in-memory backend and interprets the locale; \<open>Aerospike\<close> (\<^verbatim>\<open>store/aerospike/\<close>) is the cluster backend;
    \<open>Conformance\<close> (\<^verbatim>\<open>store/storetest/\<close>) runs the shared test suite on both.
  \<^item> Ingestion. \<open>Teranode\<close> (\<^verbatim>\<open>teranode/\<close>) and \<open>Httpsource\<close> (\<^verbatim>\<open>teranode/httpsource/\<close>) are the block sources,
    \<open>Prune\<close> (\<^verbatim>\<open>prune/\<close>) is retention, \<open>Ingest\<close> (\<^verbatim>\<open>ingest/\<close>) indexing, validation and rollback, \<open>Api\<close> (\<^verbatim>\<open>api/\<close>) the four
    queries, and \<open>History\<close> what a whole run serves and keeps.
  \<^item> Cryptography. \<open>Field\<close> (\<^verbatim>\<open>crypto/ct.go\<close>) has the limb arithmetic, \<open>Secp256k1\<close> (\<^verbatim>\<open>crypto/secp256k1.go\<close>) points,
    keys, nonces and ECDSA, \<open>Accel\<close> (\<^verbatim>\<open>accel/\<close>) batch verification and its gate.
  \<^item> Payment. \<open>Bsvtx\<close> and \<open>Address\<close> (\<^verbatim>\<open>bsvtx/\<close>) have transactions, scripts, signature hashes, DER and addresses,
    \<open>Channel\<close> (\<^verbatim>\<open>payment/channel/\<close>) the prepaid channel, \<open>Payment\<close> (\<^verbatim>\<open>payment/\<close>) the registry and the abuse policy.
  \<^item> Service. \<open>Attest\<close> (\<^verbatim>\<open>attest/\<close>) has signed statements and fraud proofs, \<open>Wire\<close>, \<open>Limiter\<close> and \<open>Http_Server\<close>
    (\<^verbatim>\<open>server/\<close>) the wire forms, the token bucket, and the handlers with the ingest loop, \<open>Client\<close> (\<^verbatim>\<open>client/\<close>) the client.
  \<^item> Commands. \<open>Daemon\<close> (\<^verbatim>\<open>cmd/memserved\<close>, \<^verbatim>\<open>bench/\<close>), \<open>Testnet\<close> (\<^verbatim>\<open>cmd/channeltestnet\<close>) and \<open>Commands\<close>
    (\<^verbatim>\<open>cmd/ingest\<close>, \<^verbatim>\<open>cmd/memserve\<close>, \<^verbatim>\<open>cmd/accelcheck\<close>).

  \<^bold>\<open>State and interaction.\<close> A Go object is a record, a method a function on it; the program's composition is function
  application. The components above the store take the record \<open>store_ops\<close>, so that every lemma about them is proved once inside
  the locale \<open>store_backend\<close> against the reference store and carried over to the memory backend by the interpretation \<open>mem\<close>.
  What runs concurrently is a sequence of atomic steps: the ingest loop and the requests of a server are cut where they can see
  each other (the store changes before the tip is published), the goroutines of the batch verifier are arbitrary
  interleavings of their writes, and the batching gate is a step relation with its timer. A handler, a store operation and
  a method under a lock is one step.

  \<^bold>\<open>What is shown.\<close>
  \<^item> The memory backend implements the reference store, call by call; so does the Aerospike adapter over any client that behaves as
    a record store, on runs that spend only unspent outputs; both pass the conformance suite.
  \<^item> Ingestion accepts exactly the blocks whose roots agree; the queries then answer exactly the history of ingested blocks; a reorganisation
    inside the pruning depth restores the outputs; pruning evicts exactly the band it should, keeps
    at most a window of \<open>D\<close> blocks of spends, and never turns an answer into a wrong one. From block to client: the
    route answers with a proof that a client accepts.
  \<^item> Merkle paths fold to the root and a root binds its leaves unless SHA-256d collides; wire and transaction encodings are injective or inverse to
    their decoders; Base58Check decoding accepts exactly the encodings.
  \<^item> The limb arithmetic is arithmetic modulo \<open>p\<close> and the constant-time ladder agrees with the affine reference;
    signatures are canonical; parallel and batched verification give the verdicts of the serial verifier, and every request is answered.
  \<^item> No answer is served that has not been paid for; a settlement is authorised by both keys and conserves the deposit; an abuser's work is bounded; the limiter
    bounds the rate of each client; fraud proofs are sound for signatures of one operator.
  \<^item> The loops end: retries are bounded, the daemon catches up with the mock source, the commands return.
  \<^item> Where the code does not do what its comments say, a lemma shows it: an honest server can be made to sign two contradicting answers
    (\<open>honest_server_equivocates\<close>), one lying operator can frame another (\<open>liar_frames_honest\<close>), sums wrap
    (\<open>commitment_fee_overflow\<close>, \<open>prune_depth_overflow\<close>, \<open>fund_guard_wraps\<close>), reopening a channel replays its payment
    (\<open>reopen_replays_payment\<close>), and others named in the theories.

  \<^bold>\<open>Bounds, loops, parameters.\<close> Integers keep their width wherever the code can overflow; counters of records and lengths are natural
  numbers. Loops over data are structural or have a termination proof; a loop that may not end (draining a source, the search for a
  nonce) is a partial function whose value \<open>None\<close> is not returning, and the theorems about the commands and sources show a
  value. There is no fuel in the model: an argument that counts clock readings stands for a deadline. Signature checks are arguments where a
  theorem does not depend on them. The Aerospike client, the HTTP endpoint, the block explorer and the connection of a cluster
  are parameters, with \<open>client_ok\<close> and \<open>keys_ok\<close> as the hypotheses on the first; the witnesses instantiate them. The iteration order
  of a Go map is an argument where the result depends on it.

  \<^bold>\<open>Idealisations.\<close> Tokens of the limiter are rational numbers where Go has \<^verbatim>\<open>float64\<close>; JSON bodies are decoded values; printed lines are the values
  they show; no model has memory exhaustion. No theorem assumes that SHA-256 has no collisions: the statements that need it
  have a collision as an alternative. That \<open>p\<close> and \<open>n\<close> are prime is not assumed either; the statements about the ladder name the denominators that
  have to be invertible.

  \<^bold>\<open>Not modelled.\<close>
  \<^item> Sockets, timeouts, graceful shutdown, logging, signal handling, \<^verbatim>\<open>clientIP\<close>, and the memory limit of the Go runtime
    (\<^verbatim>\<open>server.Start\<close>, parts of \<^verbatim>\<open>cmd/memserved/main.go\<close>): they are calls of the operating system and have no result the program uses.
  \<^item> Rates: the division of a count by measured time, and the main function of \<^verbatim>\<open>cmd/memserve\<close>, which prints them.
  \<^item> The GPU backend: \<^verbatim>\<open>accel/cuda.go\<close> calls a C library through cgo.
  \<^item> The text of JSON, URLs, HTTP headers, command-line flags and the layout of printed lines.
  \<^item> Timing side channels: the constant-time code is modelled for what it computes.
  \<^item> Scripts, deployment files and documents.
\<close>

section \<open>From a block to a client's conclusion\<close>

definition proven_mined :: "Operator list \<Rightarrow> hash \<Rightarrow> bool" where
  "proven_mined ops txid = (case client_Mined (NewClient ops) txid of (res, proven, _) \<Rightarrow> mr_Mined res \<and> proven)"

lemma client_proven:
  assumes "op \<in> set ops" and "op_MerklePath op txid = Inr p" and "pf_Leaf p = txid" and "Verify p"
  shows "proven_mined ops txid"
proof (cases "client_MerklePath (NewClient ops) txid")
  case (Inl e)
  then have "\<not> list_ex (honest_proof txid) ops" by (simp add: client_MerklePath_def NewClient_def first_proof_Inl)
  then show ?thesis using assms by (auto simp: list_ex_iff honest_proof_def)
next
  case (Inr q)
  then show ?thesis by (simp add: proven_mined_def client_Mined_def)
qed



end
